(* ===== verification/Prelude.thy ===== *)
theory Prelude
  imports Main "HOL-Library.Word"
begin

unbundle bit_operations_syntax

text \<open>
  What every component of the development shares: the ways a kernel function can fail to
  return (\<open>fault\<close>), results with such a failure (\<open>res\<close>) and their sequencing
  (\<open>bind_res\<close>), the error codes of \<^verbatim>\<open>include/common/error.h\<close> that the modelled code
  returns, the rounding and comparison macros of \<^verbatim>\<open>include/common/align.h\<close> and
  \<^verbatim>\<open>minmax.h\<close>, and lemmas on lists and words.
\<close>

section \<open>Shared collections\<close>

named_theorems ultra_defs \<open>unfolding equations of the straight-line macros and helpers\<close>
named_theorems wf_intros \<open>introduction rules for the well-formedness invariants\<close>

section \<open>Functions that may not return\<close>

text \<open>
  \<open>Bug\<close> is a \<^verbatim>\<open>BUG()\<close>, \<^verbatim>\<open>BUG_ON()\<close> or \<^verbatim>\<open>panic()\<close> that fires (the kernel prints a message and
  stops), \<open>Hang\<close> a loop or recursion that has not ended within the fuel it was given, \<open>Wild\<close>
  undefined behaviour: an access through a pointer outside the object it points to, or a shift by
  the width of its operand or more.
\<close>

datatype fault = Bug | Hang | Wild

type_synonym 'a res = "fault + 'a"

fun bind_res :: "'a res \<Rightarrow> ('a \<Rightarrow> 'b res) \<Rightarrow> 'b res" where
  "bind_res (Inl e) f = Inl e"
| "bind_res (Inr x) f = f x"

lemma bind_res_cong [fundef_cong]:
  "m = m' \<Longrightarrow> (\<And>x. m' = Inr x \<Longrightarrow> f x = f' x) \<Longrightarrow> bind_res m f = bind_res m' f'"
  by (cases m') auto

lemma bind_res_Inr_iff:
  "bind_res m f = Inr y \<longleftrightarrow> (\<exists>x. m = Inr x \<and> f x = Inr y)"
  by (cases m) auto

lemma bind_res_Inl_iff:
  "bind_res m f = Inl e \<longleftrightarrow> m = Inl e \<or> (\<exists>x. m = Inr x \<and> f x = Inl e)"
  by (cases m) auto

lemma bind_res_assoc: "bind_res (bind_res m f) g = bind_res m (\<lambda>x. bind_res (f x) g)"
  by (cases m) auto

text \<open>\<^verbatim>\<open>BUG_ON(expr)\<close> of \<^verbatim>\<open>include/bug.h\<close>, followed by the rest of the function.\<close>

definition BUG_ON :: "bool \<Rightarrow> 'a res \<Rightarrow> 'a res" where
  "BUG_ON expr rest = (if expr then Inl Bug else rest)"

lemma BUG_ON_simps [simp]:
  "BUG_ON True rest = Inl Bug"
  "BUG_ON False rest = rest"
  by (simp_all add: BUG_ON_def)

lemma BUG_ON_Inr_iff: "BUG_ON b rest = Inr y \<longleftrightarrow> \<not> b \<and> rest = Inr y"
  by (simp add: BUG_ON_def)

section \<open>Error codes\<close>

text \<open>
  The codes that the modelled functions return. A C function of type \<^verbatim>\<open>error_t\<close> with an
  output parameter is a HOL function into \<open>errno + 'a\<close>: \<open>Inl\<close> carries the code and the
  output is not written, \<open>Inr\<close> is \<^verbatim>\<open>EOK\<close> with the value written.
\<close>

datatype errno = EBUSY | EINVAL | ENODEV | ENOMEM | ENOSYS | ENOTSUP | ERANGE

primrec errno_code :: "errno \<Rightarrow> nat" where
  "errno_code EBUSY = 10"
| "errno_code EINVAL = 28"
| "errno_code ENODEV = 44"
| "errno_code ENOMEM = 49"
| "errno_code ENOSYS = 55"
| "errno_code ENOTSUP = 61"
| "errno_code ERANGE = 72"

definition MAX_ERRNO :: nat where
  "MAX_ERRNO = 4095"

lemma errno_code_inj [simp]: "errno_code a = errno_code b \<longleftrightarrow> a = b"
  by (cases a; cases b) simp_all

lemma errno_code_bounds: "0 < errno_code e" "errno_code e \<le> MAX_ERRNO"
  by (cases e; simp add: MAX_ERRNO_def)+

text \<open>The codes are ordered by their number, as the C integers are.\<close>

instantiation errno :: linorder
begin

definition less_eq_errno :: "errno \<Rightarrow> errno \<Rightarrow> bool" where
  "less_eq_errno a b \<longleftrightarrow> errno_code a \<le> errno_code b"

definition less_errno :: "errno \<Rightarrow> errno \<Rightarrow> bool" where
  "less_errno a b \<longleftrightarrow> errno_code a < errno_code b"

instance
  by standard (auto simp: less_eq_errno_def less_errno_def)

end

text \<open>\<^verbatim>\<open>encode_error_phys_addr\<close> and \<^verbatim>\<open>error_phys_addr\<close>: a physical address that is at most
  \<^verbatim>\<open>MAX_ERRNO\<close> is an error code.\<close>

definition encode_error_phys_addr :: "errno \<Rightarrow> 64 word" where
  "encode_error_phys_addr e = of_nat (errno_code e)"

definition error_phys_addr :: "64 word \<Rightarrow> bool" where
  "error_phys_addr ret \<longleftrightarrow> ret \<le> of_nat MAX_ERRNO"

lemma error_phys_addr_encode [simp]: "error_phys_addr (encode_error_phys_addr e)"
  by (cases e) (simp_all add: error_phys_addr_def encode_error_phys_addr_def MAX_ERRNO_def)

section \<open>Macros of align.h and minmax.h\<close>

definition PAGE_SIZE :: "64 word" where
  "PAGE_SIZE = 4096"

definition PAGE_SHIFT :: nat where
  "PAGE_SHIFT = 12"

definition ALIGN_UP :: "64 word \<Rightarrow> 64 word \<Rightarrow> 64 word" where
  "ALIGN_UP x val = (x + (val - 1)) AND NOT (val - 1)"

definition PAGE_ROUND_UP :: "64 word \<Rightarrow> 64 word" where
  "PAGE_ROUND_UP x = ALIGN_UP x PAGE_SIZE"

definition C_MIN :: "'a::ord \<Rightarrow> 'a \<Rightarrow> 'a" where
  "C_MIN x y = (if x < y then x else y)"

definition C_MAX :: "'a::ord \<Rightarrow> 'a \<Rightarrow> 'a" where
  "C_MAX x y = (if x > y then x else y)"

lemma C_MIN_eq_min [simp]: "C_MIN (x::'a::linorder) y = min x y"
  by (auto simp: C_MIN_def)

lemma C_MAX_eq_max [simp]: "C_MAX (x::'a::linorder) y = max x y"
  by (auto simp: C_MAX_def)

section \<open>The direct map\<close>

text \<open>\<^verbatim>\<open>phys_to_virt\<close> and \<^verbatim>\<open>virt_to_phys\<close> of \<^verbatim>\<open>include/io.h\<close>; \<open>base\<close> is \<^verbatim>\<open>g_direct_map_base\<close>.\<close>

definition phys_to_virt :: "64 word \<Rightarrow> 64 word \<Rightarrow> 64 word" where
  "phys_to_virt base phys = phys + base"

definition virt_to_phys :: "64 word \<Rightarrow> 64 word \<Rightarrow> 64 word" where
  "virt_to_phys base virt = virt - base"

lemma direct_map [simp]: "phys_to_virt base (virt_to_phys base virt) = virt" "virt_to_phys base (phys_to_virt base phys) = phys"
  by (simp_all add: phys_to_virt_def virt_to_phys_def)

section \<open>Lemmas on lists\<close>

lemma take_Suc_update: "i < length xs \<Longrightarrow> take (Suc i) (xs[i := x]) = take i xs @ [x]"
  by (simp add: take_Suc_conv_app_nth)

lemma drop_eq_Cons_nth: "i < length xs \<Longrightarrow> drop i xs = xs ! i # drop (Suc i) xs"
  by (simp add: Cons_nth_drop_Suc)

section \<open>Lemmas on words\<close>

text \<open>Sums and differences that do not wrap, read as naturals.\<close>

lemma unat_add_no_wrap:
  "unat (a::64 word) + unat b < 2 ^ 64 \<Longrightarrow> unat (a + b) = unat a + unat b"
  by (simp add: unat_word_ariths)

lemma unat_diff_no_wrap:
  "unat (b::64 word) \<le> unat a \<Longrightarrow> unat (a - b) = unat a - unat b"
  by (simp add: unat_sub_if_size)

lemma unat_lt_64 [simp]: "unat (a::64 word) < 18446744073709551616"
  using unsigned_less [of a, where ?'a = nat] by simp

lemma min_word_unat: "unat (min a (b::'a::len word)) = min (unat a) (unat b)"
  by (simp add: min_def word_le_nat_alt)

lemma max_word_unat: "unat (max a (b::'a::len word)) = max (unat a) (unat b)"
  by (simp add: max_def word_le_nat_alt)

text \<open>An even number below an even bound is two below it.\<close>

lemma even_Suc_less: "even (n::nat) \<Longrightarrow> even m \<Longrightarrow> n < m \<Longrightarrow> n + 1 < m"
  by (auto elim!: evenE)

text \<open>Masks with a power of two, as division and remainder.\<close>

lemma unat_and_mask: "unat ((x::'a::len word) AND mask n) = unat x mod 2 ^ n"
  by (simp only: take_bit_eq_mask [symmetric] unsigned_take_bit_eq) (simp add: take_bit_eq_mod)

lemma unat_drop_bit: "unat (drop_bit n (x :: 'a::len word)) = unat x div 2 ^ n"
  by (simp only: unsigned_drop_bit_eq) (simp add: drop_bit_eq_div take_bit_nat_eq_self)

lemma and_not_mask_eq: "(x::'a::len word) AND NOT (mask n) = x - (x AND mask n)"
proof -
  have "x = (x AND NOT (mask n)) + (x AND mask n)"
    by (simp add: word_plus_and_or disjunctive_add bit_eq_iff bit_and_iff bit_or_iff bit_not_iff)
      blast
  then show ?thesis by (metis add_diff_cancel_right')
qed

lemma unat_and_not_mask:
  "unat ((x::'a::len word) AND NOT (mask n)) = unat x - unat x mod 2 ^ n"
proof -
  have "unat (x AND mask n) \<le> unat x"
    by (simp add: unat_and_mask)
  then have "unat (x - (x AND mask n)) = unat x - unat (x AND mask n)"
    by (simp add: unat_sub_if_size)
  then show ?thesis
    by (simp add: and_not_mask_eq unat_and_mask)
qed

text \<open>Two's complement: the signed reading, negation, and sign extension after truncation.\<close>

lemma signed_fold:
  fixes u M :: nat
  assumes "u < 2 * M"
  shows "(int u + int M) mod (2 * int M) - int M = (if u < M then int u else int u - 2 * int M)"
proof (cases "u < M")
  case True
  then have "(int u + int M) mod (2 * int M) = int u + int M"
    by (intro mod_pos_pos_trivial) auto
  with True show ?thesis by simp
next
  case False
  have "(int u + int M) mod (2 * int M) = (int u - int M + 2 * int M) mod (2 * int M)"
    by (simp add: algebra_simps)
  also have "\<dots> = (int u - int M) mod (2 * int M)"
    by (rule mod_add_self2)
  also have "\<dots> = int u - int M"
    using False assms by (intro mod_pos_pos_trivial) auto
  finally show ?thesis using False by simp
qed

lemma sint_unat:
  "sint (w::64 word) = (if unat w < 2 ^ 63 then int (unat w) else int (unat w) - 2 ^ 64)"
  using int_word_sint [of "uint w", where ?'a = 64] signed_fold [of "unat w" "2 ^ 63"]
  by simp

lemma unat_uminus:
  "unat (- (w::'a::len word)) = (if w = 0 then 0 else 2 ^ LENGTH('a) - unat w)"
  using unat_sub_if_size [of 0 w] by (simp add: word_size unat_eq_zero)

lemma sint_uminus_pos: "0 < sint (- (w::64 word)) \<longleftrightarrow> 2 ^ 63 < unat w"
  using unat_lt_64 [of w] by (auto simp: sint_unat unat_uminus unat_gt_0)

lemma scast_ucast_of_int:
  assumes "LENGTH('a) \<le> 64" "- (2 ^ 63) \<le> v" "v < 2 ^ 63"
  shows "(scast (ucast (word_of_int v :: 64 word) :: 'a::len word) :: 64 word) = word_of_int v
    \<longleftrightarrow> - (2 ^ (LENGTH('a) - 1)) \<le> v \<and> v < 2 ^ (LENGTH('a) - 1)"
proof -
  have "(ucast (word_of_int v :: 64 word) :: 'a word) = word_of_int v"
    using assms(1) by (simp add: ucast_down_wi is_down)
  then have "(scast (ucast (word_of_int v :: 64 word) :: 'a word) :: 64 word)
      = word_of_int (signed_take_bit (LENGTH('a) - 1) v)"
    by (simp add: scast_eq sint_sbintrunc')
  also have "\<dots> = word_of_int v \<longleftrightarrow> signed_take_bit (LENGTH('a) - 1) v = v" (is "?l \<longleftrightarrow> ?r")
  proof
    assume ?l
    then have "sint (word_of_int (signed_take_bit (LENGTH('a) - 1) v) :: 64 word)
        = sint (word_of_int v :: 64 word)"
      by simp
    then have "signed_take_bit 63 (signed_take_bit (LENGTH('a) - 1) v) = signed_take_bit 63 v"
      by (simp add: sint_sbintrunc')
    moreover have "min 63 (LENGTH('a) - 1) = LENGTH('a) - 1"
      using assms(1) by simp
    moreover have "signed_take_bit 63 v = v"
      using assms by (simp add: signed_take_bit_int_eq_self)
    ultimately show ?r by simp
  qed simp
  finally show ?thesis by (simp add: signed_take_bit_int_eq_self_iff)
qed

lemma ucast_ucast_of_nat:
  assumes "LENGTH('a) \<le> 64" "n < 2 ^ 64"
  shows "(ucast (ucast (of_nat n :: 64 word) :: 'a::len word) :: 64 word) = of_nat n
    \<longleftrightarrow> n < 2 ^ LENGTH('a)"
proof -
  have "(2::nat) ^ LENGTH('a) \<le> 2 ^ 64"
    using assms(1) by (intro power_increasing) auto
  moreover have "n mod 2 ^ LENGTH('a) < 2 ^ LENGTH('a)"
    by simp
  ultimately have lt: "n mod 2 ^ LENGTH('a) < 2 ^ 64"
    by linarith
  have "unat (ucast (ucast (of_nat n :: 64 word) :: 'a word) :: 64 word) = n mod 2 ^ LENGTH('a)"
    using assms lt by (simp add: unsigned_ucast_eq unsigned_of_nat take_bit_eq_mod)
  then have "(ucast (ucast (of_nat n :: 64 word) :: 'a word) :: 64 word) = of_nat n
      \<longleftrightarrow> n mod 2 ^ LENGTH('a) = n"
    using assms(2) by (simp add: word_unat_eq_iff unsigned_of_nat take_bit_eq_mod)
  then show ?thesis by (metis mod_less mod_less_divisor zero_less_numeral zero_less_power)
qed

section \<open>Constants of leb128.h\<close>

definition LEB128_HAS_NEXT_BYTE :: "8 word" where "LEB128_HAS_NEXT_BYTE = 0x80"
definition LEB128_BITS_PER_BYTE :: "8 word" where "LEB128_BITS_PER_BYTE = 7"
definition LEB128_MAX_PER_BYTE :: "8 word" where "LEB128_MAX_PER_BYTE = 0x7F"

lemma unat_low7: "unat ((b::8 word) AND LEB128_MAX_PER_BYTE) = unat b mod 128"
  using unat_and_mask [of b 7] by (simp add: LEB128_MAX_PER_BYTE_def mask_eq_exp_minus_1)

lemma has_next_iff: "(b::8 word) AND LEB128_HAS_NEXT_BYTE = 0 \<longleftrightarrow> unat b < 128"
proof -
  have "b AND LEB128_HAS_NEXT_BYTE = 0 \<longleftrightarrow> \<not> bit b 7"
    by (simp add: LEB128_HAS_NEXT_BYTE_def bit_iff_and_push_bit_not_eq_0)
  also have "bit b 7 \<longleftrightarrow> bit (unat b) 7"
    by (simp add: bit_unsigned_iff)
  also have "\<not> bit (unat b) 7 \<longleftrightarrow> unat b < 128"
  proof (cases "unat b < 128")
    case False
    then have "unat b div 128 = 1"
      using unsigned_less [of b, where ?'a = nat] by (intro div_nat_eqI) simp_all
    with False show ?thesis by (simp add: bit_iff_odd)
  qed (simp add: bit_iff_odd)
  finally show ?thesis .
qed

lemma or_shifted:
  assumes "v < 2 ^ k"
  shows "(of_nat v :: 'a::len word) OR of_nat (x * 2 ^ k) = of_nat (v + x * 2 ^ k)"
proof -
  have "\<not> bit (of_nat v :: 'a word) n \<or> \<not> bit (of_nat (x * 2 ^ k) :: 'a word) n" for n
  proof (cases "n < k")
    case True
    then have "\<not> bit (push_bit k (of_nat x :: 'a word)) n"
      by (simp add: bit_push_bit_iff)
    then show ?thesis by (simp add: push_bit_eq_mult)
  next
    case False
    then have "v < 2 ^ n"
      using assms by (meson le_less_trans not_less power_increasing one_le_numeral less_le_trans)
    then have "\<not> bit v n" by (simp add: bit_iff_odd)
    then show ?thesis by (simp add: bit_of_nat_iff)
  qed
  then show ?thesis
    by (simp add: disjunctive_add)
qed

lemma unat_byte: "x < 256 \<Longrightarrow> unat (of_nat x :: 8 word) = x"
  by (simp add: unsigned_of_nat take_bit_nat_eq_self)

end
