(* ===== verification/CType.thy ===== *)
theory CType
  imports Prelude
begin

text \<open>
  \<^verbatim>\<open>kernel/common/ctype.c\<close> and \<^verbatim>\<open>kernel/include/common/ctype.h\<close>: the 256-entry table that
  classifies bytes, and the predicates and case conversions that read it. A C \<^verbatim>\<open>char\<close> is a
  HOL \<^typ>\<open>char\<close> (one byte); \<open>of_char\<close> is the cast to \<^verbatim>\<open>u8\<close> that indexes the table.
\<close>

abbreviation char_code :: "char \<Rightarrow> nat" where
  "char_code c \<equiv> of_char c"

section \<open>The table\<close>

definition CHAR_TYPE_CONTROL :: "8 word" where "CHAR_TYPE_CONTROL = push_bit 0 1"
definition CHAR_TYPE_SPACE :: "8 word" where "CHAR_TYPE_SPACE = push_bit 1 1"
definition CHAR_TYPE_BLANK :: "8 word" where "CHAR_TYPE_BLANK = push_bit 2 1"
definition CHAR_TYPE_PUNCTUATION :: "8 word" where "CHAR_TYPE_PUNCTUATION = push_bit 3 1"
definition CHAR_TYPE_LOWER :: "8 word" where "CHAR_TYPE_LOWER = push_bit 4 1"
definition CHAR_TYPE_UPPER :: "8 word" where "CHAR_TYPE_UPPER = push_bit 5 1"
definition CHAR_TYPE_DIGIT :: "8 word" where "CHAR_TYPE_DIGIT = push_bit 6 1"
definition CHAR_TYPE_HEX_DIGIT :: "8 word" where "CHAR_TYPE_HEX_DIGIT = push_bit 7 1"

definition CHAR_TYPE_ALPHA :: "8 word" where
  "CHAR_TYPE_ALPHA = CHAR_TYPE_LOWER OR CHAR_TYPE_UPPER"

definition CHAR_TYPE_ALHEX :: "8 word" where
  "CHAR_TYPE_ALHEX = CHAR_TYPE_ALPHA OR CHAR_TYPE_HEX_DIGIT"

definition CHAR_TYPE_ALNUM :: "8 word" where
  "CHAR_TYPE_ALNUM = CHAR_TYPE_ALPHA OR CHAR_TYPE_DIGIT"

text \<open>The initialiser, one segment per run of equal entries; the entries from 128 on have no
  initialiser and are 0.\<close>

definition g_ascii_map :: "8 word list" where
  "g_ascii_map =
     replicate 9 CHAR_TYPE_CONTROL
   @ [CHAR_TYPE_CONTROL OR CHAR_TYPE_SPACE OR CHAR_TYPE_BLANK]
   @ replicate 4 (CHAR_TYPE_CONTROL OR CHAR_TYPE_SPACE)
   @ replicate 18 CHAR_TYPE_CONTROL
   @ [CHAR_TYPE_SPACE OR CHAR_TYPE_BLANK]
   @ replicate 15 CHAR_TYPE_PUNCTUATION
   @ replicate 10 (CHAR_TYPE_DIGIT OR CHAR_TYPE_HEX_DIGIT)
   @ replicate 7 CHAR_TYPE_PUNCTUATION
   @ replicate 6 (CHAR_TYPE_UPPER OR CHAR_TYPE_HEX_DIGIT)
   @ replicate 20 CHAR_TYPE_UPPER
   @ replicate 6 CHAR_TYPE_PUNCTUATION
   @ replicate 6 (CHAR_TYPE_LOWER OR CHAR_TYPE_HEX_DIGIT)
   @ replicate 20 CHAR_TYPE_LOWER
   @ replicate 4 CHAR_TYPE_PUNCTUATION
   @ [CHAR_TYPE_CONTROL]
   @ replicate 128 0"

lemma length_g_ascii_map [simp]: "length g_ascii_map = 256"
  by (simp add: g_ascii_map_def)

lemmas char_type_defs =
  CHAR_TYPE_CONTROL_def CHAR_TYPE_SPACE_def CHAR_TYPE_BLANK_def CHAR_TYPE_PUNCTUATION_def
  CHAR_TYPE_LOWER_def CHAR_TYPE_UPPER_def CHAR_TYPE_DIGIT_def CHAR_TYPE_HEX_DIGIT_def
  CHAR_TYPE_ALPHA_def CHAR_TYPE_ALHEX_def CHAR_TYPE_ALNUM_def

section \<open>Classification and case conversion\<close>

definition is_char_of_type :: "char \<Rightarrow> 8 word \<Rightarrow> bool" where
  "is_char_of_type c type \<longleftrightarrow> (g_ascii_map ! of_char c) AND type = type"

definition isupper :: "char \<Rightarrow> bool" where
  "isupper c \<longleftrightarrow> is_char_of_type c CHAR_TYPE_UPPER"

definition islower :: "char \<Rightarrow> bool" where
  "islower c \<longleftrightarrow> is_char_of_type c CHAR_TYPE_LOWER"

definition isalnum :: "char \<Rightarrow> bool" where
  "isalnum c \<longleftrightarrow> is_char_of_type c CHAR_TYPE_ALNUM"

definition isspace :: "char \<Rightarrow> bool" where
  "isspace c \<longleftrightarrow> is_char_of_type c CHAR_TYPE_SPACE"

definition isdigit :: "char \<Rightarrow> bool" where
  "isdigit c \<longleftrightarrow> is_char_of_type c CHAR_TYPE_DIGIT"

definition isxdigit :: "char \<Rightarrow> bool" where
  "isxdigit c \<longleftrightarrow> is_char_of_type c CHAR_TYPE_HEX_DIGIT"

definition CHAR_LOWER_TO_UPPER_OFFSET :: nat where
  "CHAR_LOWER_TO_UPPER_OFFSET = of_char (CHR ''a'') - of_char (CHR ''A'')"

definition tolower :: "char \<Rightarrow> char" where
  "tolower c = (if isupper c then char_of (of_char c + CHAR_LOWER_TO_UPPER_OFFSET) else c)"

definition toupper :: "char \<Rightarrow> char" where
  "toupper c = (if islower c then char_of (of_char c - CHAR_LOWER_TO_UPPER_OFFSET) else c)"

section \<open>The table as ranges of codes\<close>

text \<open>
  Reading entry \<open>of_char c\<close> of the segmented table is a chain of comparisons; each predicate
  is the range of codes it names.
\<close>

lemma of_char_lt_256 [simp]: "char_code c < 256"
  by (cases c) (simp add: horner_sum_simps of_char_def split: if_splits)

lemma OR_type_cases:
  "CHAR_TYPE_CONTROL = 1" "CHAR_TYPE_SPACE = 2" "CHAR_TYPE_BLANK = 4"
  "CHAR_TYPE_PUNCTUATION = 8" "CHAR_TYPE_LOWER = 16" "CHAR_TYPE_UPPER = 32"
  "CHAR_TYPE_DIGIT = 64" "CHAR_TYPE_HEX_DIGIT = 128" "CHAR_TYPE_ALNUM = 112"
  by (simp_all add: char_type_defs push_bit_eq_mult)

text \<open>The table entry at a code, as the chain of comparisons that the segments amount to.\<close>

definition ascii_entry :: "nat \<Rightarrow> 8 word" where
  "ascii_entry n =
     (if n < 9 then 1 else if n < 10 then 7 else if n < 14 then 3 else if n < 32 then 1
      else if n < 33 then 6 else if n < 48 then 8 else if n < 58 then 192 else if n < 65 then 8
      else if n < 71 then 160 else if n < 91 then 32 else if n < 97 then 8
      else if n < 103 then 144 else if n < 123 then 16 else if n < 127 then 8
      else if n < 128 then 1 else 0)"

lemma g_ascii_map_eq: "g_ascii_map = map ascii_entry [0..<256]"
  by code_simp

lemma ascii_map_nth: "n < 256 \<Longrightarrow> g_ascii_map ! n = ascii_entry n"
  by (simp add: g_ascii_map_eq)

lemma isupper_iff: "isupper c \<longleftrightarrow> 65 \<le> char_code c \<and> char_code c < 91"
  by (simp add: isupper_def is_char_of_type_def ascii_map_nth ascii_entry_def OR_type_cases)

lemma islower_iff: "islower c \<longleftrightarrow> 97 \<le> char_code c \<and> char_code c < 123"
  by (simp add: islower_def is_char_of_type_def ascii_map_nth ascii_entry_def OR_type_cases)

lemma isspace_iff:
  "isspace c \<longleftrightarrow> 9 \<le> char_code c \<and> char_code c < 14 \<or> char_code c = 32"
  by (simp add: isspace_def is_char_of_type_def ascii_map_nth ascii_entry_def OR_type_cases)

lemma isdigit_iff: "isdigit c \<longleftrightarrow> 48 \<le> char_code c \<and> char_code c < 58"
  by (simp add: isdigit_def is_char_of_type_def ascii_map_nth ascii_entry_def OR_type_cases)

text \<open>\<^verbatim>\<open>CHAR_TYPE_ALNUM\<close> has the bits of upper, lower and digit, and no character has all three.\<close>

lemma isalnum_never: "\<not> isalnum c"
  by (simp add: isalnum_def is_char_of_type_def ascii_map_nth ascii_entry_def OR_type_cases)

lemma isxdigit_iff:
  "isxdigit c \<longleftrightarrow> 48 \<le> char_code c \<and> char_code c < 58 \<or> 65 \<le> char_code c \<and> char_code c < 71
     \<or> 97 \<le> char_code c \<and> char_code c < 103"
  by (simp add: isxdigit_def is_char_of_type_def ascii_map_nth ascii_entry_def OR_type_cases)

lemma isdigit_isxdigit: "isdigit c \<Longrightarrow> isxdigit c"
  by (simp add: isdigit_iff isxdigit_iff)

lemma char_code_char_of [simp]: "n < 256 \<Longrightarrow> char_code (char_of n) = n"
  by (simp add: char_of_nat take_bit_eq_mod)

lemma char_code_tolower:
  "char_code (tolower c) = (if isupper c then char_code c + 32 else char_code c)"
  by (simp add: tolower_def CHAR_LOWER_TO_UPPER_OFFSET_def isupper_iff)

lemma char_code_toupper:
  "char_code (toupper c) = (if islower c then char_code c - 32 else char_code c)"
  by (auto simp add: toupper_def CHAR_LOWER_TO_UPPER_OFFSET_def islower_iff)

lemma char_code_inject: "char_code c = char_code d \<longleftrightarrow> c = d"
  by simp

text \<open>Two letters compare equal without case exactly when they are the same letter.\<close>

lemma tolower_idem [simp]: "tolower (tolower c) = tolower c"
  by (simp add: tolower_def isupper_iff CHAR_LOWER_TO_UPPER_OFFSET_def)

lemma tolower_toupper [simp]: "tolower (toupper c) = tolower c"
proof (cases "islower c")
  case True
  then have "char_code (tolower (toupper c)) = char_code (tolower c)"
    by (auto simp add: char_code_tolower char_code_toupper islower_iff isupper_iff)
  then show ?thesis by (simp only: char_code_inject)
qed (simp add: toupper_def)

end
