(* ===== verification/StringContainer.thy ===== *)
theory StringContainer
  imports CType "HOL-Library.Sublist"
begin

text \<open>
  \<^verbatim>\<open>kernel/common/string_container.c\<close> and \<^verbatim>\<open>kernel/include/common/string_container.h\<close>: the
  counted string \<^verbatim>\<open>struct string\<close>. A pointer into a character object is the list of the
  characters from the pointer to the end of that object (\<open>Ptr\<close>), or \<open>Null\<close>; advancing the
  pointer drops characters, and a read past the end is \<open>Wild\<close>. A string is well formed when
  its size stays within the object; \<open>bytes\<close> is the sequence it denotes. Each operation is
  proved to compute a list function of \<open>bytes\<close>.
\<close>

section \<open>Strings and the sequence they denote\<close>

datatype cptr = Null | Ptr "char list"

record cstring =
  str_text :: cptr
  str_size :: nat

abbreviation NUL :: char where
  "NUL \<equiv> char_of (0::nat)"

fun char_at_ptr :: "cptr \<Rightarrow> nat \<Rightarrow> char res" where
  "char_at_ptr Null i = Inl Wild"
| "char_at_ptr (Ptr m) i = (if i < length m then Inr (m ! i) else Inl Wild)"

definition char_at :: "cstring \<Rightarrow> nat \<Rightarrow> char res" where
  "char_at str i = char_at_ptr (str_text str) i"

fun ptr_add :: "cptr \<Rightarrow> nat \<Rightarrow> cptr" where
  "ptr_add Null n = Null"
| "ptr_add (Ptr m) n = Ptr (drop n m)"

fun ptr_chars :: "cptr \<Rightarrow> char list" where
  "ptr_chars Null = []"
| "ptr_chars (Ptr m) = m"

definition bytes :: "cstring \<Rightarrow> char list" where
  "bytes str = take (str_size str) (ptr_chars (str_text str))"

definition wf_str :: "cstring \<Rightarrow> bool" where
  "wf_str str \<longleftrightarrow> str_size str \<le> length (ptr_chars (str_text str))"

text \<open>\<^verbatim>\<open>STR\<close> of a literal (\<^verbatim>\<open>STR_CONSTEXPR\<close>): the characters of the literal and its terminator,
  the terminator not counted.\<close>

definition STR_CONSTEXPR :: "char list \<Rightarrow> cstring" where
  "STR_CONSTEXPR lit = \<lparr>str_text = Ptr (lit @ [NUL]), str_size = length lit\<rparr>"

text \<open>\<^verbatim>\<open>strlen\<close> of \<^verbatim>\<open>string.c\<close> walks to the first terminator.\<close>

fun strlen :: "char list \<Rightarrow> nat res" where
  "strlen [] = Inl Wild"
| "strlen (c # cs) = (if c = NUL then Inr 0 else bind_res (strlen cs) (\<lambda>n. Inr (Suc n)))"

fun STR_RUNTIME :: "cptr \<Rightarrow> cstring res" where
  "STR_RUNTIME Null = Inr \<lparr>str_text = Null, str_size = 0\<rparr>"
| "STR_RUNTIME (Ptr m) = bind_res (strlen m) (\<lambda>n. Inr \<lparr>str_text = Ptr m, str_size = n\<rparr>)"

section \<open>The operations\<close>

definition str_empty :: "cstring \<Rightarrow> bool" where
  "str_empty str \<longleftrightarrow> str_size str = 0"

definition str_offset_by :: "cstring \<Rightarrow> nat \<Rightarrow> cstring res" where
  "str_offset_by str value =
     BUG_ON (str_size str < value)
       (Inr \<lparr>str_text = ptr_add (str_text str) value, str_size = str_size str - value\<rparr>)"

definition str_extend_by :: "cstring \<Rightarrow> nat \<Rightarrow> cstring res" where
  "str_extend_by str value =
     BUG_ON (str_text str = Null) (Inr (str\<lparr>str_size := str_size str + value\<rparr>))"

definition str_clear :: cstring where
  "str_clear = \<lparr>str_text = Null, str_size = 0\<rparr>"

definition str_pop_one :: "cstring \<Rightarrow> (char \<times> cstring) option res" where
  "str_pop_one str =
     (if str_empty str then Inr None
      else bind_res (char_at str 0) (\<lambda>c.
           bind_res (str_offset_by str 1) (\<lambda>str'. Inr (Some (c, str')))))"

definition str_substring :: "cstring \<Rightarrow> nat \<Rightarrow> nat \<Rightarrow> cstring res" where
  "str_substring str start_idx end_idx =
     (if end_idx < start_idx then Inr \<lparr>str_text = Null, str_size = 0\<rparr>
      else BUG_ON (str_size str < end_idx)
        (Inr \<lparr>str_text = ptr_add (str_text str) start_idx, str_size = end_idx - start_idx\<rparr>))"

function str_equals_loop :: "cstring \<Rightarrow> cstring \<Rightarrow> nat \<Rightarrow> bool res" where
  "str_equals_loop lhs rhs i =
     (if i < str_size lhs
      then bind_res (char_at lhs i) (\<lambda>a. bind_res (char_at rhs i) (\<lambda>b.
             if a \<noteq> b then Inr False else str_equals_loop lhs rhs (Suc i)))
      else Inr True)"
  by pat_completeness auto
termination
  by (relation "measure (\<lambda>(lhs, rhs, i). str_size lhs - i)") auto

definition str_equals :: "cstring \<Rightarrow> cstring \<Rightarrow> bool res" where
  "str_equals lhs rhs =
     (if str_size lhs \<noteq> str_size rhs then Inr False else str_equals_loop lhs rhs 0)"

function str_equals_with_cb_loop ::
  "cstring \<Rightarrow> cstring \<Rightarrow> (char \<Rightarrow> char \<Rightarrow> bool) \<Rightarrow> nat \<Rightarrow> bool res" where
  "str_equals_with_cb_loop lhs rhs are_equal i =
     (if i < str_size lhs
      then bind_res (char_at lhs i) (\<lambda>a. bind_res (char_at rhs i) (\<lambda>b.
             if \<not> are_equal a b then Inr False
             else str_equals_with_cb_loop lhs rhs are_equal (Suc i)))
      else Inr True)"
  by pat_completeness auto
termination
  by (relation "measure (\<lambda>(lhs, rhs, are_equal, i). str_size lhs - i)") auto

definition str_equals_with_cb ::
  "cstring \<Rightarrow> cstring \<Rightarrow> (char \<Rightarrow> char \<Rightarrow> bool) \<Rightarrow> bool res" where
  "str_equals_with_cb lhs rhs are_equal =
     (if str_size lhs \<noteq> str_size rhs then Inr False
      else str_equals_with_cb_loop lhs rhs are_equal 0)"

definition chars_caseless_compare :: "char \<Rightarrow> char \<Rightarrow> bool" where
  "chars_caseless_compare lhs rhs \<longleftrightarrow> tolower lhs = tolower rhs"

definition str_equals_caseless :: "cstring \<Rightarrow> cstring \<Rightarrow> bool res" where
  "str_equals_caseless lhs rhs = str_equals_with_cb lhs rhs chars_caseless_compare"

function str_starts_with_loop :: "cstring \<Rightarrow> cstring \<Rightarrow> nat \<Rightarrow> bool res" where
  "str_starts_with_loop str pre i =
     (if i < str_size pre
      then bind_res (char_at str i) (\<lambda>a. bind_res (char_at pre i) (\<lambda>b.
             if a \<noteq> b then Inr False else str_starts_with_loop str pre (Suc i)))
      else Inr True)"
  by pat_completeness auto
termination
  by (relation "measure (\<lambda>(str, pre, i). str_size pre - i)") auto

definition str_starts_with :: "cstring \<Rightarrow> cstring \<Rightarrow> bool res" where
  "str_starts_with str pre =
     (if str_size str < str_size pre then Inr False
      else if str_size pre = 0 then Inr True
      else str_starts_with_loop str pre 0)"

text \<open>The searches return an \<^verbatim>\<open>ssize_t\<close>: an index, or \<open>-1\<close>.\<close>

function str_find_one_loop :: "cstring \<Rightarrow> char \<Rightarrow> nat \<Rightarrow> int res" where
  "str_find_one_loop str needle i =
     (if i < str_size str
      then bind_res (char_at str i) (\<lambda>a.
             if a \<noteq> needle then str_find_one_loop str needle (Suc i) else Inr (int i))
      else Inr (- 1))"
  by pat_completeness auto
termination
  by (relation "measure (\<lambda>(str, needle, i). str_size str - i)") auto

definition str_find_one :: "cstring \<Rightarrow> char \<Rightarrow> nat \<Rightarrow> int res" where
  "str_find_one str needle starting_at = str_find_one_loop str needle starting_at"

text \<open>\<^verbatim>\<open>str_find_with_cb\<close> calls the predicate on the rest of the string; the predicate may itself
  read the string, so its result is a \<open>res\<close>.\<close>

function str_find_with_cb_loop ::
  "cstring \<Rightarrow> (cstring \<Rightarrow> bool res) \<Rightarrow> nat \<Rightarrow> int res" where
  "str_find_with_cb_loop str is_match offset =
     (if str_empty str then Inr (- 1)
      else bind_res (is_match str) (\<lambda>b.
             if b then Inr (int offset)
             else bind_res (str_offset_by str 1) (\<lambda>str'.
                    str_find_with_cb_loop str' is_match (offset + 1))))"
  by pat_completeness auto
termination
  by (relation "measure (\<lambda>(str, is_match, offset). str_size str)")
    (auto simp: str_offset_by_def BUG_ON_def str_empty_def split: if_splits)

definition str_find_with_cb :: "cstring \<Rightarrow> (cstring \<Rightarrow> bool res) \<Rightarrow> nat \<Rightarrow> int res" where
  "str_find_with_cb str is_match offset =
     BUG_ON (str_size str < offset)
       (bind_res (str_offset_by str offset) (\<lambda>str'. str_find_with_cb_loop str' is_match offset))"

text \<open>\<^verbatim>\<open>str_find\<close>: the inner loop counts the matching characters \<open>k\<close> from position \<open>j\<close>.\<close>

function str_match_loop :: "cstring \<Rightarrow> cstring \<Rightarrow> nat \<Rightarrow> nat \<Rightarrow> nat res" where
  "str_match_loop str needle j k =
     (if k < str_size needle
      then bind_res (char_at str j) (\<lambda>a. bind_res (char_at needle k) (\<lambda>b.
             if a \<noteq> b then Inr k else str_match_loop str needle (Suc j) (Suc k)))
      else Inr k)"
  by pat_completeness auto
termination
  by (relation "measure (\<lambda>(str, needle, j, k). str_size needle - k)") auto

function str_find_loop :: "cstring \<Rightarrow> cstring \<Rightarrow> nat \<Rightarrow> int res" where
  "str_find_loop str needle i =
     (if i < str_size str - str_size needle + 1
      then bind_res (char_at str i) (\<lambda>a. bind_res (char_at needle 0) (\<lambda>b.
             if a \<noteq> b then str_find_loop str needle (Suc i)
             else bind_res (str_match_loop str needle i 0) (\<lambda>k.
                    if k = str_size needle then Inr (int i)
                    else str_find_loop str needle (Suc i))))
      else Inr (- 1))"
  by pat_completeness auto
termination
  by (relation "measure (\<lambda>(str, needle, i). str_size str - str_size needle + 1 - i)") auto

definition str_find :: "cstring \<Rightarrow> cstring \<Rightarrow> nat \<Rightarrow> int res" where
  "str_find str needle starting_at =
     BUG_ON (str_size str < starting_at)
       (if str_size str - starting_at < str_size needle then Inr (- 1)
        else if str_empty needle then Inr (int starting_at)
        else str_find_loop str needle starting_at)"

definition str_contains :: "cstring \<Rightarrow> cstring \<Rightarrow> bool res" where
  "str_contains str needle = bind_res (str_find str needle 0) (\<lambda>i. Inr (i \<ge> 0))"

definition str_terminated_copy :: "cstring \<Rightarrow> char list res" where
  "str_terminated_copy str =
     (if str_size str \<le> length (ptr_chars (str_text str)) then Inr (bytes str @ [NUL])
      else Inl Wild)"

declare str_equals_loop.simps [simp del] str_equals_with_cb_loop.simps [simp del]
  str_starts_with_loop.simps [simp del] str_find_one_loop.simps [simp del]
  str_find_with_cb_loop.simps [simp del] str_match_loop.simps [simp del]
  str_find_loop.simps [simp del]

section \<open>Well-formed strings: every operation as a list function\<close>

lemma length_bytes [simp]: "wf_str s \<Longrightarrow> length (bytes s) = str_size s"
  by (simp add: wf_str_def bytes_def)

lemma str_empty_iff: "wf_str s \<Longrightarrow> str_empty s \<longleftrightarrow> bytes s = []"
  by (metis length_0_conv length_bytes str_empty_def)

lemma char_at_eq [simp]: "wf_str s \<Longrightarrow> i < str_size s \<Longrightarrow> char_at s i = Inr (bytes s ! i)"
  by (cases "str_text s") (auto simp: char_at_def wf_str_def bytes_def)

lemma ptr_chars_add [simp]: "ptr_chars (ptr_add p n) = drop n (ptr_chars p)"
  by (cases p) auto

text \<open>The string with its first \<open>n\<close> characters dropped, which \<^verbatim>\<open>str_offset_by\<close> leaves.\<close>

definition str_advance :: "cstring \<Rightarrow> nat \<Rightarrow> cstring" where
  "str_advance s n = \<lparr>str_text = ptr_add (str_text s) n, str_size = str_size s - n\<rparr>"

lemma str_offset_by_eq [simp]: "n \<le> str_size s \<Longrightarrow> str_offset_by s n = Inr (str_advance s n)"
  by (simp add: str_offset_by_def str_advance_def)

lemma wf_str_advance [simp, wf_intros]: "wf_str s \<Longrightarrow> wf_str (str_advance s n)"
  by (simp add: wf_str_def str_advance_def)

lemma bytes_str_advance [simp]: "bytes (str_advance s n) = drop n (bytes s)"
  by (simp add: bytes_def str_advance_def drop_take)

lemma size_str_advance [simp]: "str_size (str_advance s n) = str_size s - n"
  by (simp add: str_advance_def)

lemma text_str_advance [simp]: "str_text (str_advance s n) = ptr_add (str_text s) n"
  by (simp add: str_advance_def)

lemma str_advance_0 [simp]: "str_advance s 0 = s"
  by (cases "str_text s") (simp_all add: str_advance_def)

lemma str_advance_advance [simp]: "str_advance (str_advance s m) n = str_advance s (m + n)"
  by (cases "str_text s") (simp_all add: str_advance_def add.commute)

lemma wf_STR_CONSTEXPR [simp, wf_intros]: "wf_str (STR_CONSTEXPR l)"
  by (simp add: STR_CONSTEXPR_def wf_str_def)

lemma bytes_STR_CONSTEXPR [simp]: "bytes (STR_CONSTEXPR l) = l"
  by (simp add: STR_CONSTEXPR_def bytes_def)

lemma size_STR_CONSTEXPR [simp]: "str_size (STR_CONSTEXPR l) = length l"
  by (simp add: STR_CONSTEXPR_def)

lemma strlen_eq:
  "NUL \<in> set cs \<Longrightarrow> strlen cs = Inr (length (takeWhile (\<lambda>c. c \<noteq> NUL) cs))"
  by (induction cs) auto

lemma STR_RUNTIME_eq:
  assumes "NUL \<in> set cs"
  obtains s where "STR_RUNTIME (Ptr cs) = Inr s" "wf_str s"
    "bytes s = takeWhile (\<lambda>c. c \<noteq> NUL) cs" "str_text s = Ptr cs"
proof -
  have "length (takeWhile (\<lambda>c. c \<noteq> NUL) cs) \<le> length cs"
    by (rule length_takeWhile_le)
  then show ?thesis
    using assms that
    by (simp add: strlen_eq wf_str_def bytes_def takeWhile_eq_take [symmetric])
qed

lemma str_pop_one_Nil: "wf_str s \<Longrightarrow> bytes s = [] \<Longrightarrow> str_pop_one s = Inr None"
  by (simp add: str_pop_one_def str_empty_iff)

lemma size_eq_length: "wf_str s \<Longrightarrow> str_size s = length (bytes s)"
  by simp

lemma str_pop_one_Cons:
  assumes "wf_str s" "bytes s = c # cs"
  shows "str_pop_one s = Inr (Some (c, str_advance s 1))"
proof -
  from assms have "str_size s = Suc (length cs)"
    by (simp add: size_eq_length del: length_bytes)
  with assms show ?thesis
    by (simp add: str_pop_one_def str_empty_def)
qed

text \<open>Comparison.\<close>

lemma str_equals_loop_eq:
  "wf_str l \<Longrightarrow> wf_str r \<Longrightarrow> str_size l = str_size r \<Longrightarrow>
     str_equals_loop l r i = Inr (drop i (bytes l) = drop i (bytes r))"
proof (induction l r i rule: str_equals_loop.induct)
  case (1 l r i)
  then show ?case
    by (subst str_equals_loop.simps) (simp add: drop_eq_Cons_nth)
qed

lemma str_equals_eq [simp]:
  "wf_str l \<Longrightarrow> wf_str r \<Longrightarrow> str_equals l r = Inr (bytes l = bytes r)"
  by (auto simp: str_equals_def str_equals_loop_eq dest: arg_cong [where f = length])

lemma str_equals_with_cb_loop_eq:
  "wf_str l \<Longrightarrow> wf_str r \<Longrightarrow> str_size l = str_size r \<Longrightarrow>
     str_equals_with_cb_loop l r f i = Inr (list_all2 f (drop i (bytes l)) (drop i (bytes r)))"
proof (induction l r f i rule: str_equals_with_cb_loop.induct)
  case (1 l r f i)
  then show ?case
    by (subst str_equals_with_cb_loop.simps) (simp add: drop_eq_Cons_nth)
qed

lemma str_equals_with_cb_eq [simp]:
  "wf_str l \<Longrightarrow> wf_str r \<Longrightarrow>
     str_equals_with_cb l r f = Inr (list_all2 f (bytes l) (bytes r))"
  by (auto simp: str_equals_with_cb_def str_equals_with_cb_loop_eq dest: list_all2_lengthD)

lemma list_all2_map_eq: "list_all2 (\<lambda>a b. f a = f b) xs ys \<longleftrightarrow> map f xs = map f ys"
  by (auto simp: list_all2_conv_all_nth list_eq_iff_nth_eq)

lemma chars_caseless_compare_fun: "chars_caseless_compare = (\<lambda>l r. tolower l = tolower r)"
  by (simp add: fun_eq_iff chars_caseless_compare_def)

lemma str_equals_caseless_eq [simp]:
  "wf_str l \<Longrightarrow> wf_str r \<Longrightarrow>
     str_equals_caseless l r = Inr (map tolower (bytes l) = map tolower (bytes r))"
  by (simp add: str_equals_caseless_def chars_caseless_compare_fun list_all2_map_eq)

lemma str_starts_with_loop_eq:
  "wf_str s \<Longrightarrow> wf_str p \<Longrightarrow> str_size p \<le> str_size s \<Longrightarrow>
     str_starts_with_loop s p i = Inr (prefix (drop i (bytes p)) (drop i (bytes s)))"
proof (induction s p i rule: str_starts_with_loop.induct)
  case (1 s p i)
  then show ?case
    by (subst str_starts_with_loop.simps) (simp add: drop_eq_Cons_nth)
qed

lemma str_starts_with_eq [simp]:
  "wf_str s \<Longrightarrow> wf_str p \<Longrightarrow> str_starts_with s p = Inr (prefix (bytes p) (bytes s))"
  by (auto simp: str_starts_with_def str_starts_with_loop_eq size_eq_length simp del: length_bytes
      dest: prefix_length_le)

text \<open>Searching one character.\<close>

lemma str_find_one_loop_eq:
  "wf_str s \<Longrightarrow> str_find_one_loop s c i =
     Inr (if c \<in> set (drop i (bytes s))
          then int (i + length (takeWhile (\<lambda>x. x \<noteq> c) (drop i (bytes s)))) else - 1)"
proof (induction s c i rule: str_find_one_loop.induct)
  case (1 s c i)
  then show ?case
    by (subst str_find_one_loop.simps) (auto simp add: drop_eq_Cons_nth)
qed

lemma str_find_one_eq:
  "wf_str s \<Longrightarrow> str_find_one s c 0 =
     Inr (if c \<in> set (bytes s) then int (length (takeWhile (\<lambda>x. x \<noteq> c) (bytes s))) else - 1)"
  by (simp add: str_find_one_def str_find_one_loop_eq)

text \<open>Searching a suffix. \<open>least_from P i r\<close>: \<open>r\<close> is the least position at or after \<open>i\<close> with
  \<open>P\<close>, or \<open>-1\<close> when there is none.\<close>

definition least_from :: "(nat \<Rightarrow> bool) \<Rightarrow> nat \<Rightarrow> int \<Rightarrow> bool" where
  "least_from P i r \<longleftrightarrow>
     (if \<exists>j\<ge>i. P j then \<exists>j\<ge>i. r = int j \<and> P j \<and> (\<forall>k. i \<le> k \<and> k < j \<longrightarrow> \<not> P k) else r = - 1)"

lemma least_from_hit: "P i \<Longrightarrow> least_from P i (int i)"
  by (auto simp: least_from_def)

lemma least_from_step: "\<not> P i \<Longrightarrow> least_from P (Suc i) r \<Longrightarrow> least_from P i r"
  unfolding least_from_def by (metis Suc_le_eq order_le_imp_less_or_eq less_imp_le_nat)

lemma least_from_none: "\<forall>j\<ge>i. \<not> P j \<Longrightarrow> least_from P i (- 1)"
  by (auto simp: least_from_def)

lemma str_find_with_cb_loop_eq:
  assumes cb: "\<And>t. wf_str t \<Longrightarrow> bytes t \<noteq> [] \<Longrightarrow> is_match t = Inr (Q (bytes t))"
    and "wf_str s" and "bytes s = drop offset xs"
  shows "\<exists>r. str_find_with_cb_loop s is_match offset = Inr r \<and>
           least_from (\<lambda>j. j < length xs \<and> Q (drop j xs)) offset r"
  using assms
proof (induction s is_match offset rule: str_find_with_cb_loop.induct)
  case (1 s is_match offset)
  show ?case
  proof (cases "offset < length xs")
    case False
    with "1.prems" show ?thesis
      by (subst str_find_with_cb_loop.simps) (simp add: str_empty_iff least_from_none)
  next
    case True
    with "1.prems" have ne: "\<not> str_empty s" "bytes s \<noteq> []" and sz: "1 \<le> str_size s"
      by (auto simp: str_empty_iff size_eq_length simp del: length_bytes)
    with "1.prems" have m: "is_match s = Inr (Q (drop offset xs))"
      by simp
    show ?thesis
    proof (cases "Q (drop offset xs)")
      case True
      with \<open>offset < length xs\<close> ne m show ?thesis
        by (subst str_find_with_cb_loop.simps) (simp add: least_from_hit)
    next
      case False
      obtain r where "str_find_with_cb_loop (str_advance s 1) is_match (offset + 1) = Inr r"
        and "least_from (\<lambda>j. j < length xs \<and> Q (drop j xs)) (offset + 1) r"
        using "1.IH" [OF ne(1) m _ str_offset_by_eq [OF sz]] "1.prems" False by auto
      with False ne m sz show ?thesis
        by (subst str_find_with_cb_loop.simps) (auto intro: least_from_step)
    qed
  qed
qed

lemma str_find_with_cb_eq:
  assumes "\<And>t. wf_str t \<Longrightarrow> bytes t \<noteq> [] \<Longrightarrow> is_match t = Inr (Q (bytes t))"
    and "wf_str s" and "offset \<le> str_size s"
  shows "\<exists>r. str_find_with_cb s is_match offset = Inr r \<and>
           least_from (\<lambda>j. j < length (bytes s) \<and> Q (drop j (bytes s))) offset r"
  using assms str_find_with_cb_loop_eq [of is_match Q "str_advance s offset" offset "bytes s"]
  by (simp add: str_find_with_cb_def)

text \<open>Searching a substring.\<close>

lemma str_match_loop_eq:
  assumes "wf_str s" "wf_str n" "str_size n - k \<le> str_size s - j" "k \<le> str_size n"
  shows "\<exists>k'. str_match_loop s n j k = Inr k' \<and>
           (k' = str_size n \<longleftrightarrow> prefix (drop k (bytes n)) (drop j (bytes s)))"
  using assms
proof (induction s n j k rule: str_match_loop.induct)
  case (1 s n j k)
  show ?case
  proof (cases "k < str_size n")
    case False
    with "1.prems" show ?thesis
      by (subst str_match_loop.simps) auto
  next
    case True
    with "1.prems" have "j < str_size s" by simp
    with True "1.prems" "1.IH" show ?thesis
      by (subst str_match_loop.simps) (auto simp: drop_eq_Cons_nth [of k] drop_eq_Cons_nth [of j])
  qed
qed

lemma str_find_loop_eq:
  assumes "wf_str s" "wf_str n" "bytes n \<noteq> []" "str_size n \<le> str_size s"
  shows "\<exists>r. str_find_loop s n i = Inr r \<and>
           least_from (\<lambda>j. j \<le> str_size s \<and> prefix (bytes n) (drop j (bytes s))) i r"
  using assms
proof (induction s n i rule: str_find_loop.induct)
  case (1 s n i)
  note IH1 = "1.IH"(1) and IH2 = "1.IH"(2) and prems = "1.prems"
  from prems have n0: "0 < str_size n"
    by (simp add: size_eq_length del: length_bytes)
  show ?case
  proof (cases "i < str_size s - str_size n + 1")
    case False
    have "\<not> prefix (bytes n) (drop j (bytes s))" if "i \<le> j" for j
      using False prems that n0 by (auto dest!: prefix_length_le)
    with False show ?thesis
      by (subst str_find_loop.simps) (simp add: least_from_none)
  next
    case True
    with prems n0 have i: "i < str_size s" "str_size n \<le> str_size s - i" by auto
    obtain k where k: "str_match_loop s n i 0 = Inr k"
      and kn: "k = str_size n \<longleftrightarrow> prefix (bytes n) (drop i (bytes s))"
      using str_match_loop_eq [of s n 0 i] prems i by auto
    have hd: "prefix (bytes n) (drop i (bytes s)) \<Longrightarrow> bytes s ! i = bytes n ! 0"
      using prems i n0 by (cases "bytes n") (auto simp: drop_eq_Cons_nth [of i])
    have rec: "\<exists>r. str_find_loop s n (Suc i) = Inr r \<and>
        least_from (\<lambda>j. j \<le> str_size s \<and> prefix (bytes n) (drop j (bytes s))) i r"
      if "\<not> prefix (bytes n) (drop i (bytes s))"
    proof -
      have "\<exists>r. str_find_loop s n (Suc i) = Inr r \<and>
          least_from (\<lambda>j. j \<le> str_size s \<and> prefix (bytes n) (drop j (bytes s))) (Suc i) r"
        using IH1 [OF True] IH2 [OF True] prems i n0 k kn that by (cases "bytes s ! i = bytes n ! 0") auto
      with that show ?thesis by (auto intro: least_from_step)
    qed
    show ?thesis
      using True prems i n0 k kn hd rec
      by (subst str_find_loop.simps) (auto intro: least_from_hit)
  qed
qed

lemma str_find_eq:
  assumes "wf_str s" "wf_str n" "i \<le> str_size s"
  shows "\<exists>r. str_find s n i = Inr r \<and>
           least_from (\<lambda>j. j \<le> str_size s \<and> prefix (bytes n) (drop j (bytes s))) i r"
proof (cases "str_size s - i < str_size n")
  case True
  have "\<not> prefix (bytes n) (drop j (bytes s))" if "i \<le> j" for j
    using True assms that by (auto dest!: prefix_length_le)
  with True assms show ?thesis
    by (simp add: str_find_def least_from_none)
next
  case False
  show ?thesis
  proof (cases "bytes n = []")
    case True
    with False assms show ?thesis
      by (auto simp: str_find_def str_empty_iff intro: least_from_hit)
  next
    case ne: False
    with False assms show ?thesis
      using str_find_loop_eq [of s n i] by (simp add: str_find_def str_empty_iff)
  qed
qed

end
