(* ===== verification/Conversions.thy ===== *)
theory Conversions
  imports StringContainer
begin

text \<open>
  \<^verbatim>\<open>kernel/common/conversions.c\<close>: parsing of integers with an optional base prefix, and of
  booleans. Integers are words of the C width (\<^verbatim>\<open>u64\<close> and \<^verbatim>\<open>i64\<close> are \<^typ>\<open>64 word\<close>, read with
  \<open>unat\<close> and \<open>sint\<close>), so the overflow checks are the ones the code performs on wrapped values.
  The result \<open>Inr (Inl e)\<close> is the returned error code, \<open>Inr (Inr v)\<close> is \<^verbatim>\<open>EOK\<close> with \<^verbatim>\<open>*res = v\<close>.
\<close>

section \<open>The base prefix\<close>

definition consume_base :: "cstring \<Rightarrow> (32 word \<times> cstring) res" where
  "consume_base str =
     (if str_empty str then Inr (0, str)
      else bind_res (str_starts_with str (STR_CONSTEXPR ''0x'')) (\<lambda>hex.
        if hex then bind_res (str_offset_by str 2) (\<lambda>str'. Inr (16, str'))
        else bind_res (str_starts_with str (STR_CONSTEXPR ''0b'')) (\<lambda>bin.
          if bin then bind_res (str_offset_by str 2) (\<lambda>str'. Inr (2, str'))
          else bind_res (str_starts_with str (STR_CONSTEXPR ''0'')) (\<lambda>oct.
            if oct then bind_res (str_offset_by str 1) (\<lambda>str'. Inr (8, str'))
            else bind_res (char_at str 0) (\<lambda>c.
              if isdigit c then Inr (10, str) else Inr (0, str))))))"

section \<open>Unsigned parsing\<close>

definition digit_value :: "char \<Rightarrow> 64 word" where
  "digit_value c =
     (if isdigit c then of_nat (char_code c - char_code (CHR ''0''))
      else of_nat (10 + char_code (tolower c) - char_code (CHR ''a'')))"

function do_str_to_u64_loop :: "cstring \<Rightarrow> 64 word \<Rightarrow> 32 word \<Rightarrow> (errno + 64 word) res" where
  "do_str_to_u64_loop str number base =
     bind_res (str_pop_one str) (\<lambda>popped. case popped of
       None \<Rightarrow> Inr (Inr number)
     | Some (c, str') \<Rightarrow>
         if \<not> isdigit c \<and> \<not> isxdigit c then Inr (Inl EINVAL)
         else let nxt = number * ucast base + digit_value c
              in if nxt div ucast base \<noteq> number then Inr (Inl ERANGE)
                 else do_str_to_u64_loop str' nxt base)"
  by pat_completeness auto
termination
  by (relation "measure (\<lambda>(str, number, base). str_size str)")
    (auto simp: str_pop_one_def str_empty_def str_offset_by_def bind_res_Inr_iff BUG_ON_def
      split: if_splits)

declare do_str_to_u64_loop.simps [simp del]

definition do_str_to_u64_unchecked :: "cstring \<Rightarrow> 32 word \<Rightarrow> (errno + 64 word) res" where
  "do_str_to_u64_unchecked str base = do_str_to_u64_loop str 0 base"

definition do_str_to_u64 :: "cstring \<Rightarrow> 32 word \<Rightarrow> (errno + 64 word) res" where
  "do_str_to_u64 str base =
     bind_res (consume_base str) (\<lambda>(cb, str').
       if base = 0 \<and> cb = 0 then Inr (Inl EINVAL)
       else do_str_to_u64_unchecked str' (if base \<noteq> 0 then base else cb))"

definition str_to_u64_with_base :: "cstring \<Rightarrow> 32 word \<Rightarrow> (errno + 64 word) res" where
  "str_to_u64_with_base str base =
     bind_res (str_starts_with str (STR_CONSTEXPR ''+'')) (\<lambda>plus.
     bind_res (if plus then str_offset_by str 1 else Inr str) (\<lambda>str'.
     bind_res (str_starts_with str' (STR_CONSTEXPR ''-'')) (\<lambda>minus.
       if minus then Inr (Inl EINVAL) else do_str_to_u64 str' base)))"

section \<open>Signed parsing\<close>

definition INT64_MAX :: "64 word" where
  "INT64_MAX = 0x7FFFFFFFFFFFFFFF"

definition str_to_i64_with_base :: "cstring \<Rightarrow> 32 word \<Rightarrow> (errno + 64 word) res" where
  "str_to_i64_with_base str base =
     bind_res (str_starts_with str (STR_CONSTEXPR ''-'')) (\<lambda>minus.
       if minus
       then bind_res (str_offset_by str 1) (\<lambda>str'.
            bind_res (do_str_to_u64 str' base) (\<lambda>ret. case ret of
              Inl e \<Rightarrow> Inr (Inl e)
            | Inr ures \<Rightarrow> if 0 < sint (- ures) then Inr (Inl ERANGE) else Inr (Inr (- ures))))
       else bind_res (str_starts_with str (STR_CONSTEXPR ''+'')) (\<lambda>plus.
            bind_res (if plus then str_offset_by str 1 else Inr str) (\<lambda>str'.
            bind_res (do_str_to_u64 str' base) (\<lambda>ret. case ret of
              Inl e \<Rightarrow> Inr (Inl e)
            | Inr ures \<Rightarrow> if INT64_MAX < ures then Inr (Inl ERANGE) else Inr (Inr ures)))))"

section \<open>Narrower widths\<close>

text \<open>\<^verbatim>\<open>(T)x != x\<close> after the conversion: sign extension for the signed types, zero extension for
  the unsigned ones.\<close>

definition narrow_signed :: "(errno + 64 word) res \<Rightarrow> (errno + 'a::len word) res" where
  "narrow_signed m = bind_res m (\<lambda>ret. case ret of
     Inl e \<Rightarrow> Inr (Inl e)
   | Inr ires \<Rightarrow> if (scast (ucast ires :: 'a word) :: 64 word) \<noteq> ires then Inr (Inl ERANGE)
                 else Inr (Inr (ucast ires)))"

definition narrow_unsigned :: "(errno + 64 word) res \<Rightarrow> (errno + 'a::len word) res" where
  "narrow_unsigned m = bind_res m (\<lambda>ret. case ret of
     Inl e \<Rightarrow> Inr (Inl e)
   | Inr ures \<Rightarrow> if (ucast (ucast ures :: 'a word) :: 64 word) \<noteq> ures then Inr (Inl ERANGE)
                 else Inr (Inr (ucast ures)))"

definition str_to_i32_with_base :: "cstring \<Rightarrow> 32 word \<Rightarrow> (errno + 32 word) res" where
  "str_to_i32_with_base str base = narrow_signed (str_to_i64_with_base str base)"

definition str_to_u32_with_base :: "cstring \<Rightarrow> 32 word \<Rightarrow> (errno + 32 word) res" where
  "str_to_u32_with_base str base = narrow_unsigned (str_to_u64_with_base str base)"

definition str_to_i16_with_base :: "cstring \<Rightarrow> 32 word \<Rightarrow> (errno + 16 word) res" where
  "str_to_i16_with_base str base = narrow_signed (str_to_i64_with_base str base)"

definition str_to_u16_with_base :: "cstring \<Rightarrow> 32 word \<Rightarrow> (errno + 16 word) res" where
  "str_to_u16_with_base str base = narrow_unsigned (str_to_u64_with_base str base)"

definition str_to_i8_with_base :: "cstring \<Rightarrow> 32 word \<Rightarrow> (errno + 8 word) res" where
  "str_to_i8_with_base str base = narrow_signed (str_to_i64_with_base str base)"

definition str_to_u8_with_base :: "cstring \<Rightarrow> 32 word \<Rightarrow> (errno + 8 word) res" where
  "str_to_u8_with_base str base = narrow_unsigned (str_to_u64_with_base str base)"

section \<open>Booleans\<close>

definition bool_options :: "char list list" where
  "bool_options = [''y'', ''t'', ''on'', ''1'', ''n'', ''f'', ''off'', ''0'']"

definition NUM_TRUE_OPTIONS :: nat where
  "NUM_TRUE_OPTIONS = 4"

fun str_to_bool_loop :: "cstring \<Rightarrow> nat \<Rightarrow> char list list \<Rightarrow> (errno + bool) res" where
  "str_to_bool_loop str i [] = Inr (Inl EINVAL)"
| "str_to_bool_loop str i (opt # opts) =
     bind_res (str_equals_caseless str (STR_CONSTEXPR opt)) (\<lambda>eq.
       if \<not> eq then str_to_bool_loop str (Suc i) opts
       else Inr (Inr (i < NUM_TRUE_OPTIONS)))"

definition str_to_bool :: "cstring \<Rightarrow> (errno + bool) res" where
  "str_to_bool str = str_to_bool_loop str 0 bool_options"

section \<open>The overflow check of the digit loop\<close>

text \<open>The value of a digit character, and whether it is a digit of the base, as naturals.\<close>

definition digit_nat :: "char \<Rightarrow> nat" where
  "digit_nat c = (if isdigit c then char_code c - 48 else 10 + char_code (tolower c) - 97)"

definition valid_digit :: "nat \<Rightarrow> char \<Rightarrow> bool" where
  "valid_digit b c \<longleftrightarrow> isxdigit c \<and> digit_nat c < b"

lemma digit_nat_less: "isxdigit c \<Longrightarrow> digit_nat c < 16"
  by (auto simp: digit_nat_def isxdigit_iff isdigit_iff char_code_tolower isupper_iff)

lemma unat_digit_value: "isxdigit c \<Longrightarrow> unat (digit_value c) = digit_nat c"
  using digit_nat_less [of c]
  by (auto simp: digit_value_def digit_nat_def unsigned_of_nat take_bit_eq_mod)

text \<open>
  The code computes \<open>next = number * base + digit\<close> modulo $2^{64}$ and compares \<open>next / base\<close>
  with \<open>number\<close>. That one comparison rejects exactly the wrapped products and the digits that
  are not below the base.
\<close>

lemma overflow_check_nat:
  fixes n b d M :: nat
  assumes "0 < b" "d < M" "n < M"
  shows "(n * b + d) mod M div b = n \<longleftrightarrow> d < b \<and> n * b + d < M"
proof (cases "n * b + d < M")
  case True
  have "(n * b + d) div b = n + d div b"
    using \<open>0 < b\<close> by simp
  with True \<open>0 < b\<close> show ?thesis
    by (simp add: div_eq_0_iff)
next
  case False
  then have "(n * b + d) mod M = (n * b + d - M) mod M"
    by (simp add: le_mod_geq)
  also have "\<dots> \<le> n * b + d - M"
    by simp
  also have "\<dots> < n * b"
    using False \<open>d < M\<close> by linarith
  finally have "(n * b + d) mod M div b < n"
    using \<open>0 < b\<close> by (simp add: less_mult_imp_div_less)
  with False show ?thesis by simp
qed

lemma overflow_check:
  assumes "isxdigit c" "base \<noteq> 0"
  shows "(number * ucast base + digit_value c) div ucast (base::32 word) = (number::64 word)
     \<longleftrightarrow> digit_nat c < unat base \<and> unat number * unat base + digit_nat c < 2 ^ 64"
proof -
  let ?w = "number * ucast base + digit_value c"
  have base: "unat (ucast base :: 64 word) = unat base" "0 < unat base"
    using assms(2) unsigned_less [of base, where ?'a = nat]
    by (simp_all add: unsigned_ucast_eq take_bit_eq_mod unat_gt_0)
  have w: "unat ?w = (unat number * unat base + digit_nat c) mod 2 ^ 64"
    using assms(1) by (simp add: unat_word_ariths base unat_digit_value mod_simps)
  have "?w div ucast base = number \<longleftrightarrow> unat (?w div ucast base) = unat number"
    by (simp add: word_unat_eq_iff)
  also have "unat (?w div ucast base) = (unat number * unat base + digit_nat c) mod 2 ^ 64 div unat base"
    by (simp only: unat_div_distrib w base)
  finally show ?thesis
    using overflow_check_nat [of "unat base" "digit_nat c" "2 ^ 64" "unat number"] base
      digit_nat_less [OF assms(1)] by simp
qed

section \<open>Parsing as a function of the characters\<close>

text \<open>
  The reference: digits are read left to right into a natural number; the first character that
  is no digit at all is \<open>EINVAL\<close>, the first that is not below the base or takes the value past
  64 bits is \<open>ERANGE\<close>.
\<close>

fun read_digits :: "nat \<Rightarrow> nat \<Rightarrow> char list \<Rightarrow> errno + nat" where
  "read_digits b n [] = Inr n"
| "read_digits b n (c # cs) =
     (if \<not> isxdigit c then Inl EINVAL
      else if \<not> valid_digit b c \<or> 2 ^ 64 \<le> n * b + digit_nat c then Inl ERANGE
      else read_digits b (n * b + digit_nat c) cs)"

definition split_base :: "char list \<Rightarrow> nat \<times> char list" where
  "split_base cs =
     (if prefix ''0x'' cs then (16, drop 2 cs)
      else if prefix ''0b'' cs then (2, drop 2 cs)
      else if prefix ''0'' cs then (8, drop 1 cs)
      else if cs \<noteq> [] \<and> isdigit (hd cs) then (10, cs)
      else (0, cs))"

definition read_number :: "nat \<Rightarrow> char list \<Rightarrow> errno + nat" where
  "read_number base cs =
     (let (cb, rest) = split_base cs; b = (if base \<noteq> 0 then base else cb)
      in if b = 0 then Inl EINVAL else read_digits b 0 rest)"

definition read_unsigned :: "nat \<Rightarrow> char list \<Rightarrow> errno + nat" where
  "read_unsigned base cs =
     (let cs' = (if prefix ''+'' cs then drop 1 cs else cs)
      in if prefix ''-'' cs' then Inl EINVAL else read_number base cs')"

text \<open>The value of a sequence of digits, and when it is the result.\<close>

definition digits_value :: "nat \<Rightarrow> nat \<Rightarrow> char list \<Rightarrow> nat" where
  "digits_value b n cs = foldl (\<lambda>m c. m * b + digit_nat c) n cs"

lemma digits_value_simps [simp]:
  "digits_value b n [] = n"
  "digits_value b n (c # cs) = digits_value b (n * b + digit_nat c) cs"
  by (simp_all add: digits_value_def)

lemma digits_value_ge: "0 < b \<Longrightarrow> n \<le> digits_value b n cs"
proof (induction cs arbitrary: n)
  case (Cons c cs)
  have "n \<le> n * b + digit_nat c"
    using \<open>0 < b\<close> by (cases b) auto
  also have "\<dots> \<le> digits_value b (n * b + digit_nat c) cs"
    using Cons by simp
  finally show ?case by simp
qed simp

lemma read_digits_Inr_iff:
  "0 < b \<Longrightarrow> n < 2 ^ 64 \<Longrightarrow> read_digits b n cs = Inr v \<longleftrightarrow>
     (\<forall>c\<in>set cs. valid_digit b c) \<and> digits_value b n cs < 2 ^ 64 \<and> v = digits_value b n cs"
proof (induction cs arbitrary: n)
  case Nil
  then show ?case by auto
next
  case (Cons c cs)
  have "n * b + digit_nat c \<le> digits_value b (n * b + digit_nat c) cs"
    using Cons.prems(1) by (rule digits_value_ge)
  then show ?case
    using Cons.IH [of "n * b + digit_nat c"] Cons.prems by (auto simp: valid_digit_def)
qed

lemma read_digits_bound: "0 < b \<Longrightarrow> read_digits b 0 cs = Inr v \<Longrightarrow> v < 2 ^ 64"
  by (simp add: read_digits_Inr_iff)

section \<open>The code computes the reference\<close>

definition to_u64 :: "errno + nat \<Rightarrow> errno + 64 word" where
  "to_u64 = map_sum id of_nat"

lemma to_u64_simps [simp]:
  "to_u64 (Inl e) = Inl e"
  "to_u64 (Inr n) = Inr (of_nat n)"
  by (simp_all add: to_u64_def)

lemma do_str_to_u64_loop_eq:
  "wf_str str \<Longrightarrow> base \<noteq> 0 \<Longrightarrow> do_str_to_u64_loop str number base =
     Inr (to_u64 (read_digits (unat base) (unat number) (bytes str)))"
proof (induction str number base rule: do_str_to_u64_loop.induct)
  case (1 str number base)
  show ?case
  proof (cases "bytes str")
    case Nil
    with "1.prems" show ?thesis
      by (subst do_str_to_u64_loop.simps) (simp add: str_pop_one_Nil)
  next
    case (Cons c cs)
    note pop = str_pop_one_Cons [OF "1.prems"(1) Cons]
    let ?next = "number * ucast base + digit_value c"
    have step: "do_str_to_u64_loop (str_advance str 1) ?next base =
        Inr (to_u64 (read_digits (unat base) (unat ?next) cs))"
      if "isxdigit c" "?next div ucast base = number"
      using "1.IH" [OF pop refl refl _ refl] "1.prems" that Cons by simp
    have nxt: "unat ?next = unat number * unat base + digit_nat c"
      if "isxdigit c" "unat number * unat base + digit_nat c < 2 ^ 64"
    proof -
      have "unat (ucast base :: 64 word) = unat base"
        using unsigned_less [of base, where ?'a = nat]
        by (simp add: unsigned_ucast_eq take_bit_eq_mod)
      with that show ?thesis
        by (simp add: unat_word_ariths unat_digit_value mod_simps)
    qed
    show ?thesis
    proof (cases "isxdigit c")
      case False
      with pop Cons show ?thesis
        by (subst do_str_to_u64_loop.simps) (auto dest: isdigit_isxdigit)
    next
      case True
      with pop Cons step nxt "1.prems" show ?thesis
        by (subst do_str_to_u64_loop.simps)
          (auto simp: overflow_check valid_digit_def Let_def simp del: One_nat_def)
    qed
  qed
qed

lemma consume_base_eq:
  assumes "wf_str str"
  shows "\<exists>str'. consume_base str = Inr (of_nat (fst (split_base (bytes str))), str') \<and>
           wf_str str' \<and> bytes str' = snd (split_base (bytes str))"
proof -
  have len: "length p \<le> str_size str" if "prefix p (bytes str)" for p
    using prefix_length_le [OF that] assms by simp
  show ?thesis
    using assms len [of "''0x''"] len [of "''0b''"] len [of "''0''"]
    by (auto simp: consume_base_def split_base_def str_empty_iff hd_conv_nth size_eq_length
        simp del: length_bytes)
qed

lemma split_base_fst: "fst (split_base cs) \<in> {0, 2, 8, 10, 16}"
  by (simp add: split_base_def)

lemma do_str_to_u64_eq:
  assumes "wf_str str"
  shows "do_str_to_u64 str base = Inr (to_u64 (read_number (unat base) (bytes str)))"
proof -
  obtain str' where c: "consume_base str = Inr (of_nat (fst (split_base (bytes str))), str')"
    and s': "wf_str str'" "bytes str' = snd (split_base (bytes str))"
    using consume_base_eq [OF assms] by blast
  let ?cb = "fst (split_base (bytes str))"
  have "?cb < 2 ^ 32"
    using split_base_fst [of "bytes str"] by auto
  then have cb: "unat (of_nat ?cb :: 32 word) = ?cb" "(of_nat ?cb :: 32 word) = 0 \<longleftrightarrow> ?cb = 0"
    by (simp_all add: unsigned_of_nat take_bit_eq_mod word_unat_eq_iff)
  have "unat base = 0 \<longleftrightarrow> base = 0"
    by (simp add: unat_eq_zero)
  with c s' cb show ?thesis
    by (auto simp: do_str_to_u64_def read_number_def do_str_to_u64_unchecked_def
        do_str_to_u64_loop_eq case_prod_beta Let_def)
qed

lemma str_to_u64_with_base_eq:
  assumes "wf_str str"
  shows "str_to_u64_with_base str base = Inr (to_u64 (read_unsigned (unat base) (bytes str)))"
proof (cases "prefix ''+'' (bytes str)")
  case True
  then have "1 \<le> str_size str"
    using prefix_length_le [OF True] assms by simp
  with True assms show ?thesis
    by (simp add: str_to_u64_with_base_def read_unsigned_def do_str_to_u64_eq)
next
  case False
  with assms show ?thesis
    by (simp add: str_to_u64_with_base_def read_unsigned_def do_str_to_u64_eq)
qed

lemma read_number_bound: "read_number b cs = Inr n \<Longrightarrow> n < 2 ^ 64"
  by (auto simp: read_number_def Let_def case_prod_beta dest: read_digits_bound split: if_splits)

lemma read_unsigned_bound: "read_unsigned b cs = Inr n \<Longrightarrow> n < 2 ^ 64"
  by (auto simp: read_unsigned_def Let_def dest: read_number_bound split: if_splits)

text \<open>Signed numbers: a minus sign negates the magnitude, which may then be as large as $2^{63}$.\<close>

definition read_signed :: "nat \<Rightarrow> char list \<Rightarrow> errno + int" where
  "read_signed base cs =
     (if prefix ''-'' cs
      then (case read_number base (drop 1 cs) of Inl e \<Rightarrow> Inl e
            | Inr n \<Rightarrow> if n \<le> 2 ^ 63 then Inr (- int n) else Inl ERANGE)
      else (case read_number base (if prefix ''+'' cs then drop 1 cs else cs) of Inl e \<Rightarrow> Inl e
            | Inr n \<Rightarrow> if n < 2 ^ 63 then Inr (int n) else Inl ERANGE))"

definition to_i :: "errno + int \<Rightarrow> errno + 'a::len word" where
  "to_i = map_sum id word_of_int"

lemma to_i_simps [simp]:
  "to_i (Inl e) = Inl e"
  "to_i (Inr v) = Inr (word_of_int v)"
  by (simp_all add: to_i_def)

lemma read_signed_bounds: "read_signed b cs = Inr v \<Longrightarrow> - (2 ^ 63) \<le> v \<and> v < 2 ^ 63"
  by (auto simp: read_signed_def split: if_splits sum.splits)

lemma do_str_to_u64_advance:
  "wf_str str \<Longrightarrow>
     do_str_to_u64 (str_advance str 1) base = Inr (to_u64 (read_number (unat base) (drop 1 (bytes str))))"
  by (simp add: do_str_to_u64_eq)

lemma str_to_i64_with_base_eq:
  assumes "wf_str str"
  shows "str_to_i64_with_base str base = Inr (to_i (read_signed (unat base) (bytes str)))"
proof -
  have size: "1 \<le> str_size str" if "prefix [c] (bytes str)" for c
    using prefix_length_le [OF that] assms by simp
  have unat_n: "unat (of_nat n :: 64 word) = n" if "n < 2 ^ 64" for n
    using that by (simp add: unsigned_of_nat take_bit_eq_mod)
  have neg: "0 < sint (- (of_nat n :: 64 word)) \<longleftrightarrow> 2 ^ 63 < n" if "n < 2 ^ 64" for n
    using unat_n [OF that] by (simp add: sint_uminus_pos)
  have pos: "INT64_MAX < of_nat n \<longleftrightarrow> 2 ^ 63 \<le> n" if "n < 2 ^ 64" for n
    using unat_n [OF that] by (simp add: INT64_MAX_def word_less_nat_alt) linarith
  show ?thesis
  proof (cases "prefix ''-'' (bytes str)")
    case True
    with assms size [of "CHR ''-''"] show ?thesis
      by (auto simp: str_to_i64_with_base_def read_signed_def do_str_to_u64_eq neg
          dest!: read_number_bound split: sum.split)
  next
    case False
    let ?cs = "if prefix ''+'' (bytes str) then drop 1 (bytes str) else bytes str"
    have "str_to_i64_with_base str base = bind_res (Inr (to_u64 (read_number (unat base) ?cs)))
       (\<lambda>ret. case ret of Inl e \<Rightarrow> Inr (Inl e)
        | Inr ures \<Rightarrow> if INT64_MAX < ures then Inr (Inl ERANGE) else Inr (Inr ures))"
      using assms size [of "CHR ''+''"] False
      by (simp add: str_to_i64_with_base_def do_str_to_u64_eq)
    with False show ?thesis
      by (auto simp: read_signed_def pos dest!: read_number_bound split: sum.split simp del: drop_Suc)
  qed
qed

section \<open>Properties\<close>

lemma to_u64_eq_Inr: "to_u64 r = Inr v \<longleftrightarrow> (\<exists>n. r = Inr n \<and> v = of_nat n)"
  by (cases r) auto

text \<open>
  The digit loop, whose only overflow test is \<open>next / base != number\<close> on a wrapped product,
  returns a value exactly when every character is a digit below the base and the number they
  denote fits in 64 bits, and then it is that number.
\<close>

theorem do_str_to_u64_unchecked_exact:
  assumes "wf_str str" "base \<noteq> 0"
  shows "do_str_to_u64_unchecked str base = Inr (Inr v) \<longleftrightarrow>
    (\<forall>c\<in>set (bytes str). valid_digit (unat base) c) \<and>
    digits_value (unat base) 0 (bytes str) < 2 ^ 64 \<and>
    v = of_nat (digits_value (unat base) 0 (bytes str))"
proof -
  have "0 < unat base"
    using assms(2) by (simp add: unat_gt_0)
  with assms show ?thesis
    by (simp add: do_str_to_u64_unchecked_def do_str_to_u64_loop_eq to_u64_eq_Inr
        read_digits_Inr_iff)
qed

theorem do_str_to_u64_unchecked_exact_witness:
  "do_str_to_u64_unchecked (STR_CONSTEXPR ''7b'') 16 = Inr (Inr 123)"
proof -
  have wf: "wf_str (STR_CONSTEXPR ''7b'')" and b: "(16::32 word) \<noteq> 0"
    by simp_all
  show ?thesis
    by (rule do_str_to_u64_unchecked_exact [OF wf b, THEN iffD2])
      (simp add: valid_digit_def isxdigit_iff digit_nat_def isdigit_iff char_code_tolower
        isupper_iff)
qed

text \<open>
  \<^verbatim>\<open>str_to_i64_with_base\<close> returns the signed number its text denotes when that number is
  in $[-2^{63}, 2^{63})$, \<^verbatim>\<open>ERANGE\<close> when it is outside, and the error of the digits otherwise; it
  never faults. The minimum, whose magnitude has no positive counterpart, is accepted.
\<close>

theorem str_to_i64_with_base_exact:
  assumes "wf_str str"
  shows "\<exists>r. str_to_i64_with_base str base = Inr r \<and>
    map_sum id sint r = read_signed (unat base) (bytes str)"
proof -
  have "map_sum id sint (to_i r :: errno + 64 word) = r"
    if "\<And>v. r = Inr v \<Longrightarrow> - (2 ^ 63) \<le> v \<and> v < 2 ^ 63" for r
    using that by (cases r) (auto simp: sint_sbintrunc' signed_take_bit_int_eq_self)
  from this [of "read_signed (unat base) (bytes str)"] read_signed_bounds assms show ?thesis
    by (simp add: str_to_i64_with_base_eq)
qed

theorem str_to_i64_with_base_exact_witness:
  "\<exists>r. str_to_i64_with_base (STR_CONSTEXPR ''-9'') 10 = Inr r \<and> map_sum id sint r = Inr (- 9)"
  using str_to_i64_with_base_exact [of "STR_CONSTEXPR ''-9''" 10]
  by (simp add: read_signed_def read_number_def split_base_def valid_digit_def isxdigit_iff
      digit_nat_def isdigit_iff char_code_tolower isupper_iff)

text \<open>
  The narrower widths: \<open>fits\<close> turns a value outside the type into \<^verbatim>\<open>ERANGE\<close>.
\<close>
definition fits :: "('v \<Rightarrow> bool) \<Rightarrow> errno + 'v \<Rightarrow> errno + 'v" where
  "fits P r = (case r of Inl e \<Rightarrow> Inl e | Inr v \<Rightarrow> if P v then Inr v else Inl ERANGE)"

lemma narrow_signed_eq:
  assumes "LENGTH('a) \<le> 64" "\<And>v. r = Inr v \<Longrightarrow> - (2 ^ 63) \<le> v \<and> v < 2 ^ 63"
  shows "narrow_signed (Inr (to_i r)) =
    Inr (to_i (fits (\<lambda>v. - (2 ^ (LENGTH('a) - 1)) \<le> v \<and> v < 2 ^ (LENGTH('a) - 1)) r)
         :: errno + 'a::len word)"
proof (cases r)
  case (Inr v)
  with assms(2) have "- (2 ^ 63) \<le> v" "v < 2 ^ 63"
    by auto
  from scast_ucast_of_int [OF assms(1) this] assms(1) Inr show ?thesis
    by (auto simp: narrow_signed_def fits_def ucast_down_wi is_down)
qed (simp add: narrow_signed_def fits_def)

lemma narrow_unsigned_eq:
  assumes "LENGTH('a) \<le> 64" "\<And>n. r = Inr n \<Longrightarrow> n < 2 ^ 64"
  shows "narrow_unsigned (Inr (to_u64 r)) =
    Inr (map_sum id of_nat (fits (\<lambda>n. n < 2 ^ LENGTH('a)) r) :: errno + 'a::len word)"
proof (cases r)
  case (Inr n)
  with assms(2) have "n < 2 ^ 64" by auto
  moreover have "(ucast (of_nat n :: 64 word) :: 'a word) = of_nat n"
    using ucast_down_wi [of "int n", where ?'a = 64 and ?'b = 'a] assms(1) by (simp add: is_down)
  ultimately show ?thesis
    using ucast_ucast_of_nat [OF assms(1), of n] Inr by (simp add: narrow_unsigned_def fits_def)
qed (simp add: narrow_unsigned_def fits_def)

lemma narrow_parser_eqs:
  assumes "wf_str str"
  shows "str_to_i32_with_base str b =
           Inr (to_i (fits (\<lambda>v. - (2 ^ 31) \<le> v \<and> v < 2 ^ 31) (read_signed (unat b) (bytes str))))"
        "str_to_i16_with_base str b =
           Inr (to_i (fits (\<lambda>v. - (2 ^ 15) \<le> v \<and> v < 2 ^ 15) (read_signed (unat b) (bytes str))))"
        "str_to_i8_with_base str b =
           Inr (to_i (fits (\<lambda>v. - (2 ^ 7) \<le> v \<and> v < 2 ^ 7) (read_signed (unat b) (bytes str))))"
        "str_to_u32_with_base str b =
           Inr (map_sum id of_nat (fits (\<lambda>n. n < 2 ^ 32) (read_unsigned (unat b) (bytes str))))"
        "str_to_u16_with_base str b =
           Inr (map_sum id of_nat (fits (\<lambda>n. n < 2 ^ 16) (read_unsigned (unat b) (bytes str))))"
        "str_to_u8_with_base str b =
           Inr (map_sum id of_nat (fits (\<lambda>n. n < 2 ^ 8) (read_unsigned (unat b) (bytes str))))"
  using assms
  by (simp_all add: str_to_i32_with_base_def str_to_i16_with_base_def str_to_i8_with_base_def
      str_to_u32_with_base_def str_to_u16_with_base_def str_to_u8_with_base_def
      str_to_i64_with_base_eq str_to_u64_with_base_eq
      narrow_signed_eq [OF _ read_signed_bounds] narrow_unsigned_eq [OF _ read_unsigned_bound])

text \<open>
  C39: The parsers of the narrower widths accept exactly the values their type represents: the
  result is the 64-bit one when it fits and \<^verbatim>\<open>ERANGE\<close> when it does not.
\<close>

theorem narrow_parsers_exact:
  assumes "wf_str str"
  shows "str_to_i32_with_base str b =
           Inr (to_i (fits (\<lambda>v. - (2 ^ 31) \<le> v \<and> v < 2 ^ 31) (read_signed (unat b) (bytes str)))) \<and>
         str_to_i16_with_base str b =
           Inr (to_i (fits (\<lambda>v. - (2 ^ 15) \<le> v \<and> v < 2 ^ 15) (read_signed (unat b) (bytes str)))) \<and>
         str_to_i8_with_base str b =
           Inr (to_i (fits (\<lambda>v. - (2 ^ 7) \<le> v \<and> v < 2 ^ 7) (read_signed (unat b) (bytes str)))) \<and>
         str_to_u32_with_base str b =
           Inr (map_sum id of_nat (fits (\<lambda>n. n < 2 ^ 32) (read_unsigned (unat b) (bytes str)))) \<and>
         str_to_u16_with_base str b =
           Inr (map_sum id of_nat (fits (\<lambda>n. n < 2 ^ 16) (read_unsigned (unat b) (bytes str)))) \<and>
         str_to_u8_with_base str b =
           Inr (map_sum id of_nat (fits (\<lambda>n. n < 2 ^ 8) (read_unsigned (unat b) (bytes str))))"
  by (simp add: narrow_parser_eqs [OF assms])

theorem narrow_parsers_exact_witness:
  "str_to_i8_with_base (STR_CONSTEXPR ''-5'') 10 = Inr (Inr (- 5)) \<and>
   str_to_u8_with_base (STR_CONSTEXPR ''300'') 10 = Inr (Inl ERANGE)"
  using narrow_parsers_exact [of "STR_CONSTEXPR ''-5''" 10]
    narrow_parsers_exact [of "STR_CONSTEXPR ''300''" 10]
  by (simp add: fits_def read_signed_def read_unsigned_def read_number_def split_base_def
      valid_digit_def isxdigit_iff digit_nat_def isdigit_iff)

lemma str_to_bool_eq:
  assumes "wf_str str"
  shows "str_to_bool str = Inr
    (if map tolower (bytes str) \<in> {''y'', ''t'', ''on'', ''1''} then Inr True
     else if map tolower (bytes str) \<in> {''n'', ''f'', ''off'', ''0''} then Inr False
     else Inl EINVAL)"
  using assms
  by (simp add: str_to_bool_def bool_options_def NUM_TRUE_OPTIONS_def tolower_def isupper_iff
      CHAR_LOWER_TO_UPPER_OFFSET_def)

text \<open>
  \<^verbatim>\<open>str_to_bool\<close> accepts exactly the words y, t, on, 1 (true) and n, f, off, 0 (false),
  in any case, and returns \<^verbatim>\<open>EINVAL\<close> for every other text.
\<close>

theorem str_to_bool_exact:
  assumes "wf_str str"
  shows "str_to_bool str = Inr
    (if map tolower (bytes str) \<in> {''y'', ''t'', ''on'', ''1''} then Inr True
     else if map tolower (bytes str) \<in> {''n'', ''f'', ''off'', ''0''} then Inr False
     else Inl EINVAL)"
  by (rule str_to_bool_eq [OF assms])

theorem str_to_bool_exact_witness: "str_to_bool (STR_CONSTEXPR ''oFF'') = Inr (Inr False)"
  using str_to_bool_exact [of "STR_CONSTEXPR ''oFF''"]
  by (simp add: tolower_def isupper_iff CHAR_LOWER_TO_UPPER_OFFSET_def char_of_def bit_Suc_0_iff)

text \<open>
  A prefix is stripped even when the caller fixes the base, so in base 16 the hexadecimal
  number \<open>0b1\<close> (177) is read as 1: its leading digits are taken for the binary prefix.
\<close>

lemma explicit_base_prefix_stripped:
  "str_to_u64_with_base (STR_CONSTEXPR ''0b1'') 16 = Inr (Inr 1) \<and>
   list_all (valid_digit 16) ''0b1'' \<and> digits_value 16 0 ''0b1'' = 177"
  by (simp add: str_to_u64_with_base_eq read_unsigned_def read_number_def split_base_def
      valid_digit_def isxdigit_iff digit_nat_def isdigit_iff char_code_tolower isupper_iff)

end
