(* ===== verification/BootAlloc.thy ===== *)
theory BootAlloc
  imports Prelude
begin

text \<open>
  \<^verbatim>\<open>kernel/memory/boot_alloc.c\<close>: the boot-time physical memory allocator, a sorted array of
  ranges, each free or allocated. This theory is the model, one definition per C function, over
  the four file-scope variables. \<^verbatim>\<open>phys_addr_t\<close> is a \<^typ>\<open>64 word\<close> and its arithmetic wraps, as in C;
  array indices and entry counts are naturals (the array never holds $2^{63}$ entries);
  \<^verbatim>\<open>ssize_t\<close> results are integers. \<open>BootAllocRanges\<close> and the theories after it prove what it does.
\<close>

section \<open>Ranges\<close>

record memory_range =
  physical_address :: "64 word"
  size_and_type :: "64 word"

definition RANGE_TYPE_MASK :: "64 word" where "RANGE_TYPE_MASK = 1"
definition MEMORY_FREE :: "64 word" where "MEMORY_FREE = 0"
definition MEMORY_ALLOCATED :: "64 word" where "MEMORY_ALLOCATED = 1"

definition MR_ENCODE :: "64 word \<Rightarrow> 64 word \<Rightarrow> 64 word" where
  "MR_ENCODE bytes type = bytes OR type"

definition MR_TYPE :: "memory_range \<Rightarrow> 64 word" where
  "MR_TYPE r = size_and_type r AND RANGE_TYPE_MASK"

definition MR_SIZE :: "memory_range \<Rightarrow> 64 word" where
  "MR_SIZE r = size_and_type r AND NOT RANGE_TYPE_MASK"

definition mr_end :: "memory_range \<Rightarrow> 64 word" where
  "mr_end mr = physical_address mr + MR_SIZE mr"

definition sizeof_memory_range :: nat where
  "sizeof_memory_range = 16"

section \<open>The allocator state\<close>

text \<open>
  \<^verbatim>\<open>g_buffer\<close> is a pointer to \<^verbatim>\<open>g_capacity\<close> slots of which the first \<^verbatim>\<open>g_entry_count\<close> are in
  use. The model keeps the contents of the slots and, apart from them, where they are: in
  \<^verbatim>\<open>g_initial_buffer\<close>, or at a virtual address of the direct map.
\<close>

datatype buffer_ptr = Initial_Buffer | Direct_Map "64 word"

record boot_alloc_state =
  g_buffer :: "memory_range list"
  g_buffer_ptr :: buffer_ptr
  g_capacity :: nat
  g_entry_count :: nat
  g_direct_map_base :: "64 word"

definition BOOT_ALLOC_INITIAL_CAPACITY :: nat where
  "BOOT_ALLOC_INITIAL_CAPACITY = unat PAGE_SIZE div sizeof_memory_range"

definition initial_state :: "64 word \<Rightarrow> boot_alloc_state" where
  "initial_state base =
     \<lparr>g_buffer = replicate BOOT_ALLOC_INITIAL_CAPACITY \<lparr>physical_address = 0, size_and_type = 0\<rparr>,
      g_buffer_ptr = Initial_Buffer, g_capacity = BOOT_ALLOC_INITIAL_CAPACITY,
      g_entry_count = 0, g_direct_map_base = base\<rparr>"

section \<open>Editing the array\<close>

text \<open>\<^verbatim>\<open>memmove(&buf[dst], &buf[src], n * sizeof)\<close>, within the array.\<close>

definition array_move :: "'a list \<Rightarrow> nat \<Rightarrow> nat \<Rightarrow> nat \<Rightarrow> 'a list" where
  "array_move buf dst src n = take dst buf @ take n (drop src buf) @ drop (dst + n) buf"

definition range_insert ::
  "boot_alloc_state \<Rightarrow> memory_range \<Rightarrow> nat \<Rightarrow> nat \<Rightarrow> boot_alloc_state res" where
  "range_insert s mr idx count =
     BUG_ON (count < idx)
       (let buf = (if idx = count then g_buffer s
                   else array_move (g_buffer s) (idx + 1) idx (count - idx))
        in Inr (s\<lparr>g_buffer := buf[idx := mr]\<rparr>))"

definition range_emplace_at ::
  "boot_alloc_state \<Rightarrow> nat \<Rightarrow> memory_range \<Rightarrow> boot_alloc_state res" where
  "range_emplace_at s idx mr =
     BUG_ON (g_entry_count s < idx)
       (BUG_ON (g_capacity s \<le> g_entry_count s)
         (range_insert (s\<lparr>g_entry_count := g_entry_count s + 1\<rparr>) mr idx (g_entry_count s)))"

definition set_range :: "boot_alloc_state \<Rightarrow> nat \<Rightarrow> memory_range \<Rightarrow> boot_alloc_state" where
  "set_range s idx mr = s\<lparr>g_buffer := (g_buffer s)[idx := mr]\<rparr>"

section \<open>Finding a range\<close>

datatype allow_one_above = ALLOW_ONE_ABOVE_NO | ALLOW_ONE_ABOVE_YES

text \<open>The binary search loop: the index found, or \<open>(left, right)\<close> when they have crossed.\<close>

function find_range_loop ::
  "memory_range list \<Rightarrow> 64 word \<Rightarrow> int \<Rightarrow> int \<Rightarrow> int + int \<times> int" where
  "find_range_loop buf value left right =
     (if left \<le> right
      then let middle = left + (right - left) div 2;
               here = physical_address (buf ! nat middle)
           in if here < value then find_range_loop buf value (middle + 1) right
              else if value < here then find_range_loop buf value left (middle - 1)
              else Inl middle
      else Inr (left, right))"
  by pat_completeness auto
termination
  by (relation "measure (\<lambda>(buf, value, left, right). nat (right - left + 1))") auto

declare find_range_loop.simps [simp del]

definition find_range :: "boot_alloc_state \<Rightarrow> 64 word \<Rightarrow> allow_one_above \<Rightarrow> int" where
  "find_range s value allow_above =
     (case find_range_loop (g_buffer s) value 0 (int (g_entry_count s) - 1) of
        Inl middle \<Rightarrow> middle
      | Inr (left, right) \<Rightarrow>
          if right \<ge> 0 \<and>
             physical_address (g_buffer s ! nat right) < value \<and>
             value < mr_end (g_buffer s ! nat right)
          then right
          else let left' = (if left = int (g_entry_count s) then - 1 else left)
               in (if allow_above = ALLOW_ONE_ABOVE_YES then left' else - 1))"

section \<open>Carving a range out of another\<close>

definition can_merge_ranges :: "memory_range \<Rightarrow> memory_range \<Rightarrow> bool" where
  "can_merge_ranges lhs rhs \<longleftrightarrow> MR_TYPE lhs = MR_TYPE rhs \<and> mr_end lhs = physical_address rhs"

definition merge_ranges :: "memory_range \<Rightarrow> memory_range \<Rightarrow> memory_range" where
  "merge_ranges dst src =
     dst\<lparr>physical_address := (if physical_address dst > physical_address src
                             then physical_address src else physical_address dst),
        size_and_type := size_and_type dst + MR_SIZE src\<rparr>"

definition range_before :: "boot_alloc_state \<Rightarrow> nat \<Rightarrow> memory_range option" where
  "range_before s mr_idx = (if mr_idx \<noteq> 0 then Some (g_buffer s ! (mr_idx - 1)) else None)"

definition range_after :: "boot_alloc_state \<Rightarrow> nat \<Rightarrow> memory_range option" where
  "range_after s mr_idx =
     (if mr_idx + 1 = g_entry_count s then None else Some (g_buffer s ! (mr_idx + 1)))"

text \<open>Case 4 of the comment in the source: the whole range changes type.\<close>

definition allocate_all_of :: "boot_alloc_state \<Rightarrow> nat \<Rightarrow> memory_range \<Rightarrow> boot_alloc_state" where
  "allocate_all_of s mr_idx new_mr =
     (let mr_before = range_before s mr_idx; mr_after = range_after s mr_idx;
          mergeable_before = (case mr_before of None \<Rightarrow> False | Some b \<Rightarrow> can_merge_ranges b new_mr);
          mergeable_after = (case mr_after of None \<Rightarrow> False | Some a \<Rightarrow> can_merge_ranges new_mr a);
          close = (\<lambda>t after_idx dropped.
            (if mr_after = None then t
             else t\<lparr>g_buffer := array_move (g_buffer t) mr_idx after_idx
                                  (g_entry_count t - after_idx)\<rparr>)
            \<lparr>g_entry_count := g_entry_count t - dropped\<rparr>)
      in if \<not> mergeable_before \<and> \<not> mergeable_after
         then set_range s mr_idx ((g_buffer s ! mr_idx)\<lparr>size_and_type := size_and_type new_mr\<rparr>)
         else if mergeable_before \<and> mergeable_after
         then close (set_range s (mr_idx - 1)
                (merge_ranges (merge_ranges (the mr_before) new_mr) (the mr_after))) (mr_idx + 2) 2
         else if mergeable_before
         then close (set_range s (mr_idx - 1) (merge_ranges (the mr_before) new_mr)) (mr_idx + 1) 1
         else close (set_range s (mr_idx + 1) (merge_ranges (the mr_after) new_mr)) (mr_idx + 1) 1)"

definition allocate_out_of ::
  "boot_alloc_state \<Rightarrow> nat \<Rightarrow> memory_range \<Rightarrow> boot_alloc_state res" where
  "allocate_out_of s mr_idx new_mr =
     (let current_mr = g_buffer s ! mr_idx;
          mr_lhs_piece = \<lparr>physical_address = physical_address current_mr,
            size_and_type = MR_ENCODE (physical_address new_mr - physical_address current_mr)
                              (MR_TYPE current_mr)\<rparr>;
          mr_rhs_piece = \<lparr>physical_address = mr_end new_mr,
            size_and_type = MR_ENCODE (mr_end current_mr - mr_end new_mr) (MR_TYPE current_mr)\<rparr>;
          mr_before = range_before s mr_idx;
          mergeable_before = (case mr_before of None \<Rightarrow> False | Some b \<Rightarrow> can_merge_ranges b new_mr);
          mr_after = range_after s mr_idx;
          mergeable_after = (case mr_after of None \<Rightarrow> False | Some a \<Rightarrow> can_merge_ranges new_mr a)
      in BUG_ON (physical_address current_mr > physical_address new_mr
                 \<or> mr_end current_mr < mr_end new_mr)
        (BUG_ON (MR_TYPE current_mr = MR_TYPE new_mr)
          (if MR_SIZE mr_lhs_piece \<noteq> 0 \<and> MR_SIZE mr_rhs_piece \<noteq> 0
           then bind_res (range_emplace_at (set_range s mr_idx mr_lhs_piece) (mr_idx + 1) new_mr)
                  (\<lambda>s'. range_emplace_at s' (mr_idx + 2) mr_rhs_piece)
           else if MR_SIZE mr_lhs_piece = 0 \<and> MR_SIZE mr_rhs_piece \<noteq> 0
           then (if mergeable_before
                 then Inr (set_range (set_range s (mr_idx - 1) (merge_ranges (the mr_before) new_mr))
                             mr_idx mr_rhs_piece)
                 else range_emplace_at (set_range s mr_idx new_mr) (mr_idx + 1) mr_rhs_piece)
           else if MR_SIZE mr_lhs_piece \<noteq> 0 \<and> MR_SIZE mr_rhs_piece = 0
           then (if mergeable_after
                 then Inr (set_range (set_range s mr_idx mr_lhs_piece)
                             (mr_idx + 1) (merge_ranges (the mr_after) new_mr))
                 else range_emplace_at (set_range s mr_idx mr_lhs_piece) (mr_idx + 1) new_mr)
           else Inr (allocate_all_of s mr_idx new_mr))))"

section \<open>Allocation\<close>

text \<open>
  The scan of \<^verbatim>\<open>allocate_top_down\<close>, from entry \<open>i - 1\<close> down: \<open>(i, allocated_end)\<close> after the
  loop, with \<open>allocated_end = 0\<close> when it ran out of entries. (On \<^verbatim>\<open>break\<close> the end of the chosen
  range is kept even when it is 0, which the test after the loop treats as a failure.)
\<close>

fun top_down_loop :: "memory_range list \<Rightarrow> 64 word \<Rightarrow> 64 word \<Rightarrow> nat \<Rightarrow> nat \<times> 64 word" where
  "top_down_loop buf upper_limit bytes_to_allocate 0 = (0, 0)"
| "top_down_loop buf upper_limit bytes_to_allocate (Suc i) =
     (let mr = buf ! i; range_end = C_MIN (mr_end mr) upper_limit
      in if physical_address mr \<ge> upper_limit
         then top_down_loop buf upper_limit bytes_to_allocate i
         else if MR_TYPE mr \<noteq> MEMORY_FREE
         then top_down_loop buf upper_limit bytes_to_allocate i
         else if range_end - physical_address mr < bytes_to_allocate
         then top_down_loop buf upper_limit bytes_to_allocate i
         else (i, range_end))"

definition allocate_top_down ::
  "boot_alloc_state \<Rightarrow> 64 word \<Rightarrow> 64 word \<Rightarrow> (boot_alloc_state \<times> 64 word) res" where
  "allocate_top_down s page_count upper_limit =
     (let bytes_to_allocate = page_count * PAGE_SIZE
      in BUG_ON (bytes_to_allocate \<le> page_count)
        (case top_down_loop (g_buffer s) upper_limit bytes_to_allocate (g_entry_count s) of
           (i, allocated_end) \<Rightarrow>
             if allocated_end = 0 then Inr (s, encode_error_phys_addr ENOMEM)
             else let allocated_mr =
                    \<lparr>physical_address = allocated_end - bytes_to_allocate,
                     size_and_type = MR_ENCODE bytes_to_allocate MEMORY_ALLOCATED\<rparr>
                  in bind_res (allocate_out_of s i allocated_mr)
                       (\<lambda>s'. Inr (s', physical_address allocated_mr))))"

text \<open>The scan of \<^verbatim>\<open>allocate_within\<close>: the entry to allocate from, or \<open>None\<close> for \<^verbatim>\<open>ENOMEM\<close>.\<close>

function within_loop ::
  "boot_alloc_state \<Rightarrow> 64 word \<Rightarrow> 64 word \<Rightarrow> 64 word \<Rightarrow> nat \<Rightarrow> nat option" where
  "within_loop s lower_limit upper_limit bytes_to_allocate mr_idx =
     (if mr_idx < g_entry_count s
      then let picked_mr = g_buffer s ! mr_idx; end = mr_end picked_mr
           in if physical_address picked_mr > upper_limit then None
              else if MR_TYPE picked_mr = MEMORY_FREE \<and>
                      C_MIN end upper_limit - C_MAX (physical_address picked_mr) lower_limit
                        \<ge> bytes_to_allocate
              then Some mr_idx
              else if end \<ge> upper_limit then None
              else if upper_limit - end < bytes_to_allocate then None
              else within_loop s lower_limit upper_limit bytes_to_allocate (mr_idx + 1)
      else None)"
  by pat_completeness auto
termination
  by (relation "measure (\<lambda>(s, lower, upper, bytes, i). g_entry_count s - i)") auto

declare within_loop.simps [simp del]

definition allocate_within ::
  "boot_alloc_state \<Rightarrow> 64 word \<Rightarrow> 64 word \<Rightarrow> 64 word \<Rightarrow> (boot_alloc_state \<times> 64 word) res" where
  "allocate_within s page_count lower_limit upper_limit =
     (let bytes_to_allocate = page_count * PAGE_SIZE
      in BUG_ON (bytes_to_allocate \<le> page_count)
        (BUG_ON (lower_limit \<ge> upper_limit
                 \<or> lower_limit + bytes_to_allocate > upper_limit
                 \<or> lower_limit + bytes_to_allocate < lower_limit)
          (let mr_idx = find_range s lower_limit ALLOW_ONE_ABOVE_YES
           in if mr_idx < 0 then Inr (s, encode_error_phys_addr ENOMEM)
              else case within_loop s lower_limit upper_limit bytes_to_allocate (nat mr_idx) of
                None \<Rightarrow> Inr (s, encode_error_phys_addr ENOMEM)
              | Some idx \<Rightarrow>
                  let range_begin = C_MAX lower_limit (physical_address (g_buffer s ! idx));
                      allocated_mr =
                        \<lparr>physical_address = range_begin,
                         size_and_type = MR_ENCODE bytes_to_allocate MEMORY_ALLOCATED\<rparr>
                  in bind_res (allocate_out_of s idx allocated_mr)
                       (\<lambda>s'. Inr (s', physical_address allocated_mr)))))"

definition boot_alloc_nogrow ::
  "boot_alloc_state \<Rightarrow> 64 word \<Rightarrow> (boot_alloc_state \<times> 64 word) res" where
  "boot_alloc_nogrow s num_pages = allocate_top_down s num_pages (- 1)"

section \<open>Growing the array\<close>

definition BOOT_ALLOC_WORST_CASE_GROWTH_PER_ALLOCATION :: nat where
  "BOOT_ALLOC_WORST_CASE_GROWTH_PER_ALLOCATION = 2"

definition growth_watermark :: "boot_alloc_state \<Rightarrow> nat" where
  "growth_watermark s =
     BOOT_ALLOC_WORST_CASE_GROWTH_PER_ALLOCATION * 2 +
     (if g_buffer_ptr s \<noteq> Initial_Buffer then BOOT_ALLOC_WORST_CASE_GROWTH_PER_ALLOCATION else 0)"

text \<open>
  \<^verbatim>\<open>boot_free\<close> over the function it calls to make room: \<^verbatim>\<open>maybe_grow_buffer\<close> calls
  \<^verbatim>\<open>boot_free\<close> and \<^verbatim>\<open>boot_free\<close> calls \<^verbatim>\<open>maybe_grow_buffer\<close>, so the recursion is tied below.
\<close>

definition boot_free_with ::
  "(boot_alloc_state \<Rightarrow> (boot_alloc_state \<times> bool) res) \<Rightarrow>
   boot_alloc_state \<Rightarrow> 64 word \<Rightarrow> 64 word \<Rightarrow> boot_alloc_state res" where
  "boot_free_with grow s address num_pages =
     (let freed_range = \<lparr>physical_address = address,
                         size_and_type = MR_ENCODE (num_pages * PAGE_SIZE) MEMORY_FREE\<rparr>
      in bind_res (grow s) (\<lambda>(s', grown).
           if \<not> grown then Inr s'
           else let mr_idx = find_range s' address ALLOW_ONE_ABOVE_NO
                in BUG_ON (mr_idx < 0) (allocate_out_of s' (nat mr_idx) freed_range)))"

text \<open>
  \<^verbatim>\<open>maybe_grow_buffer\<close>, with fuel for its recursion through \<^verbatim>\<open>boot_free\<close>. The only test of the
  allocation's result is \<open>addr = 0\<close>. An address in the error range (\<^verbatim>\<open>error_phys_addr\<close>) passes
  that test and the entries are copied to it: a write to memory that was not allocated.
  The copied array has \<open>new_capacity\<close> slots, the ones past the entries with whatever the memory
  held (here zeroed ranges; nothing reads them).
\<close>

fun maybe_grow_buffer :: "nat \<Rightarrow> boot_alloc_state \<Rightarrow> (boot_alloc_state \<times> bool) res" where
  "maybe_grow_buffer 0 s = Inl Hang"
| "maybe_grow_buffer (Suc fuel) s =
     (if g_capacity s - g_entry_count s \<ge> growth_watermark s then Inr (s, True)
      else let new_capacity = PAGE_ROUND_UP (of_nat (g_capacity s * 2 * sizeof_memory_range))
           in bind_res (boot_alloc_nogrow s (drop_bit PAGE_SHIFT new_capacity)) (\<lambda>(s1, addr).
                if addr = 0 then Inr (s1, False)
                else if error_phys_addr addr then Inl Wild
                else let new_buffer = phys_to_virt (g_direct_map_base s1) addr
                     in bind_res
                      (case g_buffer_ptr s1 of
                         Initial_Buffer \<Rightarrow> Inr (g_buffer s1, s1)
                       | Direct_Map old \<Rightarrow>
                           let byte_capacity = PAGE_ROUND_UP (of_nat (g_capacity s1 * sizeof_memory_range))
                           in bind_res
                                (boot_free_with (maybe_grow_buffer fuel) s1
                                   (virt_to_phys (g_direct_map_base s1) old)
                                   (drop_bit PAGE_SHIFT byte_capacity))
                                (\<lambda>s2. Inr (g_buffer s1, s2)))
                      (\<lambda>(copied, s2).
                         let cap = unat new_capacity div sizeof_memory_range
                         in Inr (s2\<lparr>g_buffer := take (g_entry_count s1) copied
                                      @ replicate (cap - g_entry_count s1)
                                          \<lparr>physical_address = 0, size_and_type = 0\<rparr>,
                                   g_buffer_ptr := Direct_Map new_buffer,
                                   g_capacity := cap\<rparr>, True))))"

section \<open>The interface\<close>

definition range_append ::
  "nat \<Rightarrow> boot_alloc_state \<Rightarrow> memory_range \<Rightarrow> (boot_alloc_state \<times> errno option) res" where
  "range_append fuel s mr =
     bind_res (maybe_grow_buffer fuel s) (\<lambda>(s', grown).
       if \<not> grown then Inr (s', Some ENOMEM)
       else bind_res (range_emplace_at s' (g_entry_count s') mr) (\<lambda>s''. Inr (s'', None)))"

definition boot_alloc ::
  "nat \<Rightarrow> boot_alloc_state \<Rightarrow> 64 word \<Rightarrow> (boot_alloc_state \<times> 64 word) res" where
  "boot_alloc fuel s num_pages =
     bind_res (maybe_grow_buffer fuel s) (\<lambda>(s', grown).
       if \<not> grown then Inr (s', encode_error_phys_addr ENOMEM)
       else boot_alloc_nogrow s' num_pages)"

definition boot_alloc_at ::
  "nat \<Rightarrow> boot_alloc_state \<Rightarrow> 64 word \<Rightarrow> 64 word \<Rightarrow> (boot_alloc_state \<times> 64 word) res" where
  "boot_alloc_at fuel s address num_pages =
     bind_res (maybe_grow_buffer fuel s) (\<lambda>(s', grown).
       if \<not> grown then Inr (s', encode_error_phys_addr ENOMEM)
       else allocate_within s' num_pages address (address + push_bit PAGE_SHIFT num_pages))"

definition boot_free ::
  "nat \<Rightarrow> boot_alloc_state \<Rightarrow> 64 word \<Rightarrow> 64 word \<Rightarrow> boot_alloc_state res" where
  "boot_free fuel s address num_pages = boot_free_with (maybe_grow_buffer fuel) s address num_pages"

section \<open>Initialisation from the loader's memory map\<close>

record ultra_memory_map_entry =
  entry_physical_address :: "64 word"
  entry_size :: "64 word"
  entry_type :: "64 word"

definition ULTRA_MEMORY_TYPE_FREE :: "64 word" where "ULTRA_MEMORY_TYPE_FREE = 0x00000001"
definition ULTRA_MEMORY_TYPE_RECLAIMABLE :: "64 word" where
  "ULTRA_MEMORY_TYPE_RECLAIMABLE = 0x00000003"
definition ULTRA_MEMORY_TYPE_LOADER_RECLAIMABLE :: "64 word" where
  "ULTRA_MEMORY_TYPE_LOADER_RECLAIMABLE = 0xFFFF0001"
definition ULTRA_MEMORY_TYPE_KERNEL_BINARY :: "64 word" where
  "ULTRA_MEMORY_TYPE_KERNEL_BINARY = 0xFFFF0004"

text \<open>The switch on the entry's type: the type its range gets, \<open>None\<close> for \<^verbatim>\<open>continue\<close>.\<close>

definition entry_range_type :: "ultra_memory_map_entry \<Rightarrow> 64 word option" where
  "entry_range_type e =
     (if entry_type e = ULTRA_MEMORY_TYPE_RECLAIMABLE
         \<or> entry_type e = ULTRA_MEMORY_TYPE_KERNEL_BINARY
         \<or> entry_type e = ULTRA_MEMORY_TYPE_LOADER_RECLAIMABLE then Some MEMORY_ALLOCATED
      else if entry_type e = ULTRA_MEMORY_TYPE_FREE then Some MEMORY_FREE
      else None)"

fun boot_alloc_init ::
  "nat \<Rightarrow> boot_alloc_state \<Rightarrow> ultra_memory_map_entry list \<Rightarrow> boot_alloc_state res" where
  "boot_alloc_init fuel s [] = Inr s"
| "boot_alloc_init fuel s (e # es) =
     (case entry_range_type e of
        None \<Rightarrow> boot_alloc_init fuel s es
      | Some type \<Rightarrow>
          bind_res (range_append fuel s
             \<lparr>physical_address = entry_physical_address e, size_and_type = MR_ENCODE (entry_size e) type\<rparr>)
            (\<lambda>(s', ret). boot_alloc_init fuel s' es))"

end
