(* ===== verification/BootAllocRanges.thy ===== *)
theory BootAllocRanges
  imports BootAlloc
begin

text \<open>
  Ranges and lists of ranges as sets of addresses. \<open>mr_lo\<close>, \<open>mr_len\<close> and \<open>mr_hi\<close> read a range
  as naturals; \<open>ranges_ok\<close> is the invariant of the array (page-aligned, not empty, sorted and
  disjoint); \<open>addr_type\<close> is the abstract memory map it represents: for each address the type
  of the range that holds it, or \<open>None\<close>.
\<close>

section \<open>A range as naturals\<close>

abbreviation page :: nat where "page \<equiv> 4096"

definition mr_lo :: "memory_range \<Rightarrow> nat" where
  "mr_lo r = unat (physical_address r)"

definition mr_len :: "memory_range \<Rightarrow> nat" where
  "mr_len r = unat (MR_SIZE r)"

definition mr_hi :: "memory_range \<Rightarrow> nat" where
  "mr_hi r = mr_lo r + mr_len r"

definition wf_range :: "memory_range \<Rightarrow> bool" where
  "wf_range r \<longleftrightarrow> page dvd mr_lo r \<and> page dvd mr_len r \<and> 0 < mr_len r \<and> mr_hi r < 2 ^ 64"

text \<open>The type bit and the size share a word: \<open>MR_TYPE\<close> is its parity.\<close>

lemma mask_1_word: "(1::64 word) = mask 1"
  by simp

lemma unat_MR_TYPE: "unat (MR_TYPE r) = unat (size_and_type r) mod 2"
  using unat_and_mask [of "size_and_type r" 1] by (simp add: MR_TYPE_def RANGE_TYPE_MASK_def)

lemma mr_len_eq: "mr_len r = unat (size_and_type r) - unat (size_and_type r) mod 2"
  using unat_and_not_mask [of "size_and_type r" 1]
  by (simp add: mr_len_def MR_SIZE_def RANGE_TYPE_MASK_def)

lemma even_mr_len: "even (mr_len r)"
  by (simp add: mr_len_eq minus_mod_eq_mult_div)

lemma MR_TYPE_cases: "MR_TYPE r = MEMORY_FREE \<or> MR_TYPE r = MEMORY_ALLOCATED"
proof -
  have "unat (MR_TYPE r) < 2"
    by (simp add: unat_MR_TYPE)
  then have "unat (MR_TYPE r) = 0 \<or> unat (MR_TYPE r) = 1"
    by linarith
  then show ?thesis
    by (auto simp: MEMORY_FREE_def MEMORY_ALLOCATED_def word_unat_eq_iff)
qed

lemma MR_ENCODE_eq:
  assumes "even (unat b)" "t = MEMORY_FREE \<or> t = MEMORY_ALLOCATED"
  shows "MR_ENCODE b t = b + t"
proof -
  have "unat (b AND 1) = 0"
    using unat_and_mask [of b 1] assms(1) by simp
  then have "b AND 1 = 0"
    by (simp add: unat_eq_zero)
  moreover have "b + 1 = (b AND 1) + (b OR 1)"
    by (rule word_plus_and_or [symmetric])
  ultimately have "b OR 1 = b + 1" by simp
  with assms(2) show ?thesis
    by (auto simp: MR_ENCODE_def MEMORY_FREE_def MEMORY_ALLOCATED_def)
qed

lemma unat_MR_ENCODE:
  assumes "even (unat b)" "t = MEMORY_FREE \<or> t = MEMORY_ALLOCATED"
  shows "unat (MR_ENCODE b t) = unat b + unat t"
proof -
  have "unat b < 2 ^ 64"
    using unat_lt_64 by simp
  with assms(1) have "unat b + 1 < 2 ^ 64"
    using even_Suc_less [of "unat b" "2 ^ 64"] by simp
  with assms show ?thesis
    by (auto simp: MR_ENCODE_eq MEMORY_FREE_def MEMORY_ALLOCATED_def intro!: unat_add_no_wrap [of b 1, simplified])
qed

lemma encoded_range:
  assumes "even (unat b)" "t = MEMORY_FREE \<or> t = MEMORY_ALLOCATED"
  shows "mr_len \<lparr>physical_address = a, size_and_type = MR_ENCODE b t\<rparr> = unat b"
    and "MR_TYPE \<lparr>physical_address = a, size_and_type = MR_ENCODE b t\<rparr> = t"
    and "MR_SIZE \<lparr>physical_address = a, size_and_type = MR_ENCODE b t\<rparr> = b"
proof -
  let ?r = "\<lparr>physical_address = a, size_and_type = MR_ENCODE b t\<rparr>"
  have t: "unat t < 2"
    using assms(2) by (auto simp: MEMORY_FREE_def MEMORY_ALLOCATED_def)
  show len: "mr_len ?r = unat b"
    using assms t by (auto simp: mr_len_eq unat_MR_ENCODE mod_simps elim!: evenE)
  show "MR_TYPE ?r = t"
    using assms t by (auto simp: word_unat_eq_iff unat_MR_TYPE unat_MR_ENCODE elim!: evenE)
  show "MR_SIZE ?r = b"
    using len by (simp add: mr_len_def word_unat_eq_iff)
qed

lemma mr_lo_record [simp]: "mr_lo \<lparr>physical_address = a, size_and_type = b\<rparr> = unat a"
  by (simp add: mr_lo_def)

lemma unat_mr_end: "mr_hi r < 2 ^ 64 \<Longrightarrow> unat (mr_end r) = mr_hi r"
  by (simp add: mr_hi_def mr_lo_def mr_len_def mr_end_def unat_add_no_wrap)

lemma wf_range_bounds:
  assumes "wf_range r"
  shows "mr_lo r < mr_hi r" "mr_hi r < 2 ^ 64" "page dvd mr_lo r" "page dvd mr_hi r"
    "unat (mr_end r) = mr_hi r"
  using assms by (auto simp: wf_range_def mr_hi_def unat_mr_end)

text \<open>Merging two adjacent ranges of one type gives the range over both, with that type.\<close>

lemma merge_ranges_facts:
  assumes "wf_range d" "wf_range s" "mr_hi d = mr_lo s \<or> mr_hi s = mr_lo d"
  shows "mr_lo (merge_ranges d s) = min (mr_lo d) (mr_lo s)"
    and "mr_len (merge_ranges d s) = mr_len d + mr_len s"
    and "MR_TYPE (merge_ranges d s) = MR_TYPE d"
proof -
  show "mr_lo (merge_ranges d s) = min (mr_lo d) (mr_lo s)"
    by (auto simp: merge_ranges_def mr_lo_def word_less_nat_alt)
  have e: "even (mr_len d)" "even (mr_len s)"
    by (rule even_mr_len)+
  have fit: "mr_len d + mr_len s + 1 < 2 ^ 64"
  proof -
    have "mr_len d + mr_len s < 2 ^ 64"
      using assms by (auto simp: wf_range_def mr_hi_def)
    moreover have "even (mr_len d + mr_len s)"
      using e by simp
    ultimately show ?thesis
      using even_Suc_less [of "mr_len d + mr_len s" "2 ^ 64"] by simp
  qed
  have d: "unat (size_and_type d) = mr_len d + unat (size_and_type d) mod 2"
    by (simp add: mr_len_eq)
  have "unat (size_and_type d) mod 2 < 2"
    by simp
  with d fit have "unat (size_and_type d) + mr_len s < 2 ^ 64"
    by linarith
  then have u: "unat (size_and_type (merge_ranges d s)) = unat (size_and_type d) + mr_len s"
    by (simp add: merge_ranges_def mr_len_def unat_add_no_wrap)
  with e(2) show "MR_TYPE (merge_ranges d s) = MR_TYPE d"
    by (auto simp: word_unat_eq_iff unat_MR_TYPE elim!: evenE)
  show "mr_len (merge_ranges d s) = mr_len d + mr_len s"
    using u e(2) by (auto simp: mr_len_eq [of "merge_ranges d s"] mr_len_eq [of d] elim!: evenE)
qed

section \<open>Lists of ranges\<close>

definition ranges_ok :: "memory_range list \<Rightarrow> bool" where
  "ranges_ok rs \<longleftrightarrow> (\<forall>r\<in>set rs. wf_range r) \<and> sorted_wrt (\<lambda>r q. mr_hi r \<le> mr_lo q) rs"

fun addr_type :: "memory_range list \<Rightarrow> nat \<Rightarrow> 64 word option" where
  "addr_type [] a = None"
| "addr_type (r # rs) a =
     (if mr_lo r \<le> a \<and> a < mr_hi r then Some (MR_TYPE r) else addr_type rs a)"

lemma ranges_ok_Nil [simp]: "ranges_ok []"
  by (simp add: ranges_ok_def)

lemma ranges_ok_Cons:
  "ranges_ok (r # rs) \<longleftrightarrow> wf_range r \<and> ranges_ok rs \<and> (\<forall>q\<in>set rs. mr_hi r \<le> mr_lo q)"
  by (auto simp: ranges_ok_def)

lemma ranges_ok_append:
  "ranges_ok (xs @ ys) \<longleftrightarrow>
     ranges_ok xs \<and> ranges_ok ys \<and> (\<forall>r\<in>set xs. \<forall>q\<in>set ys. mr_hi r \<le> mr_lo q)"
  by (auto simp: ranges_ok_def sorted_wrt_append)

lemma addr_type_append:
  "addr_type (xs @ ys) a = (case addr_type xs a of None \<Rightarrow> addr_type ys a | Some t \<Rightarrow> Some t)"
  by (induction xs) auto

lemma addr_type_None_iff:
  "addr_type rs a = None \<longleftrightarrow> (\<forall>r\<in>set rs. \<not> (mr_lo r \<le> a \<and> a < mr_hi r))"
  by (induction rs) auto

lemma addr_type_member:
  "ranges_ok rs \<Longrightarrow> r \<in> set rs \<Longrightarrow> mr_lo r \<le> a \<Longrightarrow> a < mr_hi r \<Longrightarrow> addr_type rs a = Some (MR_TYPE r)"
  by (induction rs) (auto simp: ranges_ok_Cons)

text \<open>\<open>chain l rs h\<close>: the ranges follow one another without gaps from \<open>l\<close> to \<open>h\<close>.\<close>

fun chain :: "nat \<Rightarrow> memory_range list \<Rightarrow> nat \<Rightarrow> bool" where
  "chain l [] h \<longleftrightarrow> l = h"
| "chain l (r # rs) h \<longleftrightarrow> wf_range r \<and> mr_lo r = l \<and> chain (mr_hi r) rs h"

lemma chain_le: "chain l rs h \<Longrightarrow> l \<le> h"
  by (induction rs arbitrary: l) (auto simp: mr_hi_def intro: order_trans [OF le_add1])

lemma chain_bounds: "chain l rs h \<Longrightarrow> r \<in> set rs \<Longrightarrow> l \<le> mr_lo r \<and> mr_hi r \<le> h \<and> wf_range r"
proof (induction rs arbitrary: l)
  case (Cons q rs)
  have "mr_hi q \<le> h" "l \<le> mr_hi q"
    using Cons.prems(1) chain_le [of "mr_hi q" rs h] by (auto simp: mr_hi_def)
  with Cons show ?case by fastforce
qed simp

lemma chain_ranges_ok: "chain l rs h \<Longrightarrow> ranges_ok rs"
  by (induction rs arbitrary: l) (auto simp: ranges_ok_Cons dest: chain_bounds)

lemma chain_covers: "chain l rs h \<Longrightarrow> addr_type rs a \<noteq> None \<longleftrightarrow> l \<le> a \<and> a < h"
proof (induction rs arbitrary: l)
  case (Cons r rs)
  then have "mr_hi r \<le> h" and "mr_lo r \<le> mr_hi r"
    by (auto simp: mr_hi_def dest: chain_le)
  with Cons.prems Cons.IH [of "mr_hi r"] show ?case by auto
qed simp

lemma chain_nonempty: "chain l rs h \<Longrightarrow> l < h \<Longrightarrow> rs \<noteq> []"
  by (cases rs) auto

text \<open>Two ends: the ranges of a chain that is not empty start at \<open>l\<close> and stop at \<open>h\<close>.\<close>

lemma chain_first: "chain l rs h \<Longrightarrow> rs \<noteq> [] \<Longrightarrow> \<exists>r\<in>set rs. mr_lo r = l"
  by (cases rs) auto

lemma chain_last: "chain l rs h \<Longrightarrow> rs \<noteq> [] \<Longrightarrow> \<exists>r\<in>set rs. mr_hi r = h"
proof (induction rs arbitrary: l)
  case (Cons r rs)
  then show ?case by (cases "rs = []") auto
qed simp

section \<open>Replacing a chain by another over the same addresses\<close>

lemma ranges_ok_replace:
  assumes ok: "ranges_ok (xs @ Q @ ys)" and Q: "chain l Q h" and P: "chain l P h" and lh: "l < h"
  shows "ranges_ok (xs @ P @ ys)"
proof -
  obtain q q' where q: "q \<in> set Q" "mr_lo q = l" and q': "q' \<in> set Q" "mr_hi q' = h"
    using chain_first [OF Q] chain_last [OF Q] chain_nonempty [OF Q lh] by blast
  have "mr_hi r \<le> l" if "r \<in> set xs" for r
    using ok q that by (auto simp: ranges_ok_append)
  moreover have "h \<le> mr_lo r" if "r \<in> set ys" for r
    using ok q' that by (auto simp: ranges_ok_append)
  moreover have "mr_hi r \<le> mr_lo r'" if "r \<in> set xs" "r' \<in> set ys" for r r'
    using ok that by (auto simp: ranges_ok_append)
  ultimately show ?thesis
    using ok P chain_ranges_ok [OF P]
    by (fastforce simp: ranges_ok_append dest: chain_bounds)
qed

lemma addr_type_around:
  assumes ok: "ranges_ok (xs @ Q @ ys)" and Q: "chain l Q h" and lh: "l < h"
  shows "addr_type (xs @ Q @ ys) a = (if l \<le> a \<and> a < h then addr_type Q a else addr_type (xs @ ys) a)"
proof -
  obtain q q' where q: "q \<in> set Q" "mr_lo q = l" and q': "q' \<in> set Q" "mr_hi q' = h"
    using chain_first [OF Q] chain_last [OF Q] chain_nonempty [OF Q lh] by blast
  have "mr_hi r \<le> l" if "r \<in> set xs" for r
    using ok q that by (auto simp: ranges_ok_append)
  then have xs: "addr_type xs a = None" if "l \<le> a"
    using that by (fastforce simp: addr_type_None_iff)
  show ?thesis
    using chain_covers [OF Q, of a] xs
    by (auto simp: addr_type_append split: option.splits)
qed

text \<open>
  \<open>retype Q P lo hi t\<close>: the chain \<open>P\<close> covers what \<open>Q\<close> covered and has type \<open>t\<close> from \<open>lo\<close> to
  \<open>hi\<close>, the types of \<open>Q\<close> elsewhere. It is what every case of \<^verbatim>\<open>allocate_out_of\<close> does to the
  ranges it touches. A block that lay within one range of \<open>Q\<close>, apart from the block from \<open>lo\<close>
  to \<open>hi\<close>, still lies within one range of \<open>P\<close>.
\<close>

definition within_one :: "memory_range list \<Rightarrow> nat \<Rightarrow> nat \<Rightarrow> 64 word \<Rightarrow> bool" where
  "within_one rs l h t \<longleftrightarrow> (\<exists>r\<in>set rs. mr_lo r \<le> l \<and> h \<le> mr_hi r \<and> MR_TYPE r = t)"

lemma within_one_simps [simp]:
  "\<not> within_one [] l h t"
  "within_one (r # rs) l h t \<longleftrightarrow> mr_lo r \<le> l \<and> h \<le> mr_hi r \<and> MR_TYPE r = t \<or> within_one rs l h t"
  "within_one (rs @ qs) l h t \<longleftrightarrow> within_one rs l h t \<or> within_one qs l h t"
  by (auto simp: within_one_def)

definition retype ::
  "memory_range list \<Rightarrow> memory_range list \<Rightarrow> nat \<Rightarrow> nat \<Rightarrow> 64 word \<Rightarrow> bool" where
  "retype Q P lo hi t \<longleftrightarrow> (\<exists>l h. l < h \<and> chain l Q h \<and> chain l P h \<and> l \<le> lo \<and> hi \<le> h \<and>
     (\<forall>a. addr_type P a = (if lo \<le> a \<and> a < hi then Some t else addr_type Q a))) \<and>
     within_one P lo hi t \<and>
     (\<forall>l h u. l < h \<longrightarrow> within_one Q l h u \<longrightarrow> h \<le> lo \<or> hi \<le> l \<longrightarrow> within_one P l h u)"

lemma retype_in_context:
  assumes "ranges_ok (xs @ Q @ ys)" "retype Q P lo hi t"
  shows "ranges_ok (xs @ P @ ys)"
    and "addr_type (xs @ P @ ys) a =
      (if lo \<le> a \<and> a < hi then Some t else addr_type (xs @ Q @ ys) a)"
    and "within_one (xs @ P @ ys) lo hi t"
    and "l < h \<Longrightarrow> within_one (xs @ Q @ ys) l h u \<Longrightarrow> h \<le> lo \<or> hi \<le> l \<Longrightarrow> within_one (xs @ P @ ys) l h u"
proof -
  show "within_one (xs @ P @ ys) lo hi t"
    "l < h \<Longrightarrow> within_one (xs @ Q @ ys) l h u \<Longrightarrow> h \<le> lo \<or> hi \<le> l \<Longrightarrow> within_one (xs @ P @ ys) l h u"
    using assms(2) by (auto simp: retype_def)
  from assms(2) obtain l h where lh: "l < h" "chain l Q h" "chain l P h" "l \<le> lo" "hi \<le> h"
    and P: "\<And>a. addr_type P a = (if lo \<le> a \<and> a < hi then Some t else addr_type Q a)"
    unfolding retype_def by blast
  show ok: "ranges_ok (xs @ P @ ys)"
    using ranges_ok_replace [OF assms(1) lh(2,3,1)] .
  show "addr_type (xs @ P @ ys) a =
      (if lo \<le> a \<and> a < hi then Some t else addr_type (xs @ Q @ ys) a)"
    using addr_type_around [OF ok lh(3,1), of a] addr_type_around [OF assms(1) lh(2,1), of a] P lh
    by auto
qed

section \<open>The cases of the split\<close>

text \<open>
  \<open>is_range r l h t\<close>: the well-formed range from \<open>l\<close> to \<open>h\<close> with type \<open>t\<close>. One lemma per case
  of \<^verbatim>\<open>allocate_out_of\<close> says that its edit is a \<open>retype\<close>; \<open>b\<close> and \<open>c\<close> are the ranges before
  and after, \<open>m\<close> the merged one.
\<close>

definition is_range :: "memory_range \<Rightarrow> nat \<Rightarrow> nat \<Rightarrow> 64 word \<Rightarrow> bool" where
  "is_range r l h t \<longleftrightarrow> wf_range r \<and> mr_lo r = l \<and> mr_hi r = h \<and> MR_TYPE r = t"

lemma is_range_less: "is_range r l h t \<Longrightarrow> l < h"
  using wf_range_bounds(1) by (auto simp: is_range_def)

lemma is_range_self: "wf_range r \<Longrightarrow> is_range r (mr_lo r) (mr_hi r) (MR_TYPE r)"
  by (simp add: is_range_def)

lemma is_range_merge:
  assumes "is_range d l m t" "is_range s m h t"
  shows "is_range (merge_ranges d s) l h t" "is_range (merge_ranges s d) l h t"
proof -
  have wf: "wf_range d" "wf_range s" "mr_hi d = mr_lo s"
    using assms by (auto simp: is_range_def)
  note f = merge_ranges_facts [OF wf(1,2)] merge_ranges_facts [OF wf(2,1)]
  have "mr_lo d < mr_lo s"
    using wf wf_range_bounds(1) [OF wf(1)] by simp
  with wf f assms show "is_range (merge_ranges d s) l h t" "is_range (merge_ranges s d) l h t"
    by (auto simp: is_range_def wf_range_def mr_hi_def)
qed

lemma retypeI:
  assumes "l < h" "chain l Q h" "chain l P h" "l \<le> lo" "hi \<le> h"
    "\<And>a. addr_type P a = (if lo \<le> a \<and> a < hi then Some t else addr_type Q a)"
    "within_one P lo hi t"
    "\<And>l h u. l < h \<Longrightarrow> within_one Q l h u \<Longrightarrow> h \<le> lo \<or> hi \<le> l \<Longrightarrow> within_one P l h u"
  shows "retype Q P lo hi t"
  using assms unfolding retype_def by blast


lemma retype_middle:
  "is_range cur l h t' \<Longrightarrow> is_range new lo hi t \<Longrightarrow> is_range lhs l lo t' \<Longrightarrow> is_range rhs hi h t' \<Longrightarrow>
     retype [cur] [lhs, new, rhs] lo hi t"
  using is_range_less [of lhs l lo t'] is_range_less [of new lo hi t] is_range_less [of rhs hi h t']
  by (intro retypeI [of l h]) (auto simp: is_range_def)

lemma retype_left:
  "is_range cur lo h t' \<Longrightarrow> is_range new lo hi t \<Longrightarrow> is_range rhs hi h t' \<Longrightarrow>
     retype [cur] [new, rhs] lo hi t"
  using is_range_less [of new lo hi t] is_range_less [of rhs hi h t']
  by (intro retypeI [of lo h]) (auto simp: is_range_def)

lemma retype_left_merged:
  "is_range b k lo t \<Longrightarrow> is_range cur lo h t' \<Longrightarrow> is_range m k hi t \<Longrightarrow> is_range rhs hi h t' \<Longrightarrow>
     lo < hi \<Longrightarrow> retype [b, cur] [m, rhs] lo hi t"
  using is_range_less [of b k lo t] is_range_less [of rhs hi h t']
  by (intro retypeI [of k h]) (auto simp: is_range_def)

lemma retype_right:
  "is_range cur l hi t' \<Longrightarrow> is_range new lo hi t \<Longrightarrow> is_range lhs l lo t' \<Longrightarrow>
     retype [cur] [lhs, new] lo hi t"
  using is_range_less [of new lo hi t] is_range_less [of lhs l lo t']
  by (intro retypeI [of l hi]) (auto simp: is_range_def)

lemma retype_right_merged:
  "is_range c hi k t \<Longrightarrow> is_range cur l hi t' \<Longrightarrow> is_range m lo k t \<Longrightarrow> is_range lhs l lo t' \<Longrightarrow>
     lo < hi \<Longrightarrow> retype [cur, c] [lhs, m] lo hi t"
  using is_range_less [of c hi k t] is_range_less [of lhs l lo t']
  by (intro retypeI [of l k]) (auto simp: is_range_def)

lemma retype_all:
  "is_range cur lo hi t' \<Longrightarrow> is_range n lo hi t \<Longrightarrow> retype [cur] [n] lo hi t"
  using is_range_less [of n lo hi t]
  by (intro retypeI [of lo hi]) (auto simp: is_range_def)

lemma retype_all_before:
  "is_range b k lo t \<Longrightarrow> is_range cur lo hi t' \<Longrightarrow> is_range m k hi t \<Longrightarrow> retype [b, cur] [m] lo hi t"
  using is_range_less [of b k lo t] is_range_less [of cur lo hi t']
  by (intro retypeI [of k hi]) (auto simp: is_range_def)

lemma retype_all_after:
  "is_range c hi k t \<Longrightarrow> is_range cur lo hi t' \<Longrightarrow> is_range m lo k t \<Longrightarrow> retype [cur, c] [m] lo hi t"
  using is_range_less [of c hi k t] is_range_less [of cur lo hi t']
  by (intro retypeI [of lo k]) (auto simp: is_range_def)

lemma retype_all_both:
  "is_range b k lo t \<Longrightarrow> is_range cur lo hi t' \<Longrightarrow> is_range c hi k' t \<Longrightarrow> is_range m k k' t \<Longrightarrow>
     retype [b, cur, c] [m] lo hi t"
  using is_range_less [of b k lo t] is_range_less [of cur lo hi t'] is_range_less [of c hi k' t]
  by (intro retypeI [of k k']) (auto simp: is_range_def)

text \<open>The pieces that are left of the range allocated from.\<close>

lemma piece_is_range:
  assumes "unat a = lo" "unat n = hi - lo" "lo < hi" "hi < 2 ^ 64" "page dvd lo" "page dvd hi"
    "t = MEMORY_FREE \<or> t = MEMORY_ALLOCATED"
  shows "is_range \<lparr>physical_address = a, size_and_type = MR_ENCODE n t\<rparr> lo hi t"
proof -
  have d: "page dvd hi - lo"
    using assms by (simp add: dvd_diff_nat)
  then have "even (unat n)"
    using assms(2) by (metis dvd_trans even_numeral)
  note e = encoded_range [OF this assms(7)]
  show ?thesis
    using assms d by (simp add: is_range_def wf_range_def mr_hi_def e)
qed

end
