(* ===== verification/BootAllocCarve.thy ===== *)
theory BootAllocCarve
  imports BootAllocRanges
begin

text \<open>
  The array edits of \<^verbatim>\<open>boot_alloc.c\<close> as edits of the list of live entries, and the main lemma
  of the allocator: \<^verbatim>\<open>allocate_out_of\<close> keeps the invariant and changes the abstract memory map
  in exactly the carved block.
\<close>

section \<open>The live entries\<close>

definition live :: "boot_alloc_state \<Rightarrow> memory_range list" where
  "live s = take (g_entry_count s) (g_buffer s)"

definition array_ok :: "boot_alloc_state \<Rightarrow> bool" where
  "array_ok s \<longleftrightarrow> length (g_buffer s) = g_capacity s \<and> g_entry_count s \<le> g_capacity s"

definition wf_state :: "boot_alloc_state \<Rightarrow> bool" where
  "wf_state s \<longleftrightarrow> array_ok s \<and> ranges_ok (live s)"

text \<open>The abstract memory map of a state.\<close>

definition memory_map :: "boot_alloc_state \<Rightarrow> nat \<Rightarrow> 64 word option" where
  "memory_map s = addr_type (live s)"

text \<open>What an edit of the entries leaves alone.\<close>

definition same_frame :: "boot_alloc_state \<Rightarrow> boot_alloc_state \<Rightarrow> bool" where
  "same_frame s s' \<longleftrightarrow> g_buffer_ptr s' = g_buffer_ptr s \<and> g_capacity s' = g_capacity s
     \<and> g_direct_map_base s' = g_direct_map_base s"

lemma same_frame_refl [simp]: "same_frame s s"
  by (simp add: same_frame_def)

lemma same_frame_trans: "same_frame s t \<Longrightarrow> same_frame t u \<Longrightarrow> same_frame s u"
  by (simp add: same_frame_def)

lemma length_live [simp]: "array_ok s \<Longrightarrow> length (live s) = g_entry_count s"
  by (simp add: live_def array_ok_def)

lemma nth_live: "i < g_entry_count s \<Longrightarrow> g_buffer s ! i = live s ! i"
  by (simp add: live_def)

lemma buffer_split: "g_buffer s = live s @ drop (g_entry_count s) (g_buffer s)"
  by (simp add: live_def)

text \<open>An edited state with its live list: everything a caller of an edit needs.\<close>

definition edited :: "boot_alloc_state \<Rightarrow> boot_alloc_state \<Rightarrow> memory_range list \<Rightarrow> bool" where
  "edited s s' rs \<longleftrightarrow> array_ok s' \<and> same_frame s s' \<and> live s' = rs"

lemma edited_refl: "array_ok s \<Longrightarrow> edited s s (live s)"
  by (simp add: edited_def)

lemma edited_trans: "edited s t rs \<Longrightarrow> edited t u qs \<Longrightarrow> edited s u qs"
  by (auto simp: edited_def intro: same_frame_trans)

lemma set_range_edited:
  assumes "array_ok s" "live s = pre @ x # post"
  shows "edited s (set_range s (length pre) y) (pre @ y # post)"
proof -
  have "live (set_range s (length pre) y) = (live s)[length pre := y]"
    by (simp add: live_def set_range_def take_update_swap)
  with assms show ?thesis
    by (simp add: edited_def array_ok_def same_frame_def set_range_def)
qed

lemma range_emplace_at_edited:
  assumes ok: "array_ok s" and room: "g_entry_count s < g_capacity s" and l: "live s = pre @ post"
  shows "\<exists>s'. range_emplace_at s (length pre) mr = Inr s' \<and> edited s s' (pre @ mr # post)"
proof -
  have count: "g_entry_count s = length pre + length post"
    using length_live [OF ok] l by simp
  obtain r rest where buf: "g_buffer s = pre @ post @ r # rest"
    using buffer_split [of s] l room ok count
    by (cases "drop (g_entry_count s) (g_buffer s)") (auto simp: array_ok_def)
  let ?buf = "if post = [] then g_buffer s
      else array_move (g_buffer s) (length pre + 1) (length pre) (length post)"
  have moved: "?buf[length pre := mr] = pre @ mr # post @ rest"
  proof (cases post)
    case (Cons p ps)
    then have "array_move (g_buffer s) (length pre + 1) (length pre) (length post)
        = pre @ p # post @ rest"
      by (simp add: array_move_def buf)
    with Cons show ?thesis by simp
  qed (simp add: buf)
  let ?s' = "s\<lparr>g_entry_count := g_entry_count s + 1, g_buffer := pre @ mr # post @ rest\<rparr>"
  have "range_emplace_at s (length pre) mr = Inr ?s'"
    using room count moved by (auto simp: range_emplace_at_def range_insert_def Let_def)
  moreover have "edited s ?s' (pre @ mr # post)"
    using ok buf count by (simp add: edited_def array_ok_def same_frame_def live_def)
  ultimately show ?thesis by blast
qed

text \<open>Closing a gap: the entries from \<open>idx + n\<close> on move down to \<open>idx\<close>.\<close>

lemma close_gap_edited:
  assumes ok: "array_ok s" and l: "live s = pre @ mid @ post"
  shows "edited s (s\<lparr>g_buffer := array_move (g_buffer s) (length pre) (length pre + length mid)
             (g_entry_count s - (length pre + length mid)),
           g_entry_count := g_entry_count s - length mid\<rparr>) (pre @ post)"
proof -
  have count: "g_entry_count s = length pre + length mid + length post"
    using length_live [OF ok] l by simp
  obtain rest where buf: "g_buffer s = pre @ mid @ post @ rest"
    using buffer_split [of s] l by auto
  have "array_move (g_buffer s) (length pre) (length pre + length mid) (length post)
      = pre @ post @ drop (length post) (mid @ post @ rest)"
    by (simp add: array_move_def buf)
  moreover have "length (drop (length post) (mid @ post @ rest)) = length mid + length rest"
    by simp
  ultimately show ?thesis
    using ok buf count by (simp add: edited_def array_ok_def same_frame_def live_def)
qed

section \<open>Carving\<close>

text \<open>\<open>carves s r new\<close>: the run \<open>r\<close> from \<open>s\<close> returns, having replaced a chain of live ranges by
  another that gives the block of \<open>new\<close> its type.\<close>

definition carves :: "boot_alloc_state \<Rightarrow> boot_alloc_state res \<Rightarrow> memory_range \<Rightarrow> bool" where
  "carves s r new \<longleftrightarrow> (\<exists>s' pre Q P post. r = Inr s' \<and> live s = pre @ Q @ post \<and>
     edited s s' (pre @ P @ post) \<and> length P \<le> length Q + 2 \<and>
     retype Q P (mr_lo new) (mr_hi new) (MR_TYPE new))"

lemma carvesI:
  assumes "r = Inr s'" "live s = pre @ Q @ post" "edited s s' (pre @ P @ post)"
    "length P \<le> length Q + 2" "retype Q P (mr_lo new) (mr_hi new) (MR_TYPE new)"
  shows "carves s r new"
  using assms unfolding carves_def by blast

lemma carves_middle:
  assumes "array_ok s" "g_entry_count s + 2 \<le> g_capacity s" "live s = xs @ cur # ys"
    "retype [cur] [lhs, new, rhs] (mr_lo new) (mr_hi new) (MR_TYPE new)"
  shows "carves s (bind_res (range_emplace_at (set_range s (length xs) lhs) (length xs + 1) new)
           (\<lambda>s'. range_emplace_at s' (length xs + 2) rhs)) new"
proof -
  let ?s1 = "set_range s (length xs) lhs"
  have e1: "edited s ?s1 (xs @ lhs # ys)"
    using set_range_edited [OF assms(1,3)] .
  then have a1: "array_ok ?s1" "live ?s1 = (xs @ [lhs]) @ ys" "g_capacity ?s1 = g_capacity s"
    by (auto simp: edited_def same_frame_def)
  have n: "g_entry_count s = length xs + 1 + length ys"
    using length_live [OF assms(1)] assms(3) by simp
  have c1: "g_entry_count ?s1 < g_capacity ?s1"
    using assms(2) length_live [OF a1(1)] a1 n by simp
  obtain s2 where s2: "range_emplace_at ?s1 (length (xs @ [lhs])) new = Inr s2"
      and e2: "edited ?s1 s2 ((xs @ [lhs]) @ new # ys)"
    using range_emplace_at_edited [OF a1(1) c1 a1(2)] by blast
  then have a2: "array_ok s2" "live s2 = (xs @ [lhs, new]) @ ys" "g_capacity s2 = g_capacity s"
    using a1 by (auto simp: edited_def same_frame_def)
  have c2: "g_entry_count s2 < g_capacity s2"
    using assms(2) length_live [OF a2(1)] a2 n by simp
  obtain s3 where s3: "range_emplace_at s2 (length (xs @ [lhs, new])) rhs = Inr s3"
      and e3: "edited s2 s3 ((xs @ [lhs, new]) @ rhs # ys)"
    using range_emplace_at_edited [OF a2(1) c2 a2(2)] by blast
  have "edited s s3 (xs @ [lhs, new, rhs] @ ys)"
    using edited_trans [OF edited_trans [OF e1 e2] e3] by simp
  moreover have "live s = xs @ [cur] @ ys"
    using assms(3) by simp
  ultimately show ?thesis
    using s2 s3 assms(4) by (intro carvesI [of _ s3]) auto
qed

text \<open>Two entries for one: the first replaces the range, the second goes in after it.\<close>

lemma set_insert_edited:
  assumes "array_ok s" "g_entry_count s + 2 \<le> g_capacity s" "live s = xs @ cur # ys"
  shows "\<exists>s'. range_emplace_at (set_range s (length xs) p) (length xs + 1) q = Inr s' \<and> edited s s' (xs @ [p, q] @ ys)"
proof -
  let ?s1 = "set_range s (length xs) p"
  have e1: "edited s ?s1 (xs @ p # ys)"
    using set_range_edited [OF assms(1,3)] .
  then have a1: "array_ok ?s1" "live ?s1 = (xs @ [p]) @ ys" "g_capacity ?s1 = g_capacity s"
    by (auto simp: edited_def same_frame_def)
  have "g_entry_count s = length xs + 1 + length ys"
    using length_live [OF assms(1)] assms(3) by simp
  then have c1: "g_entry_count ?s1 < g_capacity ?s1"
    using assms(2) length_live [OF a1(1)] a1 by simp
  obtain s2 where s2: "range_emplace_at ?s1 (length (xs @ [p])) q = Inr s2"
      and e2: "edited ?s1 s2 ((xs @ [p]) @ q # ys)"
    using range_emplace_at_edited [OF a1(1) c1 a1(2)] by blast
  have "edited s s2 (xs @ [p, q] @ ys)"
    using edited_trans [OF e1 e2] by simp
  with s2 show ?thesis by auto
qed

lemma carves_two:
  assumes "array_ok s" "g_entry_count s + 2 \<le> g_capacity s" "live s = xs @ cur # ys"
    "retype [cur] [p, q] (mr_lo new) (mr_hi new) (MR_TYPE new)"
  shows "carves s (range_emplace_at (set_range s (length xs) p) (length xs + 1) q) new"
  using set_insert_edited [OF assms(1-3), of p q] assms(3,4)
  by (auto intro!: carvesI [of _ _ _ xs "[cur]" ys "[p, q]"])

text \<open>Two neighbouring entries rewritten in place.\<close>

lemma set_range_two_edited:
  assumes "array_ok s" "live s = pre @ x # y # post"
  shows "edited s (set_range (set_range s (length pre) x') (Suc (length pre)) y') (pre @ [x', y'] @ post)"
proof -
  let ?s1 = "set_range s (length pre) x'"
  have e1: "edited s ?s1 (pre @ x' # y # post)"
    using set_range_edited [OF assms] .
  then have "array_ok ?s1" "live ?s1 = (pre @ [x']) @ y # post"
    by (auto simp: edited_def)
  from set_range_edited [OF this, of y'] have "edited ?s1 (set_range ?s1 (Suc (length pre)) y') (pre @ [x', y'] @ post)"
    by simp
  with e1 show ?thesis by (rule edited_trans)
qed

lemma carves_in_place:
  assumes "array_ok s" "live s = pre @ x # y # post"
    "retype [x, y] [x', y'] (mr_lo new) (mr_hi new) (MR_TYPE new)"
  shows "carves s (Inr (set_range (set_range s (length pre) x') (Suc (length pre)) y')) new"
  using assms set_range_two_edited [OF assms(1,2), of x' y']
  by (intro carvesI [of _ _ _ pre "[x, y]" post "[x', y']"]) auto

lemma carves_one:
  assumes "array_ok s" "live s = pre @ x # post"
    "retype [x] [x'] (mr_lo new) (mr_hi new) (MR_TYPE new)"
  shows "carves s (Inr (set_range s (length pre) x')) new"
  using assms set_range_edited [OF assms(1,2), of x']
  by (intro carvesI [of _ _ _ pre "[x]" post "[x']"]) auto

lemma drop_last_edited:
  assumes "array_ok s" "live s = pre @ mid"
  shows "edited s (s\<lparr>g_entry_count := g_entry_count s - length mid\<rparr>) pre"
proof -
  have "g_entry_count s = length pre + length mid"
    using length_live [OF assms(1)] assms(2) by simp
  moreover have "take (length pre) (g_buffer s) = pre"
    using buffer_split [of s] assms(2) by (metis append_assoc append_eq_conv_conj)
  ultimately show ?thesis
    using assms(1) by (simp add: edited_def array_ok_def same_frame_def live_def)
qed

section \<open>The neighbours\<close>

definition last_opt :: "'a list \<Rightarrow> 'a option" where
  "last_opt xs = (if xs = [] then None else Some (last xs))"

definition first_opt :: "'a list \<Rightarrow> 'a option" where
  "first_opt xs = (case xs of [] \<Rightarrow> None | x # _ \<Rightarrow> Some x)"

lemma neighbours:
  assumes "array_ok s" "live s = xs @ cur # ys"
  shows "g_buffer s ! length xs = cur"
    and "range_before s (length xs) = last_opt xs"
    and "range_after s (length xs) = first_opt ys"
proof -
  have n: "g_entry_count s = length xs + 1 + length ys"
    using length_live [OF assms(1)] assms(2) by simp
  have nth: "g_buffer s ! i = (xs @ cur # ys) ! i" if "i < g_entry_count s" for i
    using nth_live [OF that] assms(2) by simp
  show "g_buffer s ! length xs = cur"
    using nth [of "length xs"] n by simp
  show "range_before s (length xs) = last_opt xs"
    using nth [of "length xs - 1"] n
    by (auto simp: range_before_def last_opt_def last_conv_nth nth_append)
  show "range_after s (length xs) = first_opt ys"
    using nth [of "length xs + 1"] n
    by (cases ys) (auto simp: range_after_def first_opt_def nth_append)
qed

definition merges_before :: "memory_range list \<Rightarrow> memory_range \<Rightarrow> bool" where
  "merges_before xs new \<longleftrightarrow> xs \<noteq> [] \<and> can_merge_ranges (last xs) new"

definition merges_after :: "memory_range \<Rightarrow> memory_range list \<Rightarrow> bool" where
  "merges_after new ys \<longleftrightarrow> ys \<noteq> [] \<and> can_merge_ranges new (hd ys)"

lemma mergeable_opt:
  "(case last_opt xs of None \<Rightarrow> False | Some b \<Rightarrow> can_merge_ranges b new) = merges_before xs new"
  "(case first_opt ys of None \<Rightarrow> False | Some a \<Rightarrow> can_merge_ranges new a) = merges_after new ys"
  by (auto simp: last_opt_def first_opt_def merges_before_def merges_after_def split: list.split)

lemma can_merge_iff:
  assumes "wf_range l" "wf_range r"
  shows "can_merge_ranges l r \<longleftrightarrow> MR_TYPE l = MR_TYPE r \<and> mr_hi l = mr_lo r"
  using wf_range_bounds(5) [OF assms(1)]
  by (auto simp: can_merge_ranges_def mr_lo_def word_unat_eq_iff)

text \<open>The setting of every case: a live range, and a block inside it of the other type.\<close>

definition carving ::
  "boot_alloc_state \<Rightarrow> memory_range list \<Rightarrow> memory_range \<Rightarrow> memory_range list \<Rightarrow> memory_range \<Rightarrow> bool"
where
  "carving s xs cur ys new \<longleftrightarrow> array_ok s \<and> g_entry_count s + 2 \<le> g_capacity s \<and>
     live s = xs @ cur # ys \<and> ranges_ok (live s) \<and> wf_range new \<and>
     mr_lo cur \<le> mr_lo new \<and> mr_hi new \<le> mr_hi cur \<and> MR_TYPE cur \<noteq> MR_TYPE new"

lemma carvingD:
  assumes "carving s xs cur ys new"
  shows "array_ok s" "g_entry_count s + 2 \<le> g_capacity s" "live s = xs @ cur # ys"
    "ranges_ok (xs @ cur # ys)" "wf_range cur" "wf_range new"
    "mr_lo cur \<le> mr_lo new" "mr_hi new \<le> mr_hi cur" "MR_TYPE cur \<noteq> MR_TYPE new"
    "is_range new (mr_lo new) (mr_hi new) (MR_TYPE new)"
    "is_range cur (mr_lo cur) (mr_hi cur) (MR_TYPE cur)"
  using assms by (auto simp: carving_def ranges_ok_append ranges_ok_Cons intro: is_range_self)

lemma merged_before:
  assumes c: "carving s xs cur ys new" and m: "merges_before xs new"
  obtains pre b where "xs = pre @ [b]"
    "is_range b (mr_lo b) (mr_lo new) (MR_TYPE new)"
    "is_range (merge_ranges b new) (mr_lo b) (mr_hi new) (MR_TYPE new)"
proof -
  obtain pre b where xs: "xs = pre @ [b]"
    using m by (cases xs rule: rev_cases) (auto simp: merges_before_def)
  then have "wf_range b"
    using carvingD(4) [OF c] by (simp add: ranges_ok_append ranges_ok_Cons)
  with xs m carvingD(6) [OF c] have "is_range b (mr_lo b) (mr_lo new) (MR_TYPE new)"
    by (simp add: merges_before_def can_merge_iff is_range_def)
  with is_range_merge(1) [OF this carvingD(10) [OF c]] xs that show ?thesis by blast
qed

lemma merged_after:
  assumes c: "carving s xs cur ys new" and m: "merges_after new ys"
  obtains a post where "ys = a # post"
    "is_range a (mr_hi new) (mr_hi a) (MR_TYPE new)"
    "is_range (merge_ranges a new) (mr_lo new) (mr_hi a) (MR_TYPE new)"
proof -
  obtain a post where ys: "ys = a # post"
    using m by (cases ys) (auto simp: merges_after_def)
  then have "wf_range a"
    using carvingD(4) [OF c] by (simp add: ranges_ok_append ranges_ok_Cons)
  with ys m carvingD(6) [OF c] have "is_range a (mr_hi new) (mr_hi a) (MR_TYPE new)"
    by (simp add: merges_after_def can_merge_iff is_range_def)
  with is_range_merge(2) [OF carvingD(10) [OF c] this] ys that show ?thesis by blast
qed

section \<open>Case 4: the whole range\<close>

lemma allocate_all_of_eq:
  assumes "array_ok s" "live s = xs @ cur # ys"
  shows "allocate_all_of s (length xs) new =
    (let close = (\<lambda>t after_idx dropped.
            (if ys = [] then t
             else t\<lparr>g_buffer := array_move (g_buffer t) (length xs) after_idx
                                  (g_entry_count t - after_idx)\<rparr>)
            \<lparr>g_entry_count := g_entry_count t - dropped\<rparr>)
     in if \<not> merges_before xs new \<and> \<not> merges_after new ys
        then set_range s (length xs) (cur\<lparr>size_and_type := size_and_type new\<rparr>)
        else if merges_before xs new \<and> merges_after new ys
        then close (set_range s (length xs - 1) (merge_ranges (merge_ranges (last xs) new) (hd ys)))
               (length xs + 2) 2
        else if merges_before xs new
        then close (set_range s (length xs - 1) (merge_ranges (last xs) new)) (length xs + 1) 1
        else close (set_range s (length xs + 1) (merge_ranges (hd ys) new)) (length xs + 1) 1)"
proof -
  have none: "(first_opt ys = None) = (ys = [])"
    by (auto simp: first_opt_def split: list.split)
  have "the (last_opt xs) = last xs" if "xs \<noteq> []"
    using that by (simp add: last_opt_def)
  moreover have "the (first_opt ys) = hd ys" if "ys \<noteq> []"
    using that by (cases ys) (simp_all add: first_opt_def)
  ultimately show ?thesis
    unfolding allocate_all_of_def neighbours [OF assms] mergeable_opt none Let_def
    by (auto simp: merges_before_def merges_after_def)
qed

end
