(* ===== verification/BootAllocCases.thy ===== *)
theory BootAllocCases
  imports BootAllocCarve
begin

text \<open>
  The four cases of \<^verbatim>\<open>allocate_out_of\<close> (with their sub-cases a to d): whatever the neighbours are,
  the run returns and carves the block out. \<open>carves_out_of\<close> is the lemma the rest uses.
\<close>

lemma mr_lo_inject: "mr_lo r = mr_lo q \<longleftrightarrow> physical_address r = physical_address q"
  by (simp add: mr_lo_def word_unat_eq_iff)

lemma carves_drop_one:
  assumes "array_ok s" "live s = pre @ x # cur # ys"
    "retype [x, cur] [m] (mr_lo new) (mr_hi new) (MR_TYPE new)"
  shows "carves s (Inr (let t = set_range s (length pre) m in
      (if ys = [] then t
       else t\<lparr>g_buffer := array_move (g_buffer t) (Suc (length pre)) (Suc (Suc (length pre)))
               (g_entry_count t - Suc (Suc (length pre)))\<rparr>)
      \<lparr>g_entry_count := g_entry_count t - 1\<rparr>)) new"
proof -
  let ?t = "set_range s (length pre) m"
  have e1: "edited s ?t (pre @ m # cur # ys)"
    using set_range_edited [OF assms(1,2)] .
  then have a: "array_ok ?t" "live ?t = (pre @ [m]) @ [cur] @ ys"
    by (auto simp: edited_def)
  show ?thesis
  proof (cases "ys = []")
    case True
    with drop_last_edited [OF a(1), of "pre @ [m]" "[cur]"] a
    have "edited ?t (?t\<lparr>g_entry_count := g_entry_count ?t - 1\<rparr>) (pre @ [m])"
      by simp
    from edited_trans [OF e1 this] True assms show ?thesis
      by (intro carvesI [of _ _ _ pre "[x, cur]" ys "[m]"]) (auto simp: Let_def)
  next
    case False
    from edited_trans [OF e1 close_gap_edited [OF a]] False assms show ?thesis
      by (intro carvesI [of _ _ _ pre "[x, cur]" ys "[m]"]) (auto simp: Let_def)
  qed
qed

lemma carves_drop_current:
  assumes "array_ok s" "live s = xs @ cur # c # post"
    "retype [cur, c] [m] (mr_lo new) (mr_hi new) (MR_TYPE new)"
  shows "carves s (Inr (let t = set_range s (Suc (length xs)) m in
      t\<lparr>g_buffer := array_move (g_buffer t) (length xs) (Suc (length xs))
               (g_entry_count t - Suc (length xs)),
        g_entry_count := g_entry_count t - 1\<rparr>)) new"
proof -
  let ?t = "set_range s (Suc (length xs)) m"
  have l: "live s = (xs @ [cur]) @ c # post"
    using assms(2) by simp
  have e1: "edited s ?t ((xs @ [cur]) @ m # post)"
    using set_range_edited [OF assms(1) l, of m] by simp
  then have a: "array_ok ?t" "live ?t = xs @ [cur] @ (m # post)"
    by (auto simp: edited_def)
  from edited_trans [OF e1 close_gap_edited [OF a]] assms show ?thesis
    by (intro carvesI [of _ _ _ xs "[cur, c]" post "[m]"]) (auto simp: Let_def)
qed

lemma carves_drop_both:
  assumes "array_ok s" "live s = pre @ b # cur # c # post"
    "retype [b, cur, c] [m] (mr_lo new) (mr_hi new) (MR_TYPE new)"
  shows "carves s (Inr (let t = set_range s (length pre) m in
      t\<lparr>g_buffer := array_move (g_buffer t) (Suc (length pre)) (Suc (length pre) + 2)
               (g_entry_count t - (Suc (length pre) + 2)),
        g_entry_count := g_entry_count t - 2\<rparr>)) new"
proof -
  let ?t = "set_range s (length pre) m"
  have e1: "edited s ?t (pre @ m # cur # c # post)"
    using set_range_edited [OF assms(1,2)] .
  then have a: "array_ok ?t" "live ?t = (pre @ [m]) @ [cur, c] @ post"
    by (auto simp: edited_def)
  from edited_trans [OF e1 close_gap_edited [OF a]] assms show ?thesis
    by (intro carvesI [of _ _ _ pre "[b, cur, c]" post "[m]"]) (auto simp: Let_def numeral_2_eq_2)
qed

lemma carves_all_of:
  assumes c: "carving s xs cur ys new" and lo: "mr_lo cur = mr_lo new" and hi: "mr_hi cur = mr_hi new"
  shows "carves s (Inr (allocate_all_of s (length xs) new)) new"
proof -
  note d = carvingD [OF c]
  note eq = allocate_all_of_eq [OF d(1,3), of new]
  have cur: "is_range cur (mr_lo new) (mr_hi new) (MR_TYPE cur)"
    using d(11) lo hi by simp
  consider (a) "\<not> merges_before xs new" "\<not> merges_after new ys"
    | (b) "merges_before xs new" "merges_after new ys"
    | (c) "merges_before xs new" "\<not> merges_after new ys"
    | (d) "\<not> merges_before xs new" "merges_after new ys" by blast
  then show ?thesis
  proof cases
    case a
    have "cur\<lparr>size_and_type := size_and_type new\<rparr> = new"
      using lo by (simp add: mr_lo_inject)
    with a eq carves_one [OF d(1,3) retype_all [OF cur d(10)]] show ?thesis
      by simp
  next
    case b
    obtain pre x where x: "xs = pre @ [x]" "is_range x (mr_lo x) (mr_lo new) (MR_TYPE new)"
      "is_range (merge_ranges x new) (mr_lo x) (mr_hi new) (MR_TYPE new)"
      using merged_before [OF c b(1)] by blast
    obtain y post where y: "ys = y # post" "is_range y (mr_hi new) (mr_hi y) (MR_TYPE new)"
      using merged_after [OF c b(2)] by blast
    have "retype [x, cur, y] [merge_ranges (merge_ranges x new) y] (mr_lo new) (mr_hi new) (MR_TYPE new)"
      using retype_all_both [OF x(2) cur y(2) is_range_merge(1) [OF x(3) y(2)]] .
    with b eq x y d carves_drop_both [of s pre x cur y post _ new] show ?thesis
      by (simp add: Let_def)
  next
    case c': c
    obtain pre x where x: "xs = pre @ [x]" "is_range x (mr_lo x) (mr_lo new) (MR_TYPE new)"
      "is_range (merge_ranges x new) (mr_lo x) (mr_hi new) (MR_TYPE new)"
      using merged_before [OF c c'(1)] by blast
    with c' eq d carves_drop_one [of s pre x cur ys, OF _ _ retype_all_before [OF x(2) cur x(3)]]
    show ?thesis
      by (cases "ys = []") (simp_all add: Let_def)
  next
    case d': d
    obtain y post where y: "ys = y # post" "is_range y (mr_hi new) (mr_hi y) (MR_TYPE new)"
      "is_range (merge_ranges y new) (mr_lo new) (mr_hi y) (MR_TYPE new)"
      using merged_after [OF c d'(2)] by blast
    with d' eq d carves_drop_current [of s xs cur y post, OF _ _ retype_all_after [OF y(2) cur y(3)]]
    show ?thesis
      by (simp add: Let_def)
  qed
qed

text \<open>The pieces to the left and to the right of the block.\<close>

abbreviation lhs_piece :: "memory_range \<Rightarrow> memory_range \<Rightarrow> memory_range" where
  "lhs_piece cur new \<equiv> \<lparr>physical_address = physical_address cur,
     size_and_type = MR_ENCODE (physical_address new - physical_address cur) (MR_TYPE cur)\<rparr>"

abbreviation rhs_piece :: "memory_range \<Rightarrow> memory_range \<Rightarrow> memory_range" where
  "rhs_piece cur new \<equiv> \<lparr>physical_address = mr_end new,
     size_and_type = MR_ENCODE (mr_end cur - mr_end new) (MR_TYPE cur)\<rparr>"

lemma pieces:
  assumes c: "carving s xs cur ys new"
  shows "\<not> physical_address new < physical_address cur" "\<not> mr_end cur < mr_end new"
    "MR_SIZE (lhs_piece cur new) = 0 \<longleftrightarrow> mr_lo cur = mr_lo new"
    "MR_SIZE (rhs_piece cur new) = 0 \<longleftrightarrow> mr_hi cur = mr_hi new"
    "mr_lo cur \<noteq> mr_lo new \<Longrightarrow> is_range (lhs_piece cur new) (mr_lo cur) (mr_lo new) (MR_TYPE cur)"
    "mr_hi cur \<noteq> mr_hi new \<Longrightarrow> is_range (rhs_piece cur new) (mr_hi new) (mr_hi cur) (MR_TYPE cur)"
proof -
  note d = carvingD [OF c]
  note b = wf_range_bounds [OF d(5)] wf_range_bounds [OF d(6)]
  have le: "physical_address cur \<le> physical_address new" "mr_end new \<le> mr_end cur"
    using d(7,8) b by (simp_all add: word_le_nat_alt mr_lo_def)
  then show "\<not> physical_address new < physical_address cur" "\<not> mr_end cur < mr_end new"
    by simp_all
  have l: "unat (physical_address new - physical_address cur) = mr_lo new - mr_lo cur"
    using le by (simp add: unat_diff_no_wrap word_le_nat_alt mr_lo_def)
  have r: "unat (mr_end cur - mr_end new) = mr_hi cur - mr_hi new"
    using le b by (simp add: unat_diff_no_wrap word_le_nat_alt)
  have t: "MR_TYPE cur = MEMORY_FREE \<or> MR_TYPE cur = MEMORY_ALLOCATED"
    by (rule MR_TYPE_cases)
  have "even (mr_lo new - mr_lo cur)" "even (mr_hi cur - mr_hi new)"
    using b by (meson dvd_diff_nat dvd_trans even_numeral)+
  with l r have e: "even (unat (physical_address new - physical_address cur))"
      "even (unat (mr_end cur - mr_end new))" by simp_all
  show "MR_SIZE (lhs_piece cur new) = 0 \<longleftrightarrow> mr_lo cur = mr_lo new"
    using e l d(7) by (auto simp: encoded_range [OF _ t] word_unat_eq_iff)
  show "MR_SIZE (rhs_piece cur new) = 0 \<longleftrightarrow> mr_hi cur = mr_hi new"
    using e r d(8) by (auto simp: encoded_range [OF _ t] word_unat_eq_iff)
  show "is_range (lhs_piece cur new) (mr_lo cur) (mr_lo new) (MR_TYPE cur)" if "mr_lo cur \<noteq> mr_lo new"
    using that l d b t by (intro piece_is_range) (simp_all add: mr_lo_def)
  show "is_range (rhs_piece cur new) (mr_hi new) (mr_hi cur) (MR_TYPE cur)" if "mr_hi cur \<noteq> mr_hi new"
    using that r d b t by (intro piece_is_range) simp_all
qed

lemma allocate_out_of_eq:
  assumes c: "carving s xs cur ys new"
  shows "allocate_out_of s (length xs) new =
    (if mr_lo cur \<noteq> mr_lo new \<and> mr_hi cur \<noteq> mr_hi new
     then bind_res (range_emplace_at (set_range s (length xs) (lhs_piece cur new)) (length xs + 1) new)
            (\<lambda>s'. range_emplace_at s' (length xs + 2) (rhs_piece cur new))
     else if mr_lo cur = mr_lo new \<and> mr_hi cur \<noteq> mr_hi new
     then (if merges_before xs new
           then Inr (set_range (set_range s (length xs - 1) (merge_ranges (last xs) new))
                       (length xs) (rhs_piece cur new))
           else range_emplace_at (set_range s (length xs) new) (length xs + 1) (rhs_piece cur new))
     else if mr_lo cur \<noteq> mr_lo new \<and> mr_hi cur = mr_hi new
     then (if merges_after new ys
           then Inr (set_range (set_range s (length xs) (lhs_piece cur new))
                       (length xs + 1) (merge_ranges (hd ys) new))
           else range_emplace_at (set_range s (length xs) (lhs_piece cur new)) (length xs + 1) new)
     else Inr (allocate_all_of s (length xs) new))"
proof -
  note d = carvingD [OF c] and p = pieces [OF c]
  have "the (last_opt xs) = last xs" if "merges_before xs new"
    using that by (simp add: last_opt_def merges_before_def)
  moreover have "the (first_opt ys) = hd ys" if "merges_after new ys"
    using that by (cases ys) (simp_all add: first_opt_def merges_after_def)
  ultimately show ?thesis
    unfolding allocate_out_of_def neighbours [OF d(1,3)] mergeable_opt Let_def p(3,4)
    using p(1,2) d(9) by (simp add: BUG_ON_def)
qed

text \<open>The main lemma: every case carves the block out.\<close>

lemma carves_out_of:
  assumes c: "carving s xs cur ys new"
  shows "carves s (allocate_out_of s (length xs) new) new"
proof -
  note d = carvingD [OF c] and p = pieces [OF c]
  have lt: "mr_lo new < mr_hi new"
    using wf_range_bounds(1) [OF d(6)] .
  consider (mid) "mr_lo cur \<noteq> mr_lo new" "mr_hi cur \<noteq> mr_hi new"
    | (left) "mr_lo cur = mr_lo new" "mr_hi cur \<noteq> mr_hi new"
    | (right) "mr_lo cur \<noteq> mr_lo new" "mr_hi cur = mr_hi new"
    | (all) "mr_lo cur = mr_lo new" "mr_hi cur = mr_hi new" by blast
  then show ?thesis
  proof cases
    case mid
    with carves_middle [OF d(1-3) retype_middle [OF d(11,10) p(5,6)]] allocate_out_of_eq [OF c]
    show ?thesis by simp
  next
    case left
    have cur: "is_range cur (mr_lo new) (mr_hi cur) (MR_TYPE cur)"
      using d(11) left by simp
    show ?thesis
    proof (cases "merges_before xs new")
      case True
      obtain pre x where x: "xs = pre @ [x]" "is_range x (mr_lo x) (mr_lo new) (MR_TYPE new)"
        "is_range (merge_ranges x new) (mr_lo x) (mr_hi new) (MR_TYPE new)"
        using merged_before [OF c True] by blast
      from carves_in_place [of s pre x cur ys, OF _ _ retype_left_merged [OF x(2) cur x(3) p(6) lt]]
        x left True d allocate_out_of_eq [OF c] show ?thesis by simp
    next
      case False
      with carves_two [OF d(1-3) retype_left [OF cur d(10) p(6)]] left allocate_out_of_eq [OF c]
      show ?thesis by simp
    qed
  next
    case right
    have cur: "is_range cur (mr_lo cur) (mr_hi new) (MR_TYPE cur)"
      using d(11) right by simp
    show ?thesis
    proof (cases "merges_after new ys")
      case True
      obtain y post where y: "ys = y # post" "is_range y (mr_hi new) (mr_hi y) (MR_TYPE new)"
        "is_range (merge_ranges y new) (mr_lo new) (mr_hi y) (MR_TYPE new)"
        using merged_after [OF c True] by blast
      from carves_in_place [of s xs cur y post, OF _ _ retype_right_merged [OF y(2) cur y(3) p(5) lt]]
        y right True d allocate_out_of_eq [OF c] show ?thesis by simp
    next
      case False
      with carves_two [OF d(1-3) retype_right [OF cur d(10) p(5)]] right allocate_out_of_eq [OF c]
      show ?thesis by simp
    qed
  next
    case all
    with carves_all_of [OF c all] allocate_out_of_eq [OF c] show ?thesis by simp
  qed
qed

end
