(* ===== verification/BootAllocSpec.thy ===== *)
theory BootAllocSpec
  imports BootAllocCases
begin

text \<open>
  The allocator's operations on well-formed states, one exact specification each: the search for
  an entry, the top-down scan, the allocation at an address, the free. \<open>retyped\<close> says what a
  successful operation does to the abstract memory map, \<open>holds\<close> that a block lies within one
  entry of a type (the unit a free or an allocation at an address works on).
\<close>

section \<open>What a carve does to the state\<close>

definition holds :: "boot_alloc_state \<Rightarrow> nat \<Rightarrow> nat \<Rightarrow> 64 word \<Rightarrow> bool" where
  "holds s lo hi t \<longleftrightarrow> within_one (live s) lo hi t"

definition retyped :: "boot_alloc_state \<Rightarrow> boot_alloc_state \<Rightarrow> nat \<Rightarrow> nat \<Rightarrow> 64 word \<Rightarrow> bool" where
  "retyped s s' lo hi t \<longleftrightarrow> wf_state s' \<and> same_frame s s' \<and> g_entry_count s' \<le> g_entry_count s + 2 \<and>
     memory_map s' = (\<lambda>a. if lo \<le> a \<and> a < hi then Some t else memory_map s a) \<and>
     holds s' lo hi t \<and>
     (\<forall>l h u. l < h \<longrightarrow> holds s l h u \<longrightarrow> h \<le> lo \<or> hi \<le> l \<longrightarrow> holds s' l h u)"

lemma carves_retyped:
  assumes "carves s r new" "wf_state s"
  shows "\<exists>s'. r = Inr s' \<and> retyped s s' (mr_lo new) (mr_hi new) (MR_TYPE new)"
proof -
  from assms(1) obtain s' pre Q P post where r: "r = Inr s'" and l: "live s = pre @ Q @ post"
    and e: "edited s s' (pre @ P @ post)" and n: "length P \<le> length Q + 2"
    and t: "retype Q P (mr_lo new) (mr_hi new) (MR_TYPE new)"
    unfolding carves_def by blast
  have wf: "array_ok s" "ranges_ok (pre @ Q @ post)"
    using assms(2) l by (auto simp: wf_state_def)
  have e': "array_ok s'" "same_frame s s'" "live s' = pre @ P @ post"
    using e by (auto simp: edited_def)
  have "g_entry_count s' \<le> g_entry_count s + 2"
    using length_live [OF wf(1)] length_live [OF e'(1)] l e'(3) n by simp
  with retype_in_context [OF wf(2) t] e' l r show ?thesis
    unfolding retyped_def wf_state_def memory_map_def holds_def by auto
qed

text \<open>A block of pages as a range.\<close>

lemma block_range:
  assumes "unat a = lo" "unat n = len" "page dvd lo" "page dvd len" "0 < len" "lo + len < 2 ^ 64"
    "t = MEMORY_FREE \<or> t = MEMORY_ALLOCATED"
  shows "is_range \<lparr>physical_address = a, size_and_type = MR_ENCODE n t\<rparr> lo (lo + len) t"
  using assms by (intro piece_is_range) (auto intro: dvd_add)

lemma allocate_out_of_retyped:
  assumes wf: "wf_state s" and room: "g_entry_count s + 2 \<le> g_capacity s"
    and i: "i < g_entry_count s" "mr_lo (live s ! i) \<le> lo" "hi \<le> mr_hi (live s ! i)"
      "MR_TYPE (live s ! i) \<noteq> t"
    and new: "is_range new lo hi t"
  shows "\<exists>s'. allocate_out_of s i new = Inr s' \<and> retyped s s' lo hi t"
proof -
  define cur where "cur = live s ! i"
  have len: "length (live s) = g_entry_count s"
    using wf by (simp add: wf_state_def)
  have "carving s (take i (live s)) cur (drop (Suc i) (live s)) new"
    using wf room i new len by (auto simp: carving_def wf_state_def cur_def is_range_def id_take_nth_drop [symmetric])
  from carves_retyped [OF carves_out_of [OF this] wf] i(1) len new show ?thesis
    by (simp add: is_range_def)
qed

section \<open>\<open>find_range\<close>\<close>

definition sorted_addrs :: "memory_range list \<Rightarrow> bool" where
  "sorted_addrs rs \<longleftrightarrow> sorted_wrt (\<lambda>r q. mr_lo r < mr_lo q) rs"

lemma ranges_ok_sorted: "ranges_ok rs \<Longrightarrow> sorted_addrs rs"
  by (induction rs) (force simp: sorted_addrs_def ranges_ok_Cons dest: wf_range_bounds(1))+

lemma sorted_addrs_nth: "sorted_addrs rs \<Longrightarrow> i < j \<Longrightarrow> j < length rs \<Longrightarrow> mr_lo (rs ! i) < mr_lo (rs ! j)"
  by (simp add: sorted_addrs_def sorted_wrt_iff_nth_less)

text \<open>The loop's invariant: entries left of \<open>left\<close> start below the value, those right of \<open>right\<close>
  above it.\<close>

definition bracketed :: "memory_range list \<Rightarrow> nat \<Rightarrow> 64 word \<Rightarrow> int \<Rightarrow> int \<Rightarrow> bool" where
  "bracketed buf n v left right \<longleftrightarrow> 0 \<le> left \<and> right < int n \<and> left \<le> right + 1 \<and>
     (\<forall>i. int i < left \<longrightarrow> mr_lo (buf ! i) < unat v) \<and>
     (\<forall>i. right < int i \<longrightarrow> i < n \<longrightarrow> unat v < mr_lo (buf ! i))"

lemma bracketed_step:
  assumes "sorted_addrs (take n buf)" "n \<le> length buf" "bracketed buf n v left right" "left \<le> right"
    "m = left + (right - left) div 2"
  shows "0 \<le> m" "m < int n"
    "mr_lo (buf ! nat m) < unat v \<Longrightarrow> bracketed buf n v (m + 1) right"
    "unat v < mr_lo (buf ! nat m) \<Longrightarrow> bracketed buf n v left (m - 1)"
proof -
  show m: "0 \<le> m" "m < int n"
    using assms by (auto simp: bracketed_def)
  have le: "left \<le> m" "m \<le> right"
    using assms by auto
  have mono: "mr_lo (buf ! i) < mr_lo (buf ! j)" if "i < j" "j < n" for i j
    using sorted_addrs_nth [OF assms(1) that(1)] that assms(2) by simp
  show "bracketed buf n v (m + 1) right" if v: "mr_lo (buf ! nat m) < unat v"
  proof -
    have "mr_lo (buf ! i) < unat v" if "int i < m + 1" for i
    proof (cases "i = nat m")
      case False
      with that m have "mr_lo (buf ! i) < mr_lo (buf ! nat m)"
        by (intro mono) auto
      with v show ?thesis by simp
    qed (use v in simp)
    with assms(3) m le show ?thesis by (auto simp: bracketed_def)
  qed
  show "bracketed buf n v left (m - 1)" if v: "unat v < mr_lo (buf ! nat m)"
  proof -
    have "unat v < mr_lo (buf ! i)" if "m - 1 < int i" "i < n" for i
    proof (cases "i = nat m")
      case False
      with that m have "mr_lo (buf ! nat m) < mr_lo (buf ! i)"
        by (intro mono) auto
      with v show ?thesis by simp
    qed (use v in simp)
    with assms(3) m le show ?thesis by (auto simp: bracketed_def)
  qed
qed

lemma find_range_loop_correct:
  assumes "sorted_addrs (take n buf)" "n \<le> length buf" "bracketed buf n v left right"
  shows "case find_range_loop buf v left right of
      Inl m \<Rightarrow> 0 \<le> m \<and> m < int n \<and> mr_lo (buf ! nat m) = unat v
    | Inr (l, r) \<Rightarrow> l = r + 1 \<and> bracketed buf n v l r"
  using assms
proof (induction buf v left right rule: find_range_loop.induct)
  case (1 buf v left right)
  show ?case
  proof (cases "left \<le> right")
    case False
    with "1.prems" show ?thesis
      by (auto simp: find_range_loop.simps [of buf v left right] bracketed_def)
  next
    case True
    define m where "m = left + (right - left) div 2"
    note b = bracketed_step [OF "1.prems" True m_def]
    have eq: "find_range_loop buf v left right =
        (if mr_lo (buf ! nat m) < unat v then find_range_loop buf v (m + 1) right
         else if unat v < mr_lo (buf ! nat m) then find_range_loop buf v left (m - 1) else Inl m)"
      using True by (subst find_range_loop.simps) (simp add: Let_def m_def mr_lo_def word_less_nat_alt)
    consider "mr_lo (buf ! nat m) < unat v" | "unat v < mr_lo (buf ! nat m)" | "mr_lo (buf ! nat m) = unat v"
      by linarith
    then show ?thesis
    proof cases
      case 1
      with "1.IH"(1) [OF True m_def refl] "1.prems"(1,2) b(3) eq show ?thesis
        by (simp add: mr_lo_def word_less_nat_alt)
    next
      case 2
      with "1.IH"(2) [OF True m_def refl] "1.prems"(1,2) b(4) eq show ?thesis
        by (simp add: mr_lo_def word_less_nat_alt)
    next
      case 3
      with b eq show ?thesis by simp
    qed
  qed
qed

text \<open>\<open>find_range\<close> on a well-formed state: the entry that holds the address, and, when there is
  none, the first entry above it or nothing.\<close>

definition holds_addr :: "memory_range \<Rightarrow> nat \<Rightarrow> bool" where
  "holds_addr r a \<longleftrightarrow> mr_lo r \<le> a \<and> a < mr_hi r"

lemma find_range_cases:
  assumes wf: "wf_state s"
  obtains (found) i where "i < g_entry_count s" "holds_addr (live s ! i) (unat v)"
      "find_range s v mode = int i"
    | (above) i where "i < g_entry_count s" "\<forall>r\<in>set (live s). \<not> holds_addr r (unat v)"
      "unat v < mr_lo (live s ! i)" "\<forall>j<i. mr_hi (live s ! j) \<le> unat v"
      "find_range s v mode = (if mode = ALLOW_ONE_ABOVE_YES then int i else -1)"
    | (none) "\<forall>r\<in>set (live s). \<not> holds_addr r (unat v)" "\<forall>r\<in>set (live s). mr_hi r \<le> unat v"
      "find_range s v mode = -1"
proof -
  let ?n = "g_entry_count s" and ?b = "g_buffer s"
  have ok: "ranges_ok (live s)" "sorted_addrs (take ?n ?b)" "?n \<le> length ?b" "length (live s) = ?n"
    using wf ranges_ok_sorted by (auto simp: wf_state_def array_ok_def live_def)
  have wfr: "wf_range (live s ! i)" if "i < ?n" for i
    using ok that by (simp add: ranges_ok_def)
  have b0: "bracketed ?b ?n v 0 (int ?n - 1)"
    by (simp add: bracketed_def)
  note loop = find_range_loop_correct [OF ok(2,3) b0]
  show ?thesis
  proof (cases "find_range_loop ?b v 0 (int ?n - 1)")
    case (Inl m)
    with loop have m: "0 \<le> m" "nat m < ?n" "mr_lo (live s ! nat m) = unat v"
      by (auto simp: nth_live)
    with wf_range_bounds(1) [OF wfr, of "nat m"] have "holds_addr (live s ! nat m) (unat v)"
      by (simp add: holds_addr_def)
    with m Inl show ?thesis
      by (intro found [of "nat m"]) (auto simp: find_range_def)
  next
    case (Inr lr)
    then obtain l where lr: "lr = (l, l - 1)" and br: "bracketed ?b ?n v l (l - 1)"
      using loop by (cases lr) auto
    define k where "k = nat l"
    have k: "l = int k" "k \<le> ?n"
      using br by (auto simp: bracketed_def k_def)
    have lower: "mr_lo (live s ! i) < unat v" if "i < k" for i
      using br that k by (auto simp: bracketed_def nth_live)
    have upper: "unat v < mr_lo (live s ! i)" if "k \<le> i" "i < ?n" for i
      using br that k by (auto simp: bracketed_def nth_live)
    have adj: "mr_hi (live s ! i) \<le> mr_lo (live s ! j)" if "i < j" "j < ?n" for i j
      using ok that by (simp add: ranges_ok_def sorted_wrt_iff_nth_less)
    have at: "?b ! nat (l - 1) = live s ! (k - 1)" if "0 < k"
      using k that by (simp add: nth_live nat_diff_distrib)
    show ?thesis
    proof (cases "0 < k \<and> unat v < mr_hi (live s ! (k - 1))")
      case True
      then have "holds_addr (live s ! (k - 1)) (unat v)"
        using lower [of "k - 1"] by (simp add: holds_addr_def)
      moreover have "find_range s v mode = int (k - 1)"
        using Inr lr True at k lower [of "k - 1"] wf_range_bounds(5) [OF wfr, of "k - 1"]
        by (auto simp: find_range_def mr_lo_def word_less_nat_alt)
      ultimately show ?thesis
        using True k by (intro found [of "k - 1"]) auto
    next
      case False
      have below: "mr_hi (live s ! j) \<le> unat v" if "j < k" for j
      proof (cases "j = k - 1")
        case True
        with False that show ?thesis by auto
      next
        case j: False
        with that k have "mr_hi (live s ! j) \<le> mr_lo (live s ! (k - 1))"
          by (intro adj) auto
        with lower [of "k - 1"] that show ?thesis by simp
      qed
      have no: "\<forall>r\<in>set (live s). \<not> holds_addr r (unat v)"
      proof
        fix r assume "r \<in> set (live s)"
        then obtain j where "j < ?n" "r = live s ! j"
          using ok by (metis in_set_conv_nth)
        with below [of j] upper [of j] show "\<not> holds_addr r (unat v)"
          by (cases "j < k") (auto simp: holds_addr_def)
      qed
      have val: "find_range s v mode = (if mode = ALLOW_ONE_ABOVE_YES then (if k = ?n then -1 else int k) else -1)"
        using Inr lr False at k wf_range_bounds(5) [OF wfr, of "k - 1"]
        by (auto simp: find_range_def mr_lo_def word_less_nat_alt)
      show ?thesis
      proof (cases "k = ?n")
        case True
        have "\<forall>r\<in>set (live s). mr_hi r \<le> unat v"
          using below True ok by (metis in_set_conv_nth)
        with no val True show ?thesis by (intro none) auto
      next
        case False
        with no val k upper [of k] below show ?thesis by (intro above [of k]) auto
      qed
    qed
  qed
qed

end
