(* ===== verification/BootAllocOps.thy ===== *)
theory BootAllocOps
  imports BootAllocSpec
begin

text \<open>
  The three operations of the allocator on a well-formed state with room in its array: what the
  top-down scan hands out, when an allocation at an address succeeds, which blocks can be freed.
\<close>

section \<open>Blocks of pages\<close>

text \<open>A request for \<open>n\<close> pages whose size in bytes fits a word.\<close>

definition page_bytes :: "64 word \<Rightarrow> nat" where
  "page_bytes n = unat n * page"

definition sane_pages :: "64 word \<Rightarrow> bool" where
  "sane_pages n \<longleftrightarrow> 0 < unat n \<and> page_bytes n < 2 ^ 64"

lemma unat_page_bytes: "page_bytes n < 2 ^ 64 \<Longrightarrow> unat (n * PAGE_SIZE) = page_bytes n"
  by (simp add: page_bytes_def PAGE_SIZE_def unat_word_ariths)

lemma sane_pagesD:
  assumes "sane_pages n"
  shows "unat (n * PAGE_SIZE) = page_bytes n" "\<not> n * PAGE_SIZE \<le> n" "0 < page_bytes n"
    "page dvd page_bytes n"
proof -
  have n: "0 < unat n" and b: "page_bytes n < 2 ^ 64"
    using assms by (auto simp: sane_pages_def)
  show u: "unat (n * PAGE_SIZE) = page_bytes n"
    using unat_page_bytes [OF b] .
  show "\<not> n * PAGE_SIZE \<le> n"
    using n by (simp add: word_le_nat_alt u) (simp add: page_bytes_def)
  show "0 < page_bytes n" "page dvd page_bytes n"
    using n by (simp_all add: page_bytes_def)
qed

section \<open>The top-down scan\<close>

definition has_pages :: "nat \<Rightarrow> memory_range \<Rightarrow> bool" where
  "has_pages bytes r \<longleftrightarrow> MR_TYPE r = MEMORY_FREE \<and> bytes \<le> mr_len r"

lemma unat_minus_one_64: "unat (- 1 :: 64 word) = 2 ^ 64 - 1"
  by (simp add: unat_uminus)

lemma top_down_loop_spec:
  assumes ok: "\<forall>r\<in>set (take i buf). wf_range r" "i \<le> length buf"
  shows "(\<forall>j<i. \<not> has_pages (unat bytes) (buf ! j)) \<and> top_down_loop buf (- 1) bytes i = (0, 0)
    \<or> (\<exists>j<i. has_pages (unat bytes) (buf ! j) \<and> (\<forall>k. j < k \<longrightarrow> k < i \<longrightarrow> \<not> has_pages (unat bytes) (buf ! k))
          \<and> top_down_loop buf (- 1) bytes i = (j, mr_end (buf ! j)))"
  using ok
proof (induction i)
  case (Suc i)
  let ?r = "buf ! i"
  have wf: "wf_range ?r" "\<forall>r\<in>set (take i buf). wf_range r" "i \<le> length buf"
    using Suc.prems by (auto simp: take_Suc_conv_app_nth)
  note b = wf_range_bounds [OF wf(1)]
  have lim: "\<not> (- 1 :: 64 word) \<le> physical_address ?r"
    using b by (simp add: word_le_nat_alt unat_minus_one_64 mr_lo_def)
  have "mr_end ?r \<le> - 1"
    using b(2) by (simp add: word_le_nat_alt unat_minus_one_64 b(5))
  then have "C_MIN (mr_end ?r) (- 1) = mr_end ?r"
    by (simp add: min_def)
  moreover have "mr_end ?r - physical_address ?r = MR_SIZE ?r"
    by (simp add: mr_end_def)
  ultimately have eq: "top_down_loop buf (- 1) bytes (Suc i) =
      (if has_pages (unat bytes) ?r then (i, mr_end ?r) else top_down_loop buf (- 1) bytes i)"
    using lim by (auto simp: Let_def has_pages_def mr_len_def word_less_nat_alt)
  show ?case
  proof (cases "has_pages (unat bytes) ?r")
    case True
    with eq show ?thesis by (intro disjI2 exI [of _ i]) auto
  next
    case False
    with Suc.IH [OF wf(2,3)] eq show ?thesis
      by (auto simp: less_Suc_eq)
  qed
qed simp

text \<open>The block a top-down allocation hands out: the end of the highest free entry it fits in.\<close>

definition highest_fit :: "boot_alloc_state \<Rightarrow> nat \<Rightarrow> memory_range \<Rightarrow> bool" where
  "highest_fit s bytes r \<longleftrightarrow> r \<in> set (live s) \<and> has_pages bytes r \<and>
     (\<forall>q\<in>set (live s). has_pages bytes q \<longrightarrow> mr_hi q \<le> mr_hi r)"

lemma wf_state_live:
  assumes "wf_state s"
  shows "\<forall>r\<in>set (live s). wf_range r" "length (live s) = g_entry_count s"
    "g_entry_count s \<le> length (g_buffer s)" "take (g_entry_count s) (g_buffer s) = live s"
    "\<And>i j. i < j \<Longrightarrow> j < g_entry_count s \<Longrightarrow> mr_hi (live s ! i) \<le> mr_lo (live s ! j)"
  using assms by (auto simp: wf_state_def ranges_ok_def array_ok_def live_def sorted_wrt_iff_nth_less)

lemma wf_state_hi_mono:
  assumes "wf_state s" "i \<le> j" "j < g_entry_count s"
  shows "mr_hi (live s ! i) \<le> mr_hi (live s ! j)"
proof (cases "i = j")
  case False
  with assms have "mr_hi (live s ! i) \<le> mr_lo (live s ! j)"
    by (intro wf_state_live(5)) auto
  then show ?thesis by (simp add: mr_hi_def)
qed simp

text \<open>The entry the scan picks, the last with enough free pages, and the block at its end.\<close>

lemma boot_alloc_nogrow_picks:
  assumes wf: "wf_state s" and n: "sane_pages n"
  shows "(\<forall>r\<in>set (live s). \<not> has_pages (page_bytes n) r) \<and>
      boot_alloc_nogrow s n = Inr (s, encode_error_phys_addr ENOMEM)
    \<or> (\<exists>j a new. j < g_entry_count s \<and> has_pages (page_bytes n) (live s ! j) \<and>
         (\<forall>k. j < k \<longrightarrow> k < g_entry_count s \<longrightarrow> \<not> has_pages (page_bytes n) (live s ! k)) \<and>
         mr_lo (live s ! j) \<le> unat a \<and> unat a + page_bytes n = mr_hi (live s ! j) \<and>
         is_range new (unat a) (mr_hi (live s ! j)) MEMORY_ALLOCATED \<and>
         boot_alloc_nogrow s n = bind_res (allocate_out_of s j new) (\<lambda>s'. Inr (s', a)))"
proof -
  let ?n = "g_entry_count s" and ?b = "g_buffer s" and ?bytes = "n * PAGE_SIZE"
  note live = wf_state_live [OF wf] and sane = sane_pagesD [OF n]
  have nth: "?b ! j = live s ! j" if "j < ?n" for j
    using nth_live that .
  have "\<forall>r\<in>set (take ?n ?b). wf_range r"
    using live by simp
  from top_down_loop_spec [OF this live(3), of ?bytes, unfolded sane]
  consider (none) "\<forall>j<?n. \<not> has_pages (page_bytes n) (?b ! j)" "top_down_loop ?b (- 1) ?bytes ?n = (0, 0)"
    | (some) j where "j < ?n" "has_pages (page_bytes n) (?b ! j)"
        "\<forall>k. j < k \<longrightarrow> k < ?n \<longrightarrow> \<not> has_pages (page_bytes n) (?b ! k)"
        "top_down_loop ?b (- 1) ?bytes ?n = (j, mr_end (?b ! j))" by blast
  then show ?thesis
  proof cases
    case none
    have "\<forall>r\<in>set (live s). \<not> has_pages (page_bytes n) r"
      using none(1) nth live(2) by (metis in_set_conv_nth)
    with none sane show ?thesis
      by (simp add: boot_alloc_nogrow_def allocate_top_down_def BUG_ON_def)
  next
    case some
    define r where "r = live s ! j"
    have r: "wf_range r" "has_pages (page_bytes n) r" "?b ! j = r"
      using some live nth by (auto simp: r_def)
    note b = wf_range_bounds [OF r(1)]
    let ?a = "mr_end r - ?bytes"
    have le: "mr_lo r + page_bytes n \<le> mr_hi r"
      using r(2) by (simp add: has_pages_def mr_hi_def)
    then have a: "unat ?a = mr_hi r - page_bytes n"
      using b sane by (simp add: unat_diff_no_wrap)
    let ?new = "\<lparr>physical_address = ?a, size_and_type = MR_ENCODE ?bytes MEMORY_ALLOCATED\<rparr>"
    have "is_range ?new (mr_hi r - page_bytes n) (mr_hi r - page_bytes n + page_bytes n) MEMORY_ALLOCATED"
      using a b sane le by (intro block_range) (auto intro: dvd_diff_nat)
    then have new: "is_range ?new (unat ?a) (mr_hi r) MEMORY_ALLOCATED"
      using le a by simp
    have "mr_end r \<noteq> 0"
      using b by (auto simp: word_unat_eq_iff)
    then have "boot_alloc_nogrow s n = bind_res (allocate_out_of s j ?new) (\<lambda>s'. Inr (s', ?a))"
      using some(4) r(3) sane
      by (simp add: boot_alloc_nogrow_def allocate_top_down_def BUG_ON_def Let_def)
    moreover have "mr_lo r \<le> unat ?a" "unat ?a + page_bytes n = mr_hi r"
      using a le by simp_all
    ultimately show ?thesis
      using some(1-3) nth new by (intro disjI2 exI [of _ j] exI [of _ ?a] exI [of _ ?new]) (simp add: r_def)
  qed
qed

lemma last_fit_highest:
  assumes wf: "wf_state s" and j: "j < g_entry_count s" "has_pages b (live s ! j)"
    and above: "\<forall>k. j < k \<longrightarrow> k < g_entry_count s \<longrightarrow> \<not> has_pages b (live s ! k)"
  shows "highest_fit s b (live s ! j)"
proof -
  note live = wf_state_live [OF wf]
  have "mr_hi q \<le> mr_hi (live s ! j)" if q: "q \<in> set (live s)" "has_pages b q" for q
  proof -
    obtain k where k: "k < g_entry_count s" "q = live s ! k"
      using q live(2) by (metis in_set_conv_nth)
    with above q have "k \<le> j"
      by (metis not_le)
    with wf_state_hi_mono [OF wf this j(1)] k show ?thesis
      by simp
  qed
  with j live show ?thesis
    by (simp add: highest_fit_def)
qed

lemma boot_alloc_nogrow_spec:
  assumes wf: "wf_state s" and room: "g_entry_count s + 2 \<le> g_capacity s" and n: "sane_pages n"
  shows "(\<forall>r\<in>set (live s). \<not> has_pages (page_bytes n) r) \<and>
      boot_alloc_nogrow s n = Inr (s, encode_error_phys_addr ENOMEM)
    \<or> (\<exists>r s' a. highest_fit s (page_bytes n) r \<and> boot_alloc_nogrow s n = Inr (s', a) \<and>
         unat a + page_bytes n = mr_hi r \<and>
         retyped s s' (unat a) (unat a + page_bytes n) MEMORY_ALLOCATED)"
  using boot_alloc_nogrow_picks [OF wf n]
proof (elim disjE exE conjE)
  fix j a new
  assume j: "j < g_entry_count s" "has_pages (page_bytes n) (live s ! j)"
    "\<forall>k. j < k \<longrightarrow> k < g_entry_count s \<longrightarrow> \<not> has_pages (page_bytes n) (live s ! k)"
    and a: "mr_lo (live s ! j) \<le> unat a" "unat a + page_bytes n = mr_hi (live s ! j)"
    and new: "is_range new (unat a) (mr_hi (live s ! j)) MEMORY_ALLOCATED"
    and eq: "boot_alloc_nogrow s n = bind_res (allocate_out_of s j new) (\<lambda>s'. Inr (s', a))"
  have "MR_TYPE (live s ! j) \<noteq> MEMORY_ALLOCATED"
    using j(2) by (simp add: has_pages_def MEMORY_FREE_def MEMORY_ALLOCATED_def)
  then obtain s' where "allocate_out_of s j new = Inr s'" "retyped s s' (unat a) (mr_hi (live s ! j)) MEMORY_ALLOCATED"
    using allocate_out_of_retyped [OF wf room j(1) a(1) order_refl _ new] by blast
  with last_fit_highest [OF wf j] a eq show ?thesis
    by (intro disjI2 exI [of _ "live s ! j"] exI [of _ s'] exI [of _ a]) simp
qed blast

section \<open>Allocation at an address\<close>

text \<open>
  \<open>boot_alloc_at\<close> asks \<open>allocate_within\<close> for a window that is the block itself: it succeeds
  exactly when the block lies in one free entry.
\<close>

lemma holds_cases:
  assumes wf: "wf_state s" and i: "i < g_entry_count s" "holds_addr (live s ! i) lo" and lt: "lo < hi"
  shows "holds s lo hi t \<longleftrightarrow> hi \<le> mr_hi (live s ! i) \<and> MR_TYPE (live s ! i) = t"
proof
  assume "holds s lo hi t"
  then obtain r where r: "r \<in> set (live s)" "mr_lo r \<le> lo" "hi \<le> mr_hi r" "MR_TYPE r = t"
    by (auto simp: holds_def within_one_def)
  then obtain j where j: "j < g_entry_count s" "r = live s ! j"
    using wf_state_live(2) [OF wf] by (metis in_set_conv_nth)
  have "i = j"
    using wf_state_live(5) [OF wf, of i j] wf_state_live(5) [OF wf, of j i] i j r lt
    by (cases i j rule: linorder_cases) (auto simp: holds_addr_def)
  with r j show "hi \<le> mr_hi (live s ! i) \<and> MR_TYPE (live s ! i) = t" by simp
next
  assume "hi \<le> mr_hi (live s ! i) \<and> MR_TYPE (live s ! i) = t"
  moreover have "live s ! i \<in> set (live s)"
    using i wf_state_live(2) [OF wf] by simp
  ultimately show "holds s lo hi t"
    using i by (auto simp: holds_def within_one_def holds_addr_def)
qed

lemma not_holds:
  "\<forall>r\<in>set (live s). \<not> holds_addr r lo \<Longrightarrow> lo < hi \<Longrightarrow> \<not> holds s lo hi t"
  by (fastforce simp: holds_def within_one_def holds_addr_def)

lemma allocate_at_spec:
  assumes wf: "wf_state s" and room: "g_entry_count s + 2 \<le> g_capacity s" and n: "sane_pages n"
    and a: "page dvd unat a" "unat a + page_bytes n < 2 ^ 64"
    and up: "upper = a + n * PAGE_SIZE"
  shows "if holds s (unat a) (unat a + page_bytes n) MEMORY_FREE
    then \<exists>s'. allocate_within s n a upper = Inr (s', a)
           \<and> retyped s s' (unat a) (unat a + page_bytes n) MEMORY_ALLOCATED
    else allocate_within s n a upper = Inr (s, encode_error_phys_addr ENOMEM)"
proof -
  let ?bytes = "n * PAGE_SIZE" and ?hi = "unat a + page_bytes n"
  note sane = sane_pagesD [OF n] and live = wf_state_live [OF wf]
  have upper: "unat upper = ?hi"
    using a sane up by (simp add: unat_add_no_wrap)
  have lt: "unat a < ?hi"
    using sane by simp
  have guard: "\<not> (upper \<le> a \<or> upper < a + ?bytes \<or> a + ?bytes < a)"
    using upper up lt by (auto simp: word_le_nat_alt word_less_nat_alt)
  have wfr: "wf_range (live s ! i)" if "i < g_entry_count s" for i
    using live that by simp
  have eq: "allocate_within s n a upper =
      (let mr_idx = find_range s a ALLOW_ONE_ABOVE_YES
       in if mr_idx < 0 then Inr (s, encode_error_phys_addr ENOMEM)
          else case within_loop s a upper ?bytes (nat mr_idx) of
            None \<Rightarrow> Inr (s, encode_error_phys_addr ENOMEM)
          | Some idx \<Rightarrow> bind_res (allocate_out_of s idx
                \<lparr>physical_address = C_MAX a (physical_address (g_buffer s ! idx)),
                 size_and_type = MR_ENCODE ?bytes MEMORY_ALLOCATED\<rparr>)
              (\<lambda>s'. Inr (s', C_MAX a (physical_address (g_buffer s ! idx)))))"
    unfolding allocate_within_def Let_def
    by (simp only: BUG_ON_def guard sane(2) if_False memory_range.simps)
  show ?thesis
  proof (rule find_range_cases [OF wf, of a ALLOW_ONE_ABOVE_YES], goal_cases found above none)
    case (found i)
    let ?r = "live s ! i"
    note b = wf_range_bounds [OF wfr [OF found(1)]]
    have r: "g_buffer s ! i = ?r"
      using nth_live [OF found(1)] .
    have in_r: "mr_lo ?r \<le> unat a" "unat a < mr_hi ?r"
      using found(2) by (auto simp: holds_addr_def)
    have le: "physical_address ?r \<le> a" "physical_address ?r \<le> upper"
      using in_r upper by (auto simp: word_le_nat_alt mr_lo_def)
    have gap: "unat (min (mr_end ?r) upper - a) = min (mr_hi ?r) ?hi - unat a"
      using in_r b upper by (simp add: unat_diff_no_wrap min_word_unat)
    have gap_ok: "?bytes \<le> min (mr_end ?r) upper - a \<longleftrightarrow> ?hi \<le> mr_hi ?r"
      unfolding word_le_nat_alt gap sane using in_r(2) by (auto simp: min_def)
    have loop: "within_loop s a upper ?bytes i =
        (if MR_TYPE ?r = MEMORY_FREE \<and> ?hi \<le> mr_hi ?r then Some i else None)"
    proof -
      have "upper \<le> mr_end ?r \<or> upper - mr_end ?r < ?bytes"
      proof (cases "upper \<le> mr_end ?r")
        case False
        then have "unat (upper - mr_end ?r) = ?hi - mr_hi ?r"
          using b upper by (simp add: unat_diff_no_wrap word_le_nat_alt)
        with in_r(2) sane(1,3) show ?thesis
          by (intro disjI2) (simp add: word_less_nat_alt)
      qed simp
      with le gap_ok found(1) r show ?thesis
        by (subst within_loop.simps) (auto simp: Let_def max_def)
    qed
    show ?thesis
    proof (cases "MR_TYPE ?r = MEMORY_FREE \<and> ?hi \<le> mr_hi ?r")
      case True
      then have h: "holds s (unat a) ?hi MEMORY_FREE"
        using holds_cases [OF wf found(1,2) lt] by simp
      have new: "is_range \<lparr>physical_address = a, size_and_type = MR_ENCODE ?bytes MEMORY_ALLOCATED\<rparr>
          (unat a) ?hi MEMORY_ALLOCATED"
        using a sane by (intro block_range) auto
      have "MR_TYPE ?r \<noteq> MEMORY_ALLOCATED"
        using True by (simp add: MEMORY_FREE_def MEMORY_ALLOCATED_def)
      with allocate_out_of_retyped [OF wf room found(1) in_r(1) _ _ new] True
      obtain s' where "allocate_out_of s i \<lparr>physical_address = a, size_and_type = MR_ENCODE ?bytes MEMORY_ALLOCATED\<rparr> = Inr s'"
        "retyped s s' (unat a) ?hi MEMORY_ALLOCATED" by blast
      with h True loop found(3) le r show ?thesis
        by (simp add: eq max_def)
    next
      case False
      then have "\<not> holds s (unat a) ?hi MEMORY_FREE"
        using holds_cases [OF wf found(1,2) lt] by auto
      moreover have "within_loop s a upper ?bytes i = None"
        using loop False by (simp only: if_False)
      ultimately show ?thesis
        using found(3) by (simp add: eq)
    qed
  next
    case (above i)
    let ?r = "live s ! i"
    note b = wf_range_bounds [OF wfr [OF above(1)]]
    have r: "g_buffer s ! i = ?r"
      using nth_live [OF above(1)] .
    have le: "a \<le> physical_address ?r"
      using above(3) by (simp add: word_le_nat_alt mr_lo_def)
    have "within_loop s a upper ?bytes i = None"
    proof (cases "upper < physical_address ?r")
      case True
      with above(1) r show ?thesis by (subst within_loop.simps) (simp add: Let_def)
    next
      case False
      then have lo: "mr_lo ?r \<le> ?hi"
        using upper by (simp add: word_less_nat_alt mr_lo_def)
      have "unat (min (mr_end ?r) upper - physical_address ?r) = min (mr_hi ?r) ?hi - mr_lo ?r"
        using lo b upper by (simp add: unat_diff_no_wrap min_word_unat mr_lo_def)
      then have "\<not> ?bytes \<le> min (mr_end ?r) upper - physical_address ?r"
        using above(3) sane by (auto simp: word_le_nat_alt)
      moreover have "upper \<le> mr_end ?r \<or> upper - mr_end ?r < ?bytes"
      proof (cases "upper \<le> mr_end ?r")
        case False
        then have "unat (upper - mr_end ?r) = ?hi - mr_hi ?r"
          using b upper by (simp add: unat_diff_no_wrap word_le_nat_alt)
        with above(3) b(1) sane(1,3) show ?thesis
          by (intro disjI2) (simp add: word_less_nat_alt)
      qed simp
      ultimately show ?thesis
        using above(1) r le False by (subst within_loop.simps) (auto simp: Let_def max_def)
    qed
    with above not_holds [OF above(2) lt] show ?thesis
      by (simp add: eq)
  next
    case none
    with not_holds [OF none(1) lt] show ?thesis
      by (simp add: eq)
  qed
qed

section \<open>Free\<close>

text \<open>The free itself, once there is room in the array: exactly the allocated blocks can be freed,
  anything else panics.\<close>

lemma boot_free_with_room:
  assumes wf: "wf_state s" and room: "g_entry_count s + 2 \<le> g_capacity s" and n: "sane_pages n"
    and a: "page dvd unat a" "unat a + page_bytes n < 2 ^ 64"
    and grow: "grow s = Inr (s, True)"
  shows "if holds s (unat a) (unat a + page_bytes n) MEMORY_ALLOCATED
    then \<exists>s'. boot_free_with grow s a n = Inr s'
           \<and> retyped s s' (unat a) (unat a + page_bytes n) MEMORY_FREE
    else boot_free_with grow s a n = Inl Bug"
proof -
  let ?bytes = "n * PAGE_SIZE" and ?hi = "unat a + page_bytes n"
  let ?new = "\<lparr>physical_address = a, size_and_type = MR_ENCODE ?bytes MEMORY_FREE\<rparr>"
  note sane = sane_pagesD [OF n] and live = wf_state_live [OF wf]
  have lt: "unat a < ?hi"
    using sane by simp
  have new: "is_range ?new (unat a) ?hi MEMORY_FREE"
    using a sane by (intro block_range) auto
  have eq: "boot_free_with grow s a n =
      (if find_range s a ALLOW_ONE_ABOVE_NO < 0 then Inl Bug
       else allocate_out_of s (nat (find_range s a ALLOW_ONE_ABOVE_NO)) ?new)"
    by (simp add: boot_free_with_def grow BUG_ON_def Let_def)
  show ?thesis
  proof (rule find_range_cases [OF wf, of a ALLOW_ONE_ABOVE_NO], goal_cases found above none)
    case (found i)
    let ?r = "live s ! i"
    have wfr: "wf_range ?r"
      using live found(1) by simp
    have r: "g_buffer s ! i = ?r"
      using nth_live [OF found(1)] .
    note h = holds_cases [OF wf found(1,2) lt]
    show ?thesis
    proof (cases "?hi \<le> mr_hi ?r \<and> MR_TYPE ?r = MEMORY_ALLOCATED")
      case True
      then have "MR_TYPE ?r \<noteq> MEMORY_FREE" "?hi \<le> mr_hi ?r"
        by (simp_all add: MEMORY_FREE_def MEMORY_ALLOCATED_def)
      with allocate_out_of_retyped [OF wf room found(1) _ _ _ new] found(2)
      obtain s' where "allocate_out_of s i ?new = Inr s'" "retyped s s' (unat a) ?hi MEMORY_FREE"
        by (auto simp: holds_addr_def)
      with True h eq found(3) show ?thesis by simp
    next
      case False
      have "mr_end ?r < mr_end ?new \<or> MR_TYPE ?r = MR_TYPE ?new"
        using False MR_TYPE_cases [of ?r] new wf_range_bounds(5) [OF wfr] wf_range_bounds(5) [of ?new]
        by (auto simp: is_range_def word_less_nat_alt)
      then have "allocate_out_of s i ?new = Inl Bug"
        by (auto simp: allocate_out_of_def r BUG_ON_def Let_def)
      with False h eq found(3) show ?thesis by simp
    qed
  next
    case (above i)
    with eq not_holds [OF above(2) lt] show ?thesis by simp
  next
    case none
    with eq not_holds [OF none(1) lt] show ?thesis by simp
  qed
qed

end
