(* ===== verification/BootAllocGrow.thy ===== *)
theory BootAllocGrow
  imports BootAllocOps
begin

text \<open>
  The array's capacity: the invariant that keeps two slots free, when \<^verbatim>\<open>maybe_grow_buffer\<close> has
  nothing to do, and its first growth, from the static array to two pages of the direct map.
\<close>

section \<open>Room in the array\<close>

definition alloc_inv :: "boot_alloc_state \<Rightarrow> bool" where
  "alloc_inv s \<longleftrightarrow> wf_state s \<and> g_entry_count s + 2 \<le> g_capacity s \<and>
     (g_buffer_ptr s = Initial_Buffer \<longrightarrow> g_capacity s = BOOT_ALLOC_INITIAL_CAPACITY)"

definition has_room :: "boot_alloc_state \<Rightarrow> bool" where
  "has_room s \<longleftrightarrow> g_entry_count s + growth_watermark s \<le> g_capacity s"

lemma growth_watermark_eq: "growth_watermark s = (if g_buffer_ptr s = Initial_Buffer then 4 else 6)"
  by (simp add: growth_watermark_def BOOT_ALLOC_WORST_CASE_GROWTH_PER_ALLOCATION_def)

lemma initial_capacity: "BOOT_ALLOC_INITIAL_CAPACITY = 256"
  by (simp add: BOOT_ALLOC_INITIAL_CAPACITY_def PAGE_SIZE_def sizeof_memory_range_def)

lemma has_room_grow: "has_room s \<Longrightarrow> maybe_grow_buffer (Suc fuel) s = Inr (s, True)"
  using le_diff_conv2 [of "g_entry_count s" "g_capacity s" "growth_watermark s"]
  by (simp only: has_room_def maybe_grow_buffer.simps add.commute) (simp add: le_diff_conv2)

lemma has_room_two: "has_room s \<Longrightarrow> g_entry_count s + 4 \<le> g_capacity s"
  by (simp add: has_room_def growth_watermark_eq split: if_splits)

text \<open>The first growth: from the static array of 256 entries to two pages of the direct map.\<close>

lemma grown_bytes: "PAGE_ROUND_UP (of_nat (256 * 2 * sizeof_memory_range)) = 8192"
  by (simp add: PAGE_ROUND_UP_def ALIGN_UP_def PAGE_SIZE_def sizeof_memory_range_def)

lemma sane_two_pages: "sane_pages 2" "page_bytes 2 = 8192"
  by (simp_all add: sane_pages_def page_bytes_def)

lemma first_growth_eq:
  assumes "\<not> has_room s" "g_buffer_ptr s = Initial_Buffer" "g_capacity s = 256"
  shows "maybe_grow_buffer (Suc fuel) s =
    bind_res (boot_alloc_nogrow s 2) (\<lambda>(s1, addr).
      if addr = 0 then Inr (s1, False)
      else if error_phys_addr addr then Inl Wild
      else bind_res
        (case g_buffer_ptr s1 of
           Initial_Buffer \<Rightarrow> Inr (g_buffer s1, s1)
         | Direct_Map old \<Rightarrow>
             bind_res (boot_free_with (maybe_grow_buffer fuel) s1 (virt_to_phys (g_direct_map_base s1) old)
                (drop_bit PAGE_SHIFT (PAGE_ROUND_UP (of_nat (g_capacity s1 * sizeof_memory_range)))))
               (\<lambda>s2. Inr (g_buffer s1, s2)))
        (\<lambda>(copied, s2).
           Inr (s2\<lparr>g_buffer := take (g_entry_count s1) copied
                 @ replicate (512 - g_entry_count s1) \<lparr>physical_address = 0, size_and_type = 0\<rparr>,
                   g_buffer_ptr := Direct_Map (phys_to_virt (g_direct_map_base s1) addr),
                   g_capacity := 512\<rparr>, True)))"
proof -
  have "drop_bit PAGE_SHIFT 8192 = (2 :: 64 word)"
    by (simp add: PAGE_SHIFT_def)
  moreover have "\<not> g_capacity s - g_entry_count s \<ge> growth_watermark s"
    using assms by (auto simp: has_room_def growth_watermark_eq)
  moreover have "unat (8192 :: 64 word) div sizeof_memory_range = 512"
    by (simp add: sizeof_memory_range_def)
  ultimately show ?thesis
    using assms(2,3) grown_bytes
    by (simp only: maybe_grow_buffer.simps if_False Let_def)
qed

text \<open>\<open>moved_to s1 s' addr\<close>: the entries of \<open>s1\<close> copied to a dynamic array at \<open>addr\<close>.\<close>

definition moved_to :: "boot_alloc_state \<Rightarrow> boot_alloc_state \<Rightarrow> 64 word \<Rightarrow> bool" where
  "moved_to s1 s' addr \<longleftrightarrow> live s' = live s1 \<and> array_ok s' \<and> g_entry_count s' = g_entry_count s1 \<and>
     g_capacity s' = 512 \<and> g_buffer_ptr s' = Direct_Map (phys_to_virt (g_direct_map_base s1) addr) \<and>
     g_direct_map_base s' = g_direct_map_base s1"

lemma aligned_not_error:
  assumes "page dvd unat a" "a \<noteq> 0"
  shows "\<not> error_phys_addr a"
proof -
  have "unat a \<noteq> 0"
    using assms(2) by (simp add: unat_eq_zero)
  with assms(1) have "page \<le> unat a"
    by (auto intro: dvd_imp_le)
  then show ?thesis
    by (simp add: error_phys_addr_def MAX_ERRNO_def word_le_nat_alt)
qed

lemma highest_fit_aligned:
  assumes "wf_state s" "highest_fit s (page_bytes n) r" "unat a + page_bytes n = mr_hi r"
  shows "page dvd unat a" "mr_lo r \<le> unat a" "unat a + page_bytes n < 2 ^ 64" "MR_TYPE r = MEMORY_FREE"
    "r \<in> set (live s)"
proof -
  have r: "wf_range r" "r \<in> set (live s)" "MR_TYPE r = MEMORY_FREE" "page_bytes n \<le> mr_len r"
    using assms wf_state_live(1) by (auto simp: highest_fit_def has_pages_def)
  note b = wf_range_bounds [OF r(1)]
  have "unat a = mr_hi r - page_bytes n"
    using assms(3) by simp
  moreover have "page dvd page_bytes n"
    by (simp add: page_bytes_def)
  ultimately show "page dvd unat a"
    using b by (simp add: dvd_diff_nat)
  show "mr_lo r \<le> unat a"
    using assms(3) r(4) by (simp add: mr_hi_def)
  show "unat a + page_bytes n < 2 ^ 64"
    using assms(3) b by simp
qed (use assms in \<open>simp_all add: highest_fit_def has_pages_def\<close>)

lemma first_growth_spec:
  assumes inv: "alloc_inv s" and full: "\<not> has_room s" and init: "g_buffer_ptr s = Initial_Buffer"
  shows "(\<forall>r\<in>set (live s). \<not> has_pages (page_bytes 2) r) \<and> maybe_grow_buffer (Suc fuel) s = Inl Wild
    \<or> (\<exists>r s1 a. highest_fit s (page_bytes 2) r \<and> unat a + page_bytes 2 = mr_hi r \<and>
         retyped s s1 (unat a) (unat a + page_bytes 2) MEMORY_ALLOCATED \<and>
         (if a = 0 then maybe_grow_buffer (Suc fuel) s = Inr (s1, False)
          else \<exists>s'. maybe_grow_buffer (Suc fuel) s = Inr (s', True) \<and> moved_to s1 s' a))"
proof -
  have wf: "wf_state s" and room: "g_entry_count s + 2 \<le> g_capacity s" and cap: "g_capacity s = 256"
    using inv init by (auto simp: alloc_inv_def initial_capacity)
  note eq = first_growth_eq [OF full init cap, of fuel]
  have enomem: "encode_error_phys_addr ENOMEM \<noteq> 0"
    by (simp add: encode_error_phys_addr_def)
  from boot_alloc_nogrow_spec [OF wf room sane_two_pages(1)] show ?thesis
  proof (elim disjE conjE exE)
    assume "\<forall>r\<in>set (live s). \<not> has_pages (page_bytes 2) r"
      "boot_alloc_nogrow s 2 = Inr (s, encode_error_phys_addr ENOMEM)"
    with eq enomem show ?thesis by (simp del: maybe_grow_buffer.simps)
  next
    fix r s1 a
    assume *: "highest_fit s (page_bytes 2) r" "boot_alloc_nogrow s 2 = Inr (s1, a)"
      "unat a + page_bytes 2 = mr_hi r" "retyped s s1 (unat a) (unat a + page_bytes 2) MEMORY_ALLOCATED"
    have s1: "g_buffer_ptr s1 = Initial_Buffer" "array_ok s1" "g_entry_count s1 \<le> 256"
      using *(4) init cap by (auto simp: retyped_def same_frame_def wf_state_def array_ok_def)
    show ?thesis
    proof (cases "a = 0")
      case True
      with * eq show ?thesis
        by (intro disjI2 exI [of _ r] exI [of _ s1] exI [of _ a]) (simp del: maybe_grow_buffer.simps)
    next
      case False
      then have "\<not> error_phys_addr a"
        using highest_fit_aligned(1) [OF wf *(1,3)] aligned_not_error by blast
      with False *(2) eq s1 have "\<exists>s'. maybe_grow_buffer (Suc fuel) s = Inr (s', True) \<and> moved_to s1 s' a"
        by (simp del: maybe_grow_buffer.simps) (simp add: moved_to_def live_def array_ok_def)
      with * False show ?thesis
        by (intro disjI2 exI [of _ r] exI [of _ s1] exI [of _ a]) (simp del: maybe_grow_buffer.simps)
    qed
  qed
qed

end
