(* ===== verification/BootAllocator.thy ===== *)
theory BootAllocator
  imports BootAllocGrow
begin

text \<open>
  The allocator as its clients see it: which blocks they own, what a request or a free does to
  them, and the contract \<open>page_allocator\<close>, interpreted on the model of \<^verbatim>\<open>boot_alloc.c\<close>.
\<close>

section \<open>Blocks held by clients\<close>

text \<open>A block is an address and a number of pages; \<open>owned s b\<close>: the allocator has it as one
  allocated block, at a page-aligned address other than 0.\<close>

type_synonym block = "64 word \<times> 64 word"

definition block_lo :: "block \<Rightarrow> nat" where
  "block_lo b = unat (fst b)"

definition block_hi :: "block \<Rightarrow> nat" where
  "block_hi b = unat (fst b) + page_bytes (snd b)"

definition wf_block :: "block \<Rightarrow> bool" where
  "wf_block b \<longleftrightarrow> sane_pages (snd b) \<and> page dvd block_lo b \<and> 0 < block_lo b \<and> block_hi b < 2 ^ 64"

definition owned :: "boot_alloc_state \<Rightarrow> block \<Rightarrow> bool" where
  "owned s b \<longleftrightarrow> wf_block b \<and> holds s (block_lo b) (block_hi b) MEMORY_ALLOCATED"

definition apart :: "block \<Rightarrow> block \<Rightarrow> bool" where
  "apart b c \<longleftrightarrow> block_hi b \<le> block_lo c \<or> block_hi c \<le> block_lo b"

lemma apart_sym: "apart b c \<Longrightarrow> apart c b"
  by (auto simp: apart_def)

lemma wf_block_less: "wf_block b \<Longrightarrow> block_lo b < block_hi b"
  using sane_pagesD(3) by (auto simp: wf_block_def block_lo_def block_hi_def)

lemma holds_map:
  assumes "wf_state s" "holds s lo hi t" "lo \<le> a" "a < hi"
  shows "memory_map s a = Some t"
proof -
  from assms(2) obtain r where "r \<in> set (live s)" "mr_lo r \<le> lo" "hi \<le> mr_hi r" "MR_TYPE r = t"
    by (auto simp: holds_def within_one_def)
  with assms show ?thesis
    using addr_type_member [of "live s" r a] by (auto simp: memory_map_def wf_state_def)
qed

lemma holds_apart:
  assumes "wf_state s" "holds s lo hi t" "holds s l h u" "t \<noteq> u" "lo < hi" "l < h"
  shows "hi \<le> l \<or> h \<le> lo"
proof (rule ccontr)
  assume "\<not> ?thesis"
  then have "lo \<le> max lo l" "max lo l < hi" "l \<le> max lo l" "max lo l < h"
    using assms by auto
  with holds_map [OF assms(1,2), of "max lo l"] holds_map [OF assms(1,3), of "max lo l"] assms(4)
  show False by simp
qed

lemma free_not_allocated: "MEMORY_FREE \<noteq> MEMORY_ALLOCATED"
  by (simp add: MEMORY_FREE_def MEMORY_ALLOCATED_def)

text \<open>Page zero not being free memory keeps 0 from being handed out (it would read as a failure).\<close>

definition ready :: "boot_alloc_state \<Rightarrow> bool" where
  "ready s \<longleftrightarrow> alloc_inv s \<and> memory_map s 0 \<noteq> Some MEMORY_FREE"

text \<open>The states whose next operation does not grow a dynamic array.\<close>

definition serves :: "boot_alloc_state \<Rightarrow> bool" where
  "serves s \<longleftrightarrow> has_room s \<or> g_buffer_ptr s = Initial_Buffer"

lemma highest_fit_holds:
  assumes "wf_state s" "highest_fit s (page_bytes n) r" "unat a + page_bytes n = mr_hi r"
  shows "holds s (unat a) (unat a + page_bytes n) MEMORY_FREE"
  using highest_fit_aligned [OF assms] assms(3) by (auto simp: holds_def within_one_def)

text \<open>Allocating a free block, as seen by the owners of the others.\<close>

lemma allocated_keeps:
  assumes "wf_state s" "holds s lo hi MEMORY_FREE" "lo < hi" "retyped s s' lo hi MEMORY_ALLOCATED"
    "l < h" "holds s l h MEMORY_ALLOCATED"
  shows "holds s' l h MEMORY_ALLOCATED"
  using assms holds_apart [OF assms(1,2,6) free_not_allocated assms(3,5)]
  by (auto simp: retyped_def)

definition keeps_owners :: "boot_alloc_state \<Rightarrow> boot_alloc_state \<Rightarrow> bool" where
  "keeps_owners s s' \<longleftrightarrow> (\<forall>b. owned s b \<longrightarrow> owned s' b)"

lemma keeps_ownersD: "keeps_owners s s' \<Longrightarrow> owned s b \<Longrightarrow> owned s' b"
  unfolding keeps_owners_def by blast

lemma keeps_owners_trans: "keeps_owners s t \<Longrightarrow> keeps_owners t u \<Longrightarrow> keeps_owners s u"
  by (simp add: keeps_owners_def)

lemma allocated_keeps_owners:
  assumes "wf_state s" "holds s lo hi MEMORY_FREE" "lo < hi" "retyped s s' lo hi MEMORY_ALLOCATED"
  shows "keeps_owners s s'"
  using allocated_keeps [OF assms] wf_block_less by (auto simp: keeps_owners_def owned_def)

lemma retyped_alloc_inv:
  assumes "alloc_inv s" "g_entry_count s + 4 \<le> g_capacity s" "retyped s s' lo hi t"
  shows "alloc_inv s'"
  using assms by (auto simp: alloc_inv_def retyped_def same_frame_def)

text \<open>Making room: nothing to do, or the first growth.\<close>

lemma grow_cases:
  assumes "ready s" "serves s"
  obtains (wild) "maybe_grow_buffer (Suc fuel) s = Inl Wild"
  | (grown) s' where "maybe_grow_buffer (Suc fuel) s = Inr (s', True)" "ready s'"
      "g_entry_count s' + 4 \<le> g_capacity s'" "keeps_owners s s'"
proof (cases "has_room s")
  case True
  with assms grown [of s] show ?thesis
    by (simp add: has_room_grow has_room_two keeps_owners_def del: maybe_grow_buffer.simps)
next
  case False
  have inv: "alloc_inv s" "wf_state s" "g_buffer_ptr s = Initial_Buffer" "g_capacity s = 256"
    and z: "memory_map s 0 \<noteq> Some MEMORY_FREE"
    using assms False by (auto simp: ready_def serves_def alloc_inv_def initial_capacity)
  from first_growth_spec [OF inv(1) False inv(3), of fuel] show ?thesis
  proof (elim disjE conjE exE)
    assume "maybe_grow_buffer (Suc fuel) s = Inl Wild"
    then show ?thesis by (rule wild)
  next
    fix r s1 a
    assume *: "highest_fit s (page_bytes 2) r" "unat a + page_bytes 2 = mr_hi r"
      "retyped s s1 (unat a) (unat a + page_bytes 2) MEMORY_ALLOCATED"
      "if a = 0 then maybe_grow_buffer (Suc fuel) s = Inr (s1, False)
       else \<exists>s'. maybe_grow_buffer (Suc fuel) s = Inr (s', True) \<and> moved_to s1 s' a"
    note h = highest_fit_holds [OF inv(2) *(1,2)]
    have lt: "unat a < unat a + page_bytes 2"
      by (simp add: sane_two_pages)
    have a: "a \<noteq> 0"
      using holds_map [OF inv(2) h, of 0] z lt by auto
    then obtain s' where s': "maybe_grow_buffer (Suc fuel) s = Inr (s', True)" "moved_to s1 s' a"
      using *(4) by auto
    have map: "memory_map s' = memory_map s1" and eq: "owned s' = owned s1" and wf: "wf_state s'"
      using s'(2) *(3) by (auto simp: moved_to_def memory_map_def owned_def holds_def wf_state_def retyped_def fun_eq_iff)
    have "g_entry_count s' \<le> 256" "g_capacity s' = 512" "g_buffer_ptr s' \<noteq> Initial_Buffer"
      using s'(2) *(3) inv(4) by (auto simp: moved_to_def retyped_def same_frame_def wf_state_def array_ok_def)
    moreover have "memory_map s' 0 \<noteq> Some MEMORY_FREE"
      using z *(3) free_not_allocated by (auto simp: map retyped_def)
    moreover have "keeps_owners s s'"
      using allocated_keeps_owners [OF inv(2) h lt *(3)] by (simp add: keeps_owners_def eq)
    ultimately show ?thesis
      using wf s'(1) by (intro grown [of s']) (auto simp: ready_def alloc_inv_def)
  qed
qed

section \<open>The requests of a client\<close>

datatype request = Any_Pages "64 word" | Pages_At "64 word" "64 word"

fun request_pages :: "request \<Rightarrow> 64 word" where
  "request_pages (Any_Pages n) = n"
| "request_pages (Pages_At a n) = n"

fun sane_request :: "request \<Rightarrow> bool" where
  "sane_request (Any_Pages n) \<longleftrightarrow> sane_pages n"
| "sane_request (Pages_At a n) \<longleftrightarrow> sane_pages n \<and> page dvd unat a \<and> unat a + page_bytes n < 2 ^ 64"

fun boot_request :: "nat \<Rightarrow> boot_alloc_state \<Rightarrow> request \<Rightarrow> (boot_alloc_state \<times> 64 word) res" where
  "boot_request fuel s (Any_Pages n) = boot_alloc fuel s n"
| "boot_request fuel s (Pages_At a n) = boot_alloc_at fuel s a n"

definition allocates :: "nat \<Rightarrow> boot_alloc_state \<Rightarrow> request \<Rightarrow> boot_alloc_state \<Rightarrow> block option \<Rightarrow> bool" where
  "allocates fuel s q s' r \<longleftrightarrow> serves s \<and> sane_request q \<and> (\<exists>a. boot_request (Suc fuel) s q = Inr (s', a) \<and>
     r = (if error_phys_addr a then None else Some (a, request_pages q)))"

definition frees :: "nat \<Rightarrow> boot_alloc_state \<Rightarrow> block \<Rightarrow> boot_alloc_state \<Rightarrow> bool" where
  "frees fuel s b s' \<longleftrightarrow> serves s \<and> boot_free (Suc fuel) s (fst b) (snd b) = Inr s'"

definition free_panics :: "nat \<Rightarrow> boot_alloc_state \<Rightarrow> block \<Rightarrow> bool" where
  "free_panics fuel s b \<longleftrightarrow> serves s \<and> boot_free (Suc fuel) s (fst b) (snd b) = Inl Bug"

text \<open>What one request does once there is room.\<close>

lemma push_bit_pages: "push_bit PAGE_SHIFT n = n * PAGE_SIZE"
  by (simp add: push_bit_eq_mult PAGE_SHIFT_def PAGE_SIZE_def)

lemma aligned_zero_iff: "page dvd unat a \<Longrightarrow> error_phys_addr a \<longleftrightarrow> a = 0"
  using aligned_not_error [of a] by (auto simp: error_phys_addr_def MAX_ERRNO_def)

definition request_outcome ::
  "boot_alloc_state \<Rightarrow> request \<Rightarrow> boot_alloc_state \<Rightarrow> 64 word \<Rightarrow> bool" where
  "request_outcome s q s' a \<longleftrightarrow> s' = s \<and> a = encode_error_phys_addr ENOMEM
     \<or> holds s (unat a) (unat a + page_bytes (request_pages q)) MEMORY_FREE
       \<and> page dvd unat a \<and> unat a + page_bytes (request_pages q) < 2 ^ 64
       \<and> retyped s s' (unat a) (unat a + page_bytes (request_pages q)) MEMORY_ALLOCATED"

lemma request_with_room:
  assumes wf: "wf_state s" and room: "g_entry_count s + 2 \<le> g_capacity s" and q: "sane_request q"
  shows "\<exists>s' a. (case q of Any_Pages n \<Rightarrow> boot_alloc_nogrow s n
      | Pages_At a n \<Rightarrow> allocate_within s n a (a + push_bit PAGE_SHIFT n)) = Inr (s', a)
    \<and> request_outcome s q s' a"
proof (cases q)
  case (Any_Pages n)
  with q have n: "sane_pages n" by simp
  from boot_alloc_nogrow_spec [OF wf room n] show ?thesis
  proof (elim disjE conjE exE)
    assume "boot_alloc_nogrow s n = Inr (s, encode_error_phys_addr ENOMEM)"
    with Any_Pages show ?thesis by (simp add: request_outcome_def)
  next
    fix r s' a
    assume *: "highest_fit s (page_bytes n) r" "boot_alloc_nogrow s n = Inr (s', a)"
      "unat a + page_bytes n = mr_hi r" "retyped s s' (unat a) (unat a + page_bytes n) MEMORY_ALLOCATED"
    with highest_fit_holds [OF wf *(1,3)] highest_fit_aligned [OF wf *(1,3)] Any_Pages show ?thesis
      by (auto simp: request_outcome_def)
  qed
next
  case (Pages_At a n)
  with q have n: "sane_pages n" "page dvd unat a" "unat a + page_bytes n < 2 ^ 64" by auto
  from allocate_at_spec [OF wf room n push_bit_pages [THEN arg_cong, of "\<lambda>x. a + x"]] Pages_At n show ?thesis
    by (auto simp: request_outcome_def split: if_splits)
qed

lemma request_cases:
  assumes "ready s" "serves s" "sane_request q"
  obtains (wild) "boot_request (Suc fuel) s q = Inl Wild"
  | (ran) s1 s' a where "boot_request (Suc fuel) s q = Inr (s', a)" "ready s1" "keeps_owners s s1"
      "g_entry_count s1 + 4 \<le> g_capacity s1" "request_outcome s1 q s' a"
proof (rule grow_cases [OF assms(1,2), of fuel], goal_cases grow_wild grown)
  case grow_wild
  then show ?case
    by (intro wild) (cases q; simp add: boot_alloc_def boot_alloc_at_def del: maybe_grow_buffer.simps)
next
  case (grown s1)
  then have "wf_state s1" "g_entry_count s1 + 2 \<le> g_capacity s1"
    by (auto simp: ready_def alloc_inv_def)
  from request_with_room [OF this assms(3)] obtain s' a
    where *: "(case q of Any_Pages n \<Rightarrow> boot_alloc_nogrow s1 n
      | Pages_At a n \<Rightarrow> allocate_within s1 n a (a + push_bit PAGE_SHIFT n)) = Inr (s', a)"
      "request_outcome s1 q s' a" by blast
  have "boot_request (Suc fuel) s q = Inr (s', a)"
    using grown(3) *(1)
    by (cases q) (simp_all add: boot_alloc_def boot_alloc_at_def del: maybe_grow_buffer.simps)
  with grown * show ?case by (intro ran [of s' a s1])
qed

text \<open>The allocator serves requests that leave the owners' blocks alone.\<close>

lemma holds_ready:
  assumes "ready s" "holds s lo hi MEMORY_FREE" "lo < hi"
  shows "0 < lo"
proof (rule ccontr)
  assume "\<not> 0 < lo"
  with holds_map [of s lo hi MEMORY_FREE 0] assms show False
    by (auto simp: ready_def alloc_inv_def)
qed

lemma request_outcome_facts:
  assumes ready: "ready s" and room: "g_entry_count s + 4 \<le> g_capacity s" and q: "sane_request q"
    and out: "request_outcome s q s' a"
  shows "ready s'" "keeps_owners s s'"
    "\<not> error_phys_addr a \<Longrightarrow> owned s' (a, request_pages q)"
    "\<not> error_phys_addr a \<Longrightarrow> owned s c \<Longrightarrow> apart (a, request_pages q) c"
proof -
  let ?n = "request_pages q" and ?hi = "unat a + page_bytes (request_pages q)"
  have n: "sane_pages ?n"
    using q by (cases q) auto
  then have lt: "unat a < ?hi"
    using sane_pagesD(3) by simp
  have wf: "wf_state s"
    using ready by (simp add: ready_def alloc_inv_def)
  consider (no) "s' = s" "error_phys_addr a"
    | (yes) "holds s (unat a) ?hi MEMORY_FREE" "page dvd unat a" "?hi < 2 ^ 64"
        "retyped s s' (unat a) ?hi MEMORY_ALLOCATED"
    using out by (auto simp: request_outcome_def)
  then have all: "ready s' \<and> keeps_owners s s' \<and> (error_phys_addr a \<or> owned s' (a, ?n) \<and>
      (\<forall>c. owned s c \<longrightarrow> apart (a, ?n) c))"
  proof cases
    case no
    with ready show ?thesis by (simp add: keeps_owners_def)
  next
    case yes
    note z = holds_ready [OF ready yes(1) lt]
    have "ready s'"
      using ready yes(4) z retyped_alloc_inv [OF _ room yes(4)] by (auto simp: ready_def retyped_def)
    moreover have "owned s' (a, ?n)"
      using yes n z by (simp add: owned_def wf_block_def block_lo_def block_hi_def retyped_def)
    moreover have "apart (a, ?n) c" if "owned s c" for c
      using that holds_apart [OF wf yes(1) _ free_not_allocated lt] wf_block_less [of c]
      by (auto simp: apart_def owned_def block_lo_def block_hi_def)
    ultimately show ?thesis
      using allocated_keeps_owners [OF wf yes(1) lt yes(4)] by blast
  qed
  then show "ready s'" "keeps_owners s s'"
    "\<not> error_phys_addr a \<Longrightarrow> owned s' (a, request_pages q)"
    "\<not> error_phys_addr a \<Longrightarrow> owned s c \<Longrightarrow> apart (a, request_pages q) c"
    by blast+
qed

lemma allocates_facts:
  assumes "ready s" "allocates fuel s q s' r"
  shows "ready s'" "keeps_owners s s'"
    "r = Some b \<Longrightarrow> owned s' b" "r = Some b \<Longrightarrow> owned s c \<Longrightarrow> apart b c"
proof -
  from assms(2) obtain a where a: "serves s" "sane_request q" "boot_request (Suc fuel) s q = Inr (s', a)"
    "r = (if error_phys_addr a then None else Some (a, request_pages q))"
    by (auto simp: allocates_def)
  obtain s1 where s1: "ready s1" "keeps_owners s s1" "g_entry_count s1 + 4 \<le> g_capacity s1"
    "request_outcome s1 q s' a"
    using request_cases [OF assms(1) a(1,2), of fuel] a(3) by (metis Inl_Inr_False prod.inject sum.inject(2))
  note f = request_outcome_facts [OF s1(1,3) a(2) s1(4)]
  show "ready s'" "keeps_owners s s'"
    using f keeps_owners_trans [OF s1(2)] by blast+
  show "r = Some b \<Longrightarrow> owned s' b"
    using a(4) f(3) by (auto split: if_splits)
  show "r = Some b \<Longrightarrow> owned s c \<Longrightarrow> apart b c"
    using a(4) f(4) keeps_ownersD [OF s1(2)] by (auto split: if_splits)
qed

text \<open>Freeing an owned block.\<close>

lemma boot_free_after_grow:
  "grow s = Inr (s1, True) \<Longrightarrow> boot_free_with grow s a n = boot_free_with (\<lambda>_. Inr (s1, True)) s1 a n"
  by (simp add: boot_free_with_def)

lemma boot_free_wild: "grow s = Inl e \<Longrightarrow> boot_free_with grow s a n = Inl e"
  by (simp add: boot_free_with_def)

lemma owned_free_cases:
  assumes "ready s" "serves s" "owned s b"
  obtains (wild) "boot_free (Suc fuel) s (fst b) (snd b) = Inl Wild"
  | (freed) s' where "boot_free (Suc fuel) s (fst b) (snd b) = Inr s'" "ready s'"
      "\<And>c. owned s c \<Longrightarrow> apart b c \<Longrightarrow> owned s' c"
proof (rule grow_cases [OF assms(1,2), of fuel], goal_cases grow_wild grown)
  case grow_wild
  then show ?case
    by (intro wild) (simp add: boot_free_def boot_free_wild del: maybe_grow_buffer.simps)
next
  case (grown s1)
  let ?grow = "\<lambda>_. Inr (s1, True)"
  have b: "owned s1 b" "wf_block b"
    using keeps_ownersD [OF grown(6) assms(3)] by (auto simp: owned_def)
  have wf: "wf_state s1" "g_entry_count s1 + 2 \<le> g_capacity s1"
    using grown(4) by (auto simp: ready_def alloc_inv_def)
  have "sane_pages (snd b)" "page dvd unat (fst b)" "unat (fst b) + page_bytes (snd b) < 2 ^ 64"
    "holds s1 (unat (fst b)) (unat (fst b) + page_bytes (snd b)) MEMORY_ALLOCATED"
    using b by (auto simp: owned_def wf_block_def block_lo_def block_hi_def)
  with boot_free_with_room [OF wf this(1-3), of ?grow] obtain s'
    where s': "boot_free_with ?grow s1 (fst b) (snd b) = Inr s'"
      "retyped s1 s' (block_lo b) (block_hi b) MEMORY_FREE"
    by (auto simp: block_lo_def block_hi_def)
  have "boot_free (Suc fuel) s (fst b) (snd b) = Inr s'"
    unfolding boot_free_def
    by (rule boot_free_after_grow [where grow = "maybe_grow_buffer (Suc fuel)", OF grown(3), THEN trans])
      (rule s')
  moreover have "ready s'"
    using grown(4) s'(2) retyped_alloc_inv [OF _ grown(5) s'(2)] b(2)
    by (auto simp: ready_def retyped_def wf_block_def)
  moreover have "owned s' c" if "owned s c" "apart b c" for c
    using keeps_ownersD [OF grown(6) that(1)] that(2) s'(2) wf_block_less [of c]
    by (auto simp: owned_def retyped_def apart_def)
  ultimately show ?case
    by (intro freed [of s'])
qed

section \<open>Sessions\<close>

text \<open>
  A session of a client with an allocator given by its relations: requests that return a block or
  are refused, and frees of blocks the client holds. \<open>session alloc free s0 s B\<close>: from \<open>s0\<close> the
  allocator came to \<open>s\<close> and the client holds the blocks \<open>B\<close>.
\<close>

inductive session ::
  "('s \<Rightarrow> 'q \<Rightarrow> 's \<Rightarrow> 'b option \<Rightarrow> bool) \<Rightarrow> ('s \<Rightarrow> 'b \<Rightarrow> 's \<Rightarrow> bool) \<Rightarrow> 's \<Rightarrow> 's \<Rightarrow> 'b list \<Rightarrow> bool"
  for alloc free s0
where
  start: "session alloc free s0 s0 []"
| granted: "session alloc free s0 s B \<Longrightarrow> alloc s q s' (Some b) \<Longrightarrow> session alloc free s0 s' (b # B)"
| refused: "session alloc free s0 s B \<Longrightarrow> alloc s q s' None \<Longrightarrow> session alloc free s0 s' B"
| freed: "session alloc free s0 s B \<Longrightarrow> b \<in> set B \<Longrightarrow> free s b s' \<Longrightarrow> session alloc free s0 s' (remove1 b B)"

text \<open>The contract of a page allocator, and what a client gets from it.\<close>

locale page_allocator =
  fixes inv :: "'s \<Rightarrow> bool" and own :: "'s \<Rightarrow> 'b \<Rightarrow> bool" and disj :: "'b \<Rightarrow> 'b \<Rightarrow> bool"
    and alloc :: "'s \<Rightarrow> 'q \<Rightarrow> 's \<Rightarrow> 'b option \<Rightarrow> bool" and free :: "'s \<Rightarrow> 'b \<Rightarrow> 's \<Rightarrow> bool"
    and panics :: "'s \<Rightarrow> 'b \<Rightarrow> bool"
  assumes disj_sym: "disj b c \<Longrightarrow> disj c b"
    and alloc_inv: "inv s \<Longrightarrow> alloc s q s' r \<Longrightarrow> inv s'"
    and alloc_owned: "inv s \<Longrightarrow> alloc s q s' (Some b) \<Longrightarrow> own s' b"
    and alloc_fresh: "inv s \<Longrightarrow> alloc s q s' (Some b) \<Longrightarrow> own s c \<Longrightarrow> disj b c"
    and alloc_keeps: "inv s \<Longrightarrow> alloc s q s' r \<Longrightarrow> own s c \<Longrightarrow> own s' c"
    and free_inv: "inv s \<Longrightarrow> own s b \<Longrightarrow> free s b s' \<Longrightarrow> inv s'"
    and free_keeps: "inv s \<Longrightarrow> own s b \<Longrightarrow> own s c \<Longrightarrow> disj b c \<Longrightarrow> free s b s' \<Longrightarrow> own s' c"
    and free_safe: "inv s \<Longrightarrow> own s b \<Longrightarrow> \<not> panics s b"
begin

lemma disj_remove1: "sorted_wrt disj B \<Longrightarrow> b \<in> set B \<Longrightarrow> c \<in> set (remove1 b B) \<Longrightarrow> disj b c"
  by (induction B) (auto split: if_splits intro: disj_sym)

lemma sorted_wrt_remove1: "sorted_wrt disj B \<Longrightarrow> sorted_wrt disj (remove1 b B)"
  using set_remove1_subset by (induction B) fastforce+

lemma session_safe:
  assumes "session alloc free s0 s B" "inv s0"
  shows "inv s \<and> (\<forall>b\<in>set B. own s b) \<and> sorted_wrt disj B"
  using assms
proof (induction rule: session.induct)
  case (granted s B q s' b)
  then show ?case
    using alloc_inv alloc_owned alloc_fresh alloc_keeps by (simp, blast)
next
  case (refused s B q s')
  then show ?case
    using alloc_inv alloc_keeps by blast
next
  case (freed s B b s')
  then have "own s' c" if "c \<in> set (remove1 b B)" for c
    using that disj_remove1 [of B b c] free_keeps [of s b c s'] notin_set_remove1 [of c B b] by blast
  with freed show ?case
    using free_inv sorted_wrt_remove1 by blast
qed simp

lemma session_free_safe:
  "session alloc free s0 s B \<Longrightarrow> inv s0 \<Longrightarrow> b \<in> set B \<Longrightarrow> \<not> panics s b"
  using session_safe free_safe by blast

end

interpretation boot: page_allocator ready owned apart "allocates fuel" "frees fuel" "free_panics fuel" for fuel
proof
  show "apart b c \<Longrightarrow> apart c b" for b c
    by (rule apart_sym)
  show "ready s \<Longrightarrow> allocates fuel s q s' r \<Longrightarrow> ready s'" for s q s' r
    by (rule allocates_facts)
  show "ready s \<Longrightarrow> allocates fuel s q s' (Some b) \<Longrightarrow> owned s' b" for s q s' b
    using allocates_facts(3) by blast
  show "ready s \<Longrightarrow> allocates fuel s q s' (Some b) \<Longrightarrow> owned s c \<Longrightarrow> apart b c" for s q s' b c
    using allocates_facts(4) by blast
  show "ready s \<Longrightarrow> allocates fuel s q s' r \<Longrightarrow> owned s c \<Longrightarrow> owned s' c" for s q s' r c
    using allocates_facts(2) keeps_ownersD by blast
  show "ready s \<Longrightarrow> owned s b \<Longrightarrow> frees fuel s b s' \<Longrightarrow> ready s'" for s b s'
    using owned_free_cases [of s b fuel] by (metis Inl_Inr_False frees_def sum.inject(2))
  show "ready s \<Longrightarrow> owned s b \<Longrightarrow> owned s c \<Longrightarrow> apart b c \<Longrightarrow> frees fuel s b s' \<Longrightarrow> owned s' c" for s b c s'
    using owned_free_cases [of s b fuel] by (metis Inl_Inr_False frees_def sum.inject(2))
  show "ready s \<Longrightarrow> owned s b \<Longrightarrow> \<not> free_panics fuel s b" for s b
    using owned_free_cases [of s b fuel] by (metis Inl_Inr_False fault.distinct(3) free_panics_def sum.inject(1))
qed

end
