(* ===== verification/BootAllocRunaway.thy ===== *)
theory BootAllocRunaway
  imports BootAllocGrow
begin

text \<open>
  Growing an array that is already dynamic: each level of the recursion through \<^verbatim>\<open>boot_free\<close> takes
  another array from the end of the highest free entry that is large enough, and the number of entries
  stays what it was, so the recursion is as deep as that entry is large.
\<close>

text \<open>\<open>topped s b xs cur ys\<close>: the last entry with \<open>b\<close> free bytes is \<open>cur\<close>, and it is larger.\<close>

definition topped :: "boot_alloc_state \<Rightarrow> nat \<Rightarrow> memory_range list \<Rightarrow> memory_range \<Rightarrow> memory_range list \<Rightarrow> bool" where
  "topped s b xs cur ys \<longleftrightarrow> live s = xs @ cur # ys \<and> MR_TYPE cur = MEMORY_FREE \<and> b < mr_len cur \<and>
     (\<forall>r\<in>set ys. \<not> has_pages b r)"

text \<open>\<open>closed_off cur ys\<close>: an allocated entry starts where \<open>cur\<close> ends.\<close>

definition closed_off :: "memory_range \<Rightarrow> memory_range list \<Rightarrow> bool" where
  "closed_off cur ys \<longleftrightarrow> (\<exists>y zs. ys = y # zs \<and> MR_TYPE y = MEMORY_ALLOCATED \<and> mr_lo y = mr_hi cur)"

lemma topped_picked:
  assumes "topped s b xs cur ys" "j < length (live s)" "has_pages b (live s ! j)"
    "\<forall>k. j < k \<longrightarrow> k < length (live s) \<longrightarrow> \<not> has_pages b (live s ! k)"
  shows "j = length xs"
proof (rule linorder_cases [of j "length xs"])
  assume "j < length xs"
  with assms(4) [rule_format, of "length xs"] assms(1) show ?thesis
    by (simp add: topped_def has_pages_def)
next
  assume "length xs < j"
  then obtain i where i: "j = Suc (length xs + i)"
    using less_imp_Suc_add by blast
  with assms(1,2) have "live s ! j = ys ! i" "i < length ys"
    by (auto simp: topped_def nth_append)
  with assms(1,3) show ?thesis
    by (auto simp: topped_def)
qed

lemma allocate_end_edited:
  assumes c: "carving s xs cur ys new" and ends: "mr_lo cur \<noteq> mr_lo new" "mr_hi cur = mr_hi new"
  shows "\<exists>s' y post. allocate_out_of s (length xs) new = Inr s' \<and> edited s s' (xs @ lhs_piece cur new # y # post) \<and>
     MR_TYPE y = MR_TYPE new \<and> mr_lo y = mr_lo new \<and> set post \<subseteq> set ys \<and>
     length post = (if merges_after new ys then length ys - 1 else length ys)"
proof (cases "merges_after new ys")
  case True
  obtain y post where y: "ys = y # post" "is_range (merge_ranges y new) (mr_lo new) (mr_hi y) (MR_TYPE new)"
    using merged_after [OF c True] by blast
  note d = carvingD [OF c]
  have "edited s (set_range (set_range s (length xs) (lhs_piece cur new)) (Suc (length xs)) (merge_ranges y new))
      (xs @ [lhs_piece cur new, merge_ranges y new] @ post)"
    using d y by (intro set_range_two_edited) simp_all
  with y True ends allocate_out_of_eq [OF c] show ?thesis
    by (auto simp: is_range_def)
next
  case False
  note d = carvingD [OF c]
  obtain s' where "range_emplace_at (set_range s (length xs) (lhs_piece cur new)) (length xs + 1) new = Inr s'"
    "edited s s' (xs @ [lhs_piece cur new, new] @ ys)"
    using set_insert_edited [OF d(1-3), of "lhs_piece cur new" new] by blast
  with False ends allocate_out_of_eq [OF c] show ?thesis
    by (intro exI [of _ s'] exI [of _ new] exI [of _ ys]) simp
qed

lemma closed_off_merges:
  assumes "carving s xs cur ys new" "mr_hi cur = mr_hi new" "MR_TYPE new = MEMORY_ALLOCATED"
  shows "closed_off cur ys \<longleftrightarrow> merges_after new ys"
proof (cases ys)
  case (Cons z zs)
  with carvingD(4,6) [OF assms(1)] have "wf_range z" "wf_range new"
    by (simp_all add: ranges_ok_append ranges_ok_Cons)
  with Cons assms(2,3) show ?thesis
    by (auto simp: closed_off_def merges_after_def can_merge_iff)
qed (simp add: closed_off_def merges_after_def)

text \<open>One allocation from such an entry: what is left is below the block, which now closes it off; once
  it is closed off, the number of entries stays the same.\<close>

lemma nogrow_topped:
  assumes wf: "wf_state s" and room: "g_entry_count s + 2 \<le> g_capacity s" and n: "sane_pages n"
    and t: "topped s (page_bytes n) xs cur ys"
  shows "\<exists>s' a lhs zs. boot_alloc_nogrow s n = Inr (s', a) \<and> a \<noteq> 0 \<and> page dvd unat a \<and>
     wf_state s' \<and> same_frame s s' \<and> live s' = xs @ lhs # zs \<and> closed_off lhs zs \<and>
     MR_TYPE lhs = MEMORY_FREE \<and> mr_len lhs + page_bytes n = mr_len cur \<and> (\<forall>r\<in>set zs. \<not> has_pages (page_bytes n) r) \<and>
     length zs = (if closed_off cur ys then length ys else Suc (length ys))"
proof -
  note live = wf_state_live [OF wf]
  have l: "live s = xs @ cur # ys" and free: "MR_TYPE cur = MEMORY_FREE" and len: "page_bytes n < mr_len cur"
    and none: "\<forall>r\<in>set ys. \<not> has_pages (page_bytes n) r"
    using t by (auto simp: topped_def)
  have "cur \<in> set (live s)" "has_pages (page_bytes n) cur"
    using l free len by (auto simp: has_pages_def)
  then obtain j a new where j: "j < g_entry_count s" "has_pages (page_bytes n) (live s ! j)"
      "\<forall>k. j < k \<longrightarrow> k < g_entry_count s \<longrightarrow> \<not> has_pages (page_bytes n) (live s ! k)"
    and a: "unat a + page_bytes n = mr_hi (live s ! j)"
    and new: "is_range new (unat a) (mr_hi (live s ! j)) MEMORY_ALLOCATED"
    and eq: "boot_alloc_nogrow s n = bind_res (allocate_out_of s j new) (\<lambda>s'. Inr (s', a))"
    using boot_alloc_nogrow_picks [OF wf n] by blast
  have j_eq: "j = length xs" and cur: "live s ! j = cur"
    using topped_picked [OF t, of j] j live(2) l by auto
  have lo: "mr_lo cur < unat a"
    using a len cur by (simp add: mr_hi_def)
  have c: "carving s xs cur ys new"
    using wf room l new cur free lo by (auto simp: carving_def wf_state_def is_range_def MEMORY_FREE_def MEMORY_ALLOCATED_def)
  have ends: "mr_lo cur \<noteq> mr_lo new" "mr_hi cur = mr_hi new" and alloc: "MR_TYPE new = MEMORY_ALLOCATED" "mr_lo new = unat a"
    using new cur lo by (auto simp: is_range_def)
  obtain s' y post where s': "allocate_out_of s (length xs) new = Inr s'" "edited s s' (xs @ lhs_piece cur new # y # post)"
    "MR_TYPE y = MR_TYPE new" "mr_lo y = mr_lo new" "set post \<subseteq> set ys"
    "length post = (if merges_after new ys then length ys - 1 else length ys)"
    using allocate_end_edited [OF c ends] by blast
  have lhs: "is_range (lhs_piece cur new) (mr_lo cur) (unat a) MEMORY_FREE"
    using pieces(5) [OF c ends(1)] alloc free by simp
  have "wf_state s'"
    using carves_retyped [OF carves_out_of [OF c] wf] s'(1) by (auto simp: retyped_def)
  moreover have "a \<noteq> 0" "page dvd unat a"
    using lo new wf_range_bounds(3) [of new] by (auto simp: is_range_def)
  moreover have "mr_len (lhs_piece cur new) + page_bytes n = mr_len cur"
  proof -
    have "mr_lo cur + mr_len (lhs_piece cur new) = unat a"
      using lhs by (auto simp: is_range_def mr_hi_def)
    with a cur show ?thesis
      by (simp add: mr_hi_def)
  qed
  moreover have "length (y # post) = (if closed_off cur ys then length ys else Suc (length ys))"
    using s'(6) closed_off_merges [OF c ends(2) alloc(1)] by (auto simp: merges_after_def)
  moreover have "\<not> has_pages (page_bytes n) r" if "r \<in> set (y # post)" for r
    using that s'(3,5) none alloc by (auto simp: has_pages_def MEMORY_FREE_def MEMORY_ALLOCATED_def)
  moreover have "closed_off (lhs_piece cur new) (y # post)"
    using s'(3,4) alloc lhs by (simp add: closed_off_def is_range_def)
  ultimately show ?thesis
    using s'(1,2) eq j_eq lhs
    by (intro exI [of _ s'] exI [of _ a] exI [of _ "lhs_piece cur new"] exI [of _ "y # post"]) (simp add: edited_def is_range_def)
qed

section \<open>The recursion\<close>

text \<open>The pages of the next array.\<close>

definition grown_pages :: "boot_alloc_state \<Rightarrow> 64 word" where
  "grown_pages s = drop_bit PAGE_SHIFT (PAGE_ROUND_UP (of_nat (g_capacity s * 2 * sizeof_memory_range)))"

lemma dynamic_growth_level:
  assumes "\<not> has_room s" "boot_alloc_nogrow s (grown_pages s) = Inr (s1, a)" "a \<noteq> 0" "page dvd unat a"
    "g_buffer_ptr s1 = Direct_Map old" "maybe_grow_buffer fuel s1 = Inl Hang"
  shows "maybe_grow_buffer (Suc fuel) s = Inl Hang"
proof -
  have "\<not> g_capacity s - g_entry_count s \<ge> growth_watermark s"
    using assms(1) by (auto simp: has_room_def growth_watermark_eq)
  moreover have "\<not> error_phys_addr a"
    using aligned_not_error assms(3,4) by blast
  ultimately show ?thesis
    unfolding maybe_grow_buffer.simps Let_def grown_pages_def [symmetric]
    using assms(2,3,5,6) by (simp add: boot_free_with_def Let_def)
qed

lemma dynamic_growth_recursion:
  assumes "wf_state s" "g_buffer_ptr s = Direct_Map old" "\<not> has_room s"
    "g_entry_count s + (if closed_off cur ys then 2 else 3) \<le> g_capacity s"
    "sane_pages (grown_pages s)" "live s = xs @ cur # ys" "MR_TYPE cur = MEMORY_FREE"
    "\<forall>r\<in>set ys. \<not> has_pages (page_bytes (grown_pages s)) r"
    "depth * page_bytes (grown_pages s) < mr_len cur"
  shows "maybe_grow_buffer depth s = Inl Hang"
  using assms
proof (induction depth arbitrary: s cur ys)
  case (Suc depth)
  let ?b = "page_bytes (grown_pages s)"
  have "g_entry_count s + 2 \<le> g_capacity s"
    using Suc.prems(4) by (simp split: if_splits)
  moreover have "topped s ?b xs cur ys"
    using Suc.prems(6-9) by (simp add: topped_def)
  ultimately obtain s1 a lhs zs where s1: "boot_alloc_nogrow s (grown_pages s) = Inr (s1, a)" "a \<noteq> 0" "page dvd unat a"
      "wf_state s1" "same_frame s s1" "live s1 = xs @ lhs # zs" "closed_off lhs zs"
      "MR_TYPE lhs = MEMORY_FREE" "mr_len lhs + ?b = mr_len cur" "\<forall>r\<in>set zs. \<not> has_pages ?b r"
      "length zs = (if closed_off cur ys then length ys else Suc (length ys))"
    using nogrow_topped [OF Suc.prems(1) _ Suc.prems(5)] by blast
  have frame: "g_buffer_ptr s1 = Direct_Map old" "g_capacity s1 = g_capacity s" "grown_pages s1 = grown_pages s"
    "growth_watermark s1 = growth_watermark s"
    using s1(5) Suc.prems(2) by (simp_all add: same_frame_def grown_pages_def growth_watermark_def)
  have count: "g_entry_count s = length xs + 1 + length ys" "g_entry_count s1 = length xs + 1 + length zs"
    using wf_state_live(2) [OF Suc.prems(1)] wf_state_live(2) [OF s1(4)] Suc.prems(6) s1(6) by simp_all
  have "\<not> has_room s1"
    using Suc.prems(3) count s1(11) frame by (auto simp: has_room_def split: if_splits)
  moreover have "g_entry_count s1 + (if closed_off lhs zs then 2 else 3) \<le> g_capacity s1"
    using Suc.prems(4) count s1(7,11) frame by (simp split: if_splits)
  moreover have "depth * page_bytes (grown_pages s1) < mr_len lhs"
    using Suc.prems(9) s1(9) frame by simp
  ultimately have "maybe_grow_buffer depth s1 = Inl Hang"
    using Suc.IH [OF s1(4) frame(1) _ _ _ s1(6,8)] Suc.prems(5) s1(10) frame by simp
  with dynamic_growth_level [OF Suc.prems(3) s1(1-3) frame(1)] show ?case
    by simp
qed simp

text \<open>The entries above the highest fit.\<close>

lemma highest_fit_topped:
  assumes wf: "wf_state s" and fit: "highest_fit s b r"
  shows "\<exists>xs ys. live s = xs @ r # ys \<and> MR_TYPE r = MEMORY_FREE \<and> (\<forall>q\<in>set ys. \<not> has_pages b q)"
proof -
  obtain xs ys where l: "live s = xs @ r # ys"
    using fit by (auto simp: highest_fit_def dest: split_list)
  have "\<not> has_pages b q" if "q \<in> set ys" for q
  proof
    assume q: "has_pages b q"
    have "ranges_ok (xs @ r # ys)"
      using wf l by (simp add: wf_state_def)
    then have "mr_hi r \<le> mr_lo q" "wf_range q"
      using that by (auto simp: ranges_ok_append ranges_ok_Cons) (auto simp: ranges_ok_def)
    with wf_range_bounds(1) [of q] have "mr_hi r < mr_hi q"
      by simp
    with fit q that l show False
      by (auto simp: highest_fit_def)
  qed
  with l fit show ?thesis
    by (auto simp: highest_fit_def has_pages_def)
qed

end
