(* ===== verification/BootAllocTheorems.thy ===== *)
theory BootAllocTheorems
  imports BootAllocator BootAllocRunaway
begin

text \<open>
  The properties of the boot allocator: the exact behaviour of the search, the split and the three
  operations, the round trip, growth, sessions of a client, and initialisation.
\<close>

section \<open>A concrete state for the witnesses\<close>

definition sample_state :: boot_alloc_state where
  "sample_state =
     \<lparr>g_buffer = [\<lparr>physical_address = 0x1000, size_and_type = 0x4000\<rparr>,
                  \<lparr>physical_address = 0x5000, size_and_type = 0x2001\<rparr>]
        @ replicate 14 \<lparr>physical_address = 0, size_and_type = 0\<rparr>,
      g_buffer_ptr = Direct_Map 0x5000, g_capacity = 16, g_entry_count = 2, g_direct_map_base = 0\<rparr>"

lemma sample_live:
  "live sample_state = [\<lparr>physical_address = 0x1000, size_and_type = 0x4000\<rparr>,
     \<lparr>physical_address = 0x5000, size_and_type = 0x2001\<rparr>]"
  by (simp add: sample_state_def live_def)

lemma sample_ranges:
  "mr_len \<lparr>physical_address = 0x1000, size_and_type = 0x4000\<rparr> = 0x4000"
  "mr_len \<lparr>physical_address = 0x5000, size_and_type = 0x2001\<rparr> = 0x2000"
  "MR_TYPE \<lparr>physical_address = 0x1000, size_and_type = 0x4000\<rparr> = MEMORY_FREE"
  "MR_TYPE \<lparr>physical_address = 0x5000, size_and_type = 0x2001\<rparr> = MEMORY_ALLOCATED"
  by (simp_all add: mr_len_eq MR_TYPE_def RANGE_TYPE_MASK_def MEMORY_FREE_def MEMORY_ALLOCATED_def)

lemma sample_ready: "ready sample_state" "has_room sample_state" "serves sample_state"
  "wf_state sample_state" "g_entry_count sample_state = 2" "g_capacity sample_state = 16"
proof -
  show wf: "wf_state sample_state"
    by (simp add: wf_state_def sample_live ranges_ok_def wf_range_def mr_hi_def sample_ranges array_ok_def)
      (simp add: sample_state_def)
  show n: "g_entry_count sample_state = 2" "g_capacity sample_state = 16"
    by (simp_all add: sample_state_def)
  have p: "g_buffer_ptr sample_state = Direct_Map 0x5000"
    by (simp add: sample_state_def)
  show room: "has_room sample_state"
    by (simp add: has_room_def growth_watermark_eq n p)
  then show "serves sample_state"
    by (simp add: serves_def)
  show "ready sample_state"
    using wf n by (simp add: ready_def alloc_inv_def p memory_map_def sample_live)
qed

lemma one_page: "sane_pages 1" "page_bytes 1 = 0x1000"
  by (simp_all add: sane_pages_def page_bytes_def)

section \<open>The search\<close>

text \<open>
  On a sorted array the binary search of \<^verbatim>\<open>find_range\<close> returns the entry that contains the
  address whenever there is one; otherwise, when asked for the entry above, the first entry that
  starts above the address, and -1 when there is none or none was asked for.
\<close>

theorem find_range_exact:
  assumes "wf_state s"
  shows "(\<exists>i<g_entry_count s. holds_addr (live s ! i) (unat v) \<and> find_range s v mode = int i)
    \<or> (\<forall>r\<in>set (live s). \<not> holds_addr r (unat v)) \<and>
       ((\<exists>i<g_entry_count s. unat v < mr_lo (live s ! i) \<and> (\<forall>j<i. mr_hi (live s ! j) \<le> unat v) \<and>
           find_range s v mode = (if mode = ALLOW_ONE_ABOVE_YES then int i else - 1))
        \<or> (\<forall>r\<in>set (live s). mr_hi r \<le> unat v) \<and> find_range s v mode = - 1)"
  by (rule find_range_cases [OF assms, of v mode]) blast+

theorem find_range_exact_witness:
  "(\<exists>i<g_entry_count sample_state. holds_addr (live sample_state ! i) (unat (0x6000 :: 64 word))
      \<and> find_range sample_state 0x6000 ALLOW_ONE_ABOVE_NO = int i)
    \<or> (\<forall>r\<in>set (live sample_state). \<not> holds_addr r (unat (0x6000 :: 64 word)))"
  using find_range_exact [OF sample_ready(4), of "0x6000" ALLOW_ONE_ABOVE_NO] by blast

section \<open>The split\<close>

text \<open>
  C2: Carving a block out of an entry (\<^verbatim>\<open>allocate_out_of\<close>, all four cases): when the block lies in
  the entry and has the other type the array stays sorted, disjoint, page-aligned and within its
  capacity, and the memory map changes in exactly the block; otherwise the code panics.
\<close>

theorem allocate_out_of_exact:
  assumes "wf_state s" "g_entry_count s + 2 \<le> g_capacity s" "i < g_entry_count s" "is_range new lo hi t"
  shows "if mr_lo (live s ! i) \<le> lo \<and> hi \<le> mr_hi (live s ! i) \<and> MR_TYPE (live s ! i) \<noteq> t
    then \<exists>s'. allocate_out_of s i new = Inr s' \<and> wf_state s' \<and> g_entry_count s' \<le> g_entry_count s + 2
           \<and> memory_map s' = (\<lambda>a. if lo \<le> a \<and> a < hi then Some t else memory_map s a)
    else allocate_out_of s i new = Inl Bug"
proof (cases "mr_lo (live s ! i) \<le> lo \<and> hi \<le> mr_hi (live s ! i) \<and> MR_TYPE (live s ! i) \<noteq> t")
  case True
  with allocate_out_of_retyped [OF assms(1-3) _ _ _ assms(4)] show ?thesis
    by (auto simp: retyped_def)
next
  case False
  let ?r = "live s ! i"
  have r: "wf_range ?r" "g_buffer s ! i = ?r"
    using wf_state_live(1,2) [OF assms(1)] assms(3) nth_live by simp_all
  have "physical_address new < physical_address ?r \<or> mr_end ?r < mr_end new \<or> MR_TYPE ?r = MR_TYPE new"
    using False assms(4) wf_range_bounds(5) [OF r(1)] wf_range_bounds(5) [of new]
    by (auto simp: is_range_def word_less_nat_alt mr_lo_def)
  then have "allocate_out_of s i new = Inl Bug"
    by (auto simp: allocate_out_of_def r BUG_ON_def Let_def)
  with False show ?thesis by (simp only: if_False)
qed

theorem allocate_out_of_exact_witness:
  "\<exists>s'. allocate_out_of sample_state 0 \<lparr>physical_address = 0x2000, size_and_type = 0x1001\<rparr> = Inr s'
     \<and> wf_state s' \<and> memory_map s' 0x2FFF = Some MEMORY_ALLOCATED \<and> memory_map s' 0x3000 = Some MEMORY_FREE"
proof -
  have new: "is_range \<lparr>physical_address = 0x2000, size_and_type = 0x1001\<rparr> 0x2000 0x3000 MEMORY_ALLOCATED"
    by (simp add: is_range_def wf_range_def mr_hi_def mr_len_eq MR_TYPE_def RANGE_TYPE_MASK_def MEMORY_ALLOCATED_def)
  have m: "memory_map sample_state 0x3000 = Some MEMORY_FREE"
    by (simp add: memory_map_def sample_live mr_hi_def sample_ranges)
  from allocate_out_of_exact [OF sample_ready(4) _ _ new, of 0] show ?thesis
    using m free_not_allocated by (auto simp: sample_ready sample_live mr_hi_def sample_ranges)
qed

section \<open>The three operations\<close>

text \<open>
  C3: \<^verbatim>\<open>boot_alloc\<close> with room in the array is exact: it hands out the last pages of the highest
  free entry the request fits in, marks exactly them allocated, and fails with \<^verbatim>\<open>ENOMEM\<close>, the state
  unchanged, only when no free entry is large enough.
\<close>

theorem boot_alloc_exact:
  assumes "wf_state s" "has_room s" "sane_pages n"
  shows "(\<forall>r\<in>set (live s). \<not> has_pages (page_bytes n) r) \<and>
      boot_alloc (Suc fuel) s n = Inr (s, encode_error_phys_addr ENOMEM)
    \<or> (\<exists>r s' a. highest_fit s (page_bytes n) r \<and> boot_alloc (Suc fuel) s n = Inr (s', a) \<and>
         unat a + page_bytes n = mr_hi r \<and> wf_state s' \<and> g_entry_count s' + 2 \<le> g_capacity s' \<and>
         memory_map s' = (\<lambda>x. if unat a \<le> x \<and> x < unat a + page_bytes n then Some MEMORY_ALLOCATED
                              else memory_map s x))"
proof -
  have room: "g_entry_count s + 2 \<le> g_capacity s"
    using has_room_two [OF assms(2)] by simp
  have eq: "boot_alloc (Suc fuel) s n = boot_alloc_nogrow s n"
    by (simp add: boot_alloc_def has_room_grow [OF assms(2)] del: maybe_grow_buffer.simps)
  from boot_alloc_nogrow_spec [OF assms(1) room assms(3)] show ?thesis
    unfolding eq using has_room_two [OF assms(2)] by (fastforce simp: retyped_def same_frame_def)
qed

theorem boot_alloc_exact_witness:
  "\<exists>s' a. boot_alloc 1 sample_state 1 = Inr (s', a) \<and> wf_state s' \<and> unat a = 0x4000
     \<and> memory_map s' 0x4000 = Some MEMORY_ALLOCATED"
proof -
  have has_pages: "has_pages (page_bytes 1) r \<longleftrightarrow> r = \<lparr>physical_address = 0x1000, size_and_type = 0x4000\<rparr>"
    if "r \<in> set (live sample_state)" for r
    using that free_not_allocated by (auto simp: sample_live has_pages_def sample_ranges one_page)
  from boot_alloc_exact [OF sample_ready(4,2) one_page(1), of 0] has_pages show ?thesis
    by (auto simp: sample_live highest_fit_def mr_hi_def sample_ranges one_page)
qed

text \<open>
  C4: \<^verbatim>\<open>boot_alloc_at\<close> with room in the array is exact: it succeeds, at the address asked for,
  precisely when the whole block lies in one free entry, and is \<^verbatim>\<open>ENOMEM\<close> with the state
  unchanged otherwise (also when the address is in no entry, or the block crosses an entry's end).
\<close>

theorem boot_alloc_at_exact:
  assumes "wf_state s" "has_room s" "sane_pages n" "page dvd unat a" "unat a + page_bytes n < 2 ^ 64"
  shows "if \<exists>r\<in>set (live s). mr_lo r \<le> unat a \<and> unat a + page_bytes n \<le> mr_hi r \<and> MR_TYPE r = MEMORY_FREE
    then \<exists>s'. boot_alloc_at (Suc fuel) s a n = Inr (s', a) \<and> wf_state s' \<and>
           memory_map s' = (\<lambda>x. if unat a \<le> x \<and> x < unat a + page_bytes n then Some MEMORY_ALLOCATED
                                else memory_map s x)
    else boot_alloc_at (Suc fuel) s a n = Inr (s, encode_error_phys_addr ENOMEM)"
proof -
  have room: "g_entry_count s + 2 \<le> g_capacity s"
    using has_room_two [OF assms(2)] by simp
  have eq: "boot_alloc_at (Suc fuel) s a n = allocate_within s n a (a + n * PAGE_SIZE)"
    by (simp add: boot_alloc_at_def has_room_grow [OF assms(2)] push_bit_pages del: maybe_grow_buffer.simps)
  from allocate_at_spec [OF assms(1) room assms(3-5) refl] show ?thesis
    unfolding eq holds_def within_one_def by (fastforce simp: retyped_def split: if_splits)
qed

theorem boot_alloc_at_exact_witness:
  "\<exists>s'. boot_alloc_at 1 sample_state 0x2000 1 = Inr (s', 0x2000) \<and> memory_map s' 0x2000 = Some MEMORY_ALLOCATED"
  using boot_alloc_at_exact [OF sample_ready(4,2) one_page(1), of "0x2000" 0]
  by (auto simp: sample_live mr_hi_def sample_ranges one_page)

text \<open>
  C5: \<^verbatim>\<open>boot_free\<close> with room in the array is exact: a block that lies in one allocated entry is
  given back and nothing else changes; freeing anything else (a free block, a block twice, an
  address in no entry, more than the entry holds) panics.
\<close>

theorem boot_free_exact:
  assumes "wf_state s" "has_room s" "sane_pages n" "page dvd unat a" "unat a + page_bytes n < 2 ^ 64"
  shows "if \<exists>r\<in>set (live s). mr_lo r \<le> unat a \<and> unat a + page_bytes n \<le> mr_hi r \<and> MR_TYPE r = MEMORY_ALLOCATED
    then \<exists>s'. boot_free (Suc fuel) s a n = Inr s' \<and> wf_state s' \<and>
           memory_map s' = (\<lambda>x. if unat a \<le> x \<and> x < unat a + page_bytes n then Some MEMORY_FREE
                                else memory_map s x)
    else boot_free (Suc fuel) s a n = Inl Bug"
proof -
  have room: "g_entry_count s + 2 \<le> g_capacity s"
    using has_room_two [OF assms(2)] by simp
  from boot_free_with_room [where grow = "maybe_grow_buffer (Suc fuel)", OF assms(1) room assms(3-5) has_room_grow [OF assms(2)]]
  show ?thesis
    unfolding boot_free_def holds_def within_one_def by (fastforce simp: retyped_def split: if_splits)
qed

theorem boot_free_exact_witness:
  "(\<exists>s'. boot_free 1 sample_state 0x5000 1 = Inr s' \<and> memory_map s' 0x5000 = Some MEMORY_FREE)
    \<and> boot_free 1 sample_state 0x4000 1 = Inl Bug"
  using boot_free_exact [OF sample_ready(4,2) one_page(1), of "0x5000" 0]
    boot_free_exact [OF sample_ready(4,2) one_page(1), of "0x4000" 0] free_not_allocated
  by (auto simp: sample_live mr_hi_def sample_ranges one_page)



section \<open>Growing the array\<close>

text \<open>
  C9: The first growth of the array (the static array of 256 entries with fewer than four free):
  either no free entry holds the two pages of the new array, and then the copy goes to the address
  the error code encodes, or the entries move to a 512-entry array, whose two pages are taken from
  the end of the highest free entry they fit in, no other address changing, and the allocator has
  room for the next request.
\<close>

theorem first_growth_exact:
  assumes "ready s" "\<not> has_room s" "g_buffer_ptr s = Initial_Buffer"
  shows "if \<forall>r\<in>set (live s). \<not> has_pages 8192 r then maybe_grow_buffer (Suc fuel) s = Inl Wild
    else \<exists>s' r a. maybe_grow_buffer (Suc fuel) s = Inr (s', True) \<and> wf_state s' \<and> has_room s'
      \<and> g_capacity s' = 512 \<and> highest_fit s 8192 r \<and> unat a + 8192 = mr_hi r
      \<and> g_buffer_ptr s' = Direct_Map (phys_to_virt (g_direct_map_base s) a)
      \<and> memory_map s' = (\<lambda>x. if unat a \<le> x \<and> x < unat a + 8192 then Some MEMORY_ALLOCATED
                             else memory_map s x)"
proof -
  have inv: "alloc_inv s" "wf_state s" and cap: "g_capacity s = 256" and z: "memory_map s 0 \<noteq> Some MEMORY_FREE"
    using assms by (auto simp: ready_def alloc_inv_def initial_capacity)
  from first_growth_spec [OF inv(1) assms(2,3), of fuel, unfolded sane_two_pages(2)] show ?thesis
  proof (elim disjE conjE exE)
    assume none: "\<forall>r\<in>set (live s). \<not> has_pages 8192 r" and "maybe_grow_buffer (Suc fuel) s = Inl Wild"
    then show ?thesis by (subst if_P [OF none])
  next
    fix r s1 a
    assume *: "highest_fit s 8192 r" "unat a + 8192 = mr_hi r"
      "retyped s s1 (unat a) (unat a + 8192) MEMORY_ALLOCATED"
      "if a = 0 then maybe_grow_buffer (Suc fuel) s = Inr (s1, False)
       else \<exists>s'. maybe_grow_buffer (Suc fuel) s = Inr (s', True) \<and> moved_to s1 s' a"
    have "holds s (unat a) (unat a + 8192) MEMORY_FREE"
      using highest_fit_holds [OF inv(2), of 2 r a] * by (simp add: sane_two_pages)
    then have "a \<noteq> 0"
      using holds_map [OF inv(2), of "unat a" "unat a + 8192" MEMORY_FREE 0] z by auto
    then obtain s' where s': "maybe_grow_buffer (Suc fuel) s = Inr (s', True)" "moved_to s1 s' a"
      using *(4) by auto
    have "memory_map s' = memory_map s1" "wf_state s'" "has_room s'" "g_capacity s' = 512"
      "g_buffer_ptr s' = Direct_Map (phys_to_virt (g_direct_map_base s) a)"
      using s'(2) *(3) cap
      by (auto simp: moved_to_def memory_map_def wf_state_def retyped_def has_room_def growth_watermark_eq
          same_frame_def array_ok_def)
    moreover have "\<not> (\<forall>r\<in>set (live s). \<not> has_pages 8192 r)"
      using *(1) by (auto simp: highest_fit_def)
    ultimately show ?thesis
      using s'(1) * by (simp only: if_False) (intro exI [of _ s'] exI [of _ r] exI [of _ a], simp add: retyped_def del: maybe_grow_buffer.simps)
  qed
qed

text \<open>
  C10: Growing a dynamic array runs away: \<^verbatim>\<open>maybe_grow_buffer\<close> frees the old array through
  \<^verbatim>\<open>boot_free\<close>, which asks for room again while the capacity is still the old one, so it allocates
  another array, and so on: on an array at its watermark with three slots left, whose highest fitting free
  entry is larger than \<open>depth\<close> new arrays, the recursion is more than \<open>depth\<close> levels deep.
\<close>

theorem dynamic_growth_runs_away:
  assumes "wf_state s" "g_buffer_ptr s = Direct_Map old" "\<not> has_room s" "g_entry_count s + 3 \<le> g_capacity s"
    and "sane_pages (grown_pages s)" "highest_fit s (page_bytes (grown_pages s)) r"
    and "depth * page_bytes (grown_pages s) < mr_len r"
  shows "maybe_grow_buffer depth s = Inl Hang"
proof -
  obtain xs ys where "live s = xs @ r # ys" "MR_TYPE r = MEMORY_FREE" "\<forall>q\<in>set ys. \<not> has_pages (page_bytes (grown_pages s)) q"
    using highest_fit_topped [OF assms(1,6)] by blast
  with assms show ?thesis
    by (intro dynamic_growth_recursion [of s old r ys xs]) (simp_all split: if_splits)
qed

text \<open>An array of eight entries below 256 free pages: 255 levels.\<close>

definition deep_state :: boot_alloc_state where
  "deep_state =
     \<lparr>g_buffer = [\<lparr>physical_address = 0x1000, size_and_type = 0x100000\<rparr>,
                  \<lparr>physical_address = 0x101000, size_and_type = 0x1001\<rparr>,
                  \<lparr>physical_address = 0x200000, size_and_type = 0x1001\<rparr>]
        @ replicate 5 \<lparr>physical_address = 0, size_and_type = 0\<rparr>,
      g_buffer_ptr = Direct_Map 0x101000, g_capacity = 8, g_entry_count = 3, g_direct_map_base = 0\<rparr>"

theorem dynamic_growth_runs_away_witness: "maybe_grow_buffer 255 deep_state = Inl Hang"
proof -
  let ?r = "\<lparr>physical_address = 0x1000, size_and_type = 0x100000\<rparr>"
  have live: "live deep_state = [?r, \<lparr>physical_address = 0x101000, size_and_type = 0x1001\<rparr>,
      \<lparr>physical_address = 0x200000, size_and_type = 0x1001\<rparr>]"
    by (simp add: deep_state_def live_def)
  have ranges: "mr_len ?r = 0x100000" "MR_TYPE ?r = MEMORY_FREE"
    "mr_len \<lparr>physical_address = 0x101000, size_and_type = 0x1001\<rparr> = 0x1000"
    "MR_TYPE \<lparr>physical_address = 0x101000, size_and_type = 0x1001\<rparr> = MEMORY_ALLOCATED"
    "mr_len \<lparr>physical_address = 0x200000, size_and_type = 0x1001\<rparr> = 0x1000"
    "MR_TYPE \<lparr>physical_address = 0x200000, size_and_type = 0x1001\<rparr> = MEMORY_ALLOCATED"
    by (simp_all add: mr_len_eq MR_TYPE_def RANGE_TYPE_MASK_def MEMORY_FREE_def MEMORY_ALLOCATED_def)
  have wf: "wf_state deep_state"
    by (simp add: wf_state_def live ranges_ok_def wf_range_def mr_hi_def ranges array_ok_def) (simp add: deep_state_def)
  have s: "g_buffer_ptr deep_state = Direct_Map 0x101000" "g_entry_count deep_state = 3" "g_capacity deep_state = 8"
    by (simp_all add: deep_state_def)
  have pages: "grown_pages deep_state = 1"
    by (simp add: grown_pages_def s PAGE_ROUND_UP_def ALIGN_UP_def PAGE_SIZE_def PAGE_SHIFT_def sizeof_memory_range_def)
  have "\<not> has_room deep_state"
    by (simp add: has_room_def growth_watermark_eq s)
  moreover have "highest_fit deep_state (page_bytes 1) ?r"
    by (simp add: highest_fit_def live has_pages_def ranges one_page MEMORY_FREE_def MEMORY_ALLOCATED_def)
  ultimately show ?thesis
    using dynamic_growth_runs_away [OF wf s(1), of ?r 255] by (simp add: s pages one_page ranges)
qed

text \<open>When the memory is used up, the error code is used as an address.\<close>

lemma dynamic_growth_ends_wild:
  "maybe_grow_buffer 8
     \<lparr>g_buffer = [\<lparr>physical_address = 0x1000, size_and_type = 0x3000\<rparr>,
                  \<lparr>physical_address = 0x4000, size_and_type = 0x1001\<rparr>,
                  \<lparr>physical_address = 0x8000, size_and_type = 0x1001\<rparr>,
                  \<lparr>physical_address = 0xA000, size_and_type = 0x1001\<rparr>]
        @ replicate 4 \<lparr>physical_address = 0, size_and_type = 0\<rparr>,
      g_buffer_ptr = Direct_Map 0x4000, g_capacity = 8, g_entry_count = 4, g_direct_map_base = 0\<rparr>
   = Inl Wild"
  by code_simp

text \<open>A full static array, for the witness: 253 free entries of four pages.\<close>

definition full_entry :: "nat \<Rightarrow> memory_range" where
  "full_entry i = \<lparr>physical_address = of_nat (0x10000 * (i + 1)), size_and_type = 0x4000\<rparr>"

definition full_state :: boot_alloc_state where
  "full_state = (initial_state 0)\<lparr>g_buffer := map full_entry [0..<256], g_entry_count := 253\<rparr>"

lemma full_entry_range:
  assumes "i < 256"
  shows "mr_lo (full_entry i) = 0x10000 * (i + 1)" "mr_len (full_entry i) = 0x4000"
    "MR_TYPE (full_entry i) = MEMORY_FREE" "wf_range (full_entry i)"
proof -
  show lo: "mr_lo (full_entry i) = 0x10000 * (i + 1)"
    using assms unfolding full_entry_def mr_lo_record unsigned_of_nat by (simp add: take_bit_eq_mod)
  show len: "mr_len (full_entry i) = 0x4000"
    by (simp add: mr_len_eq full_entry_def)
  show "MR_TYPE (full_entry i) = MEMORY_FREE"
    by (simp add: MR_TYPE_def RANGE_TYPE_MASK_def MEMORY_FREE_def full_entry_def)
  have "page dvd 0x10000 * (i + 1)"
    by (rule dvd_mult2) simp
  then show "wf_range (full_entry i)"
    using assms unfolding wf_range_def mr_hi_def lo len by simp
qed

lemma full_live: "live full_state = map full_entry [0..<253]"
  by (simp add: live_def full_state_def take_map)

lemma full_ready: "ready full_state" "\<not> has_room full_state" "g_buffer_ptr full_state = Initial_Buffer"
proof -
  have "sorted_wrt (\<lambda>r q. mr_hi r \<le> mr_lo q) (map full_entry [0..<253])"
    by (auto simp: sorted_wrt_iff_nth_less mr_hi_def full_entry_range)
  then have "wf_state full_state"
    by (simp add: wf_state_def full_live ranges_ok_def full_entry_range array_ok_def)
      (simp add: full_state_def initial_state_def initial_capacity)
  moreover have "memory_map full_state 0 = None"
    by (auto simp: memory_map_def addr_type_None_iff full_live full_entry_range)
  moreover have "g_capacity full_state = 256" "g_entry_count full_state = 253"
    by (simp_all add: full_state_def initial_state_def initial_capacity)
  moreover show "g_buffer_ptr full_state = Initial_Buffer"
    by (simp add: full_state_def initial_state_def)
  ultimately show "ready full_state" "\<not> has_room full_state"
    by (simp_all add: ready_def alloc_inv_def initial_capacity has_room_def growth_watermark_eq)
qed

lemma full_fits: "full_entry 0 \<in> set (live full_state)" "has_pages 8192 (full_entry 0)"
  by (simp_all add: full_live has_pages_def full_entry_range)

theorem first_growth_exact_witness:
  "\<exists>s'. maybe_grow_buffer 1 full_state = Inr (s', True) \<and> wf_state s' \<and> g_capacity s' = 512"
proof -
  have "\<not> (\<forall>r\<in>set (live full_state). \<not> has_pages 8192 r)"
    using full_fits by blast
  with first_growth_exact [OF full_ready, of 0] show ?thesis
    unfolding One_nat_def by (simp only: if_False) blast
qed

definition stale_state :: boot_alloc_state where
  "stale_state =
     \<lparr>g_buffer = [\<lparr>physical_address = 0x1000, size_and_type = 0x1001\<rparr>,
                  \<lparr>physical_address = 0x2000, size_and_type = 0x1000\<rparr>,
                  \<lparr>physical_address = 0x3000, size_and_type = 0x1001\<rparr>]
        @ replicate 5 \<lparr>physical_address = 0, size_and_type = 0\<rparr>,
      g_buffer_ptr = Direct_Map 0x1000, g_capacity = 8, g_entry_count = 3, g_direct_map_base = 0\<rparr>"

text \<open>
  Where the recursion does end, the new array is stale: the entries are copied before the old
  array is freed, the count is taken after. The free of the old array is lost and the count covers
  a slot that was never written.
\<close>

lemma dynamic_growth_copies_stale_entries:
  "case maybe_grow_buffer 8 stale_state of
     Inr (s, ok) \<Rightarrow> ok \<and> g_capacity s = 256 \<and> map physical_address (live s) = [0x1000, 0]
       \<and> map size_and_type (live s) = [0x3001, 0]
   | Inl _ \<Rightarrow> False"
  by code_simp

section \<open>Sessions\<close>


lemma sample_session:
  obtains s' where "boot_alloc 1 sample_state 1 = Inr (s', 0x4000)" "has_room s'"
    "session (allocates 0) (frees 0) sample_state s' [(0x4000, 1)]"
proof -
  define r where "r = boot_alloc 1 sample_state 1"
  have "case r of Inr (s', a) \<Rightarrow> a = 0x4000 \<and> g_entry_count s' = 2 \<and> g_capacity s' = 16
      \<and> g_buffer_ptr s' = Direct_Map 0x5000 | Inl _ \<Rightarrow> False"
    unfolding r_def by code_simp
  then obtain s' where s': "boot_alloc 1 sample_state 1 = Inr (s', 0x4000)" "has_room s'"
    unfolding r_def by (auto simp: has_room_def growth_watermark_eq split: sum.splits)
  have "\<not> error_phys_addr 0x4000"
    by (simp add: error_phys_addr_def MAX_ERRNO_def)
  then have "allocates 0 sample_state (Any_Pages 1) s' (Some (0x4000, 1))"
    using s' sample_ready(3) one_page by (simp add: allocates_def)
  then have "session (allocates 0) (frees 0) sample_state s' [(0x4000, 1)]"
    by (rule session.granted [OF session.start])
  with s' show ?thesis by (rule that)
qed




section \<open>Initialisation\<close>

text \<open>The ranges the loader's map stands for: free and reclaimable entries, in order.\<close>

fun map_ranges :: "ultra_memory_map_entry list \<Rightarrow> memory_range list" where
  "map_ranges [] = []"
| "map_ranges (e # es) = (case entry_range_type e of
      None \<Rightarrow> map_ranges es
    | Some t \<Rightarrow> \<lparr>physical_address = entry_physical_address e, size_and_type = MR_ENCODE (entry_size e) t\<rparr>
                # map_ranges es)"

lemma range_append_edited:
  assumes "array_ok s" "has_room s"
  shows "\<exists>s'. range_append (Suc fuel) s r = Inr (s', None) \<and> edited s s' (live s @ [r])"
proof -
  have "g_entry_count s < g_capacity s"
    using has_room_two [OF assms(2)] by simp
  from range_emplace_at_edited [OF assms(1) this, of "live s" "[]" r] show ?thesis
    using assms by (auto simp: range_append_def has_room_grow simp del: maybe_grow_buffer.simps)
qed

lemma boot_alloc_init_live:
  assumes "array_ok s" "g_buffer_ptr s = Initial_Buffer" "g_capacity s = 256"
    "g_entry_count s + length (map_ranges es) \<le> 253"
  shows "\<exists>s'. boot_alloc_init (Suc fuel) s es = Inr s' \<and> edited s s' (live s @ map_ranges es)"
  using assms
proof (induction es arbitrary: s)
  case Nil
  then show ?case by (auto simp: edited_refl)
next
  case (Cons e es)
  show ?case
  proof (cases "entry_range_type e")
    case None
    with Cons show ?thesis by simp
  next
    case (Some t)
    let ?r = "\<lparr>physical_address = entry_physical_address e, size_and_type = MR_ENCODE (entry_size e) t\<rparr>"
    have "has_room s"
      using Cons.prems Some by (simp add: has_room_def growth_watermark_eq)
    from range_append_edited [OF Cons.prems(1) this, of fuel ?r] obtain s1
      where s1: "range_append (Suc fuel) s ?r = Inr (s1, None)" "edited s s1 (live s @ [?r])" by blast
    then have a: "array_ok s1" "g_buffer_ptr s1 = Initial_Buffer" "g_capacity s1 = 256"
        "live s1 = live s @ [?r]"
      using Cons.prems by (auto simp: edited_def same_frame_def)
    then have "g_entry_count s1 = g_entry_count s + 1"
      using length_live [OF a(1)] length_live [OF Cons.prems(1)] by simp
    with Cons.IH [OF a(1-3)] Cons.prems Some obtain s2
      where "boot_alloc_init (Suc fuel) s1 es = Inr s2" "edited s1 s2 (live s1 @ map_ranges es)" by auto
    with s1 a Some edited_trans [OF s1(2)] show ?thesis by simp
  qed
qed

lemma initial_state_ok: "array_ok (initial_state base)" "live (initial_state base) = []"
  by (simp_all add: array_ok_def initial_state_def live_def)

lemma boot_alloc_init_map:
  assumes "ranges_ok (map_ranges es)" "length (map_ranges es) \<le> 253"
  shows "\<exists>s. boot_alloc_init (Suc fuel) (initial_state base) es = Inr s \<and> wf_state s
    \<and> g_entry_count s + 2 \<le> g_capacity s \<and> memory_map s = addr_type (map_ranges es)"
proof -
  have "g_buffer_ptr (initial_state base) = Initial_Buffer" "g_capacity (initial_state base) = 256"
    "g_entry_count (initial_state base) = 0"
    by (simp_all add: initial_state_def initial_capacity)
  with boot_alloc_init_live [OF initial_state_ok(1), of base es fuel] assms(2) obtain s
    where s: "boot_alloc_init (Suc fuel) (initial_state base) es = Inr s"
      "edited (initial_state base) s (map_ranges es)" "g_capacity s = 256"
    by (auto simp: initial_state_ok edited_def same_frame_def)
  then have "g_entry_count s = length (map_ranges es)"
    using length_live [of s] by (simp add: edited_def)
  with s assms show ?thesis
    by (auto simp: edited_def wf_state_def memory_map_def)
qed


definition sample_entries :: "ultra_memory_map_entry list" where
  "sample_entries =
    [\<lparr>entry_physical_address = 0x1000, entry_size = 0x4000, entry_type = ULTRA_MEMORY_TYPE_FREE\<rparr>,
     \<lparr>entry_physical_address = 0x5000, entry_size = 0x2000, entry_type = ULTRA_MEMORY_TYPE_KERNEL_BINARY\<rparr>,
     \<lparr>entry_physical_address = 0x9000, entry_size = 0x1000, entry_type = 2\<rparr>]"

lemma sample_entries_ranges:
  "map_ranges sample_entries = live sample_state"
  by (simp add: sample_entries_def sample_live entry_range_type_def ULTRA_MEMORY_TYPE_FREE_def
      ULTRA_MEMORY_TYPE_KERNEL_BINARY_def ULTRA_MEMORY_TYPE_RECLAIMABLE_def
      ULTRA_MEMORY_TYPE_LOADER_RECLAIMABLE_def MR_ENCODE_def MEMORY_FREE_def MEMORY_ALLOCATED_def)


end
