(* ===== verification/Format.thy ===== *)
theory Format
  imports Conversions
begin

text \<open>
  \<^verbatim>\<open>kernel/common/format.c\<close> and \<^verbatim>\<open>include/common/format.h\<close>: \<^verbatim>\<open>vsnprintf\<close> and what it is made of, as
  built for a 64-bit target. The output buffer is the list of the characters of the object the
  caller passed, so that a write past its end is a \<open>Wild\<close> fault; the temporary \<^verbatim>\<open>repr_buffer\<close> of
  \<^verbatim>\<open>write_integer\<close>, filled from its end, is the list of the characters filled so far, at most
  \<open>REPR_BUFFER_SIZE\<close> of them. The \<^verbatim>\<open>va_list\<close> is a list of typed arguments; reading an argument of
  another type, or one that is not there, is undefined in C and a \<open>Wild\<close> fault here.
  \<open>FormatTheorems\<close> proves what it does.
\<close>

section \<open>The output buffer\<close>

record fmt_buf_state =
  buffer :: "char list"
  capacity :: nat
  bytes_written :: nat

record fmt_spec =
  is_signed :: bool
  prepend :: bool
  uppercase :: bool
  left_justify :: bool
  alternate_form :: bool
  has_precision :: bool
  pad_char :: char
  prepend_char :: char
  min_width :: "64 word"
  precision :: "64 word"
  base :: "32 word"

definition put_char :: "fmt_buf_state \<Rightarrow> nat \<Rightarrow> char \<Rightarrow> fmt_buf_state res" where
  "put_char fb i c =
     (if i < length (buffer fb) then Inr (fb\<lparr>buffer := (buffer fb)[i := c]\<rparr>) else Inl Wild)"

definition write_one :: "fmt_buf_state \<Rightarrow> char \<Rightarrow> fmt_buf_state res" where
  "write_one fb c =
     bind_res (if bytes_written fb < capacity fb then put_char fb (bytes_written fb) c else Inr fb)
       (\<lambda>fb'. Inr (fb'\<lparr>bytes_written := bytes_written fb' + 1\<rparr>))"

text \<open>The \<^verbatim>\<open>memcpy\<close> of \<^verbatim>\<open>write_many\<close>, within the source and the destination object.\<close>

definition put_many :: "fmt_buf_state \<Rightarrow> nat \<Rightarrow> cptr \<Rightarrow> nat \<Rightarrow> fmt_buf_state res" where
  "put_many fb i src n =
     (if n \<le> length (ptr_chars src) \<and> i + n \<le> length (buffer fb)
      then Inr (fb\<lparr>buffer := take i (buffer fb) @ take n (ptr_chars src) @ drop (i + n) (buffer fb)\<rparr>)
      else Inl Wild)"

definition write_many :: "fmt_buf_state \<Rightarrow> cptr \<Rightarrow> nat \<Rightarrow> fmt_buf_state res" where
  "write_many fb src count =
     bind_res
       (if bytes_written fb < capacity fb
        then let count_to_write = C_MIN count (capacity fb - bytes_written fb)
             in put_many fb (bytes_written fb) src count_to_write
        else Inr fb)
       (\<lambda>fb'. Inr (fb'\<lparr>bytes_written := bytes_written fb' + count\<rparr>))"

section \<open>Integers\<close>

definition hex_char :: "bool \<Rightarrow> 64 word \<Rightarrow> char" where
  "hex_char upper value = (if upper then ''0123456789ABCDEF'' else ''0123456789abcdef'') ! unat value"

text \<open>\<^verbatim>\<open>while (mw--) write_one(...)\<close>, with the number of rounds left.\<close>

fun write_padding_loop :: "nat \<Rightarrow> char \<Rightarrow> fmt_buf_state \<Rightarrow> fmt_buf_state res" where
  "write_padding_loop 0 c fb = Inr fb"
| "write_padding_loop (Suc n) c fb = bind_res (write_one fb c) (write_padding_loop n c)"

definition write_padding :: "fmt_buf_state \<Rightarrow> fmt_spec \<Rightarrow> nat \<Rightarrow> fmt_buf_state res" where
  "write_padding fb fm repr_size =
     (if min_width fm \<le> of_nat repr_size then Inr fb
      else write_padding_loop (unat (min_width fm - of_nat repr_size))
             (if left_justify fm then CHR '' '' else pad_char fm) fb)"

definition REPR_BUFFER_SIZE :: nat where
  "REPR_BUFFER_SIZE = 32"

definition push_repr :: "char \<Rightarrow> char list \<Rightarrow> char list res" where
  "push_repr c repr = (if REPR_BUFFER_SIZE \<le> length repr then Inl Wild else Inr (c # repr))"

definition repr_char :: "fmt_spec \<Rightarrow> 64 word \<Rightarrow> char" where
  "repr_char fm remainder =
     (if base fm = 16 then hex_char (uppercase fm) remainder
      else if base fm = 8 \<or> base fm = 10 then char_of (unat remainder + char_code (CHR ''0''))
      else CHR ''?'')"

text \<open>\<^verbatim>\<open>while (value)\<close>: one character per round; the loop cannot outlast the 32 slots.\<close>

function repr_loop :: "fmt_spec \<Rightarrow> 64 word \<Rightarrow> char list \<Rightarrow> char list res" where
  "repr_loop fm value repr =
     (if value = 0 then Inr repr
      else bind_res (push_repr (repr_char fm (value mod ucast (base fm))) repr)
             (repr_loop fm (value div ucast (base fm))))"
  by pat_completeness auto
termination
  by (relation "measure (\<lambda>(fm, value, repr). REPR_BUFFER_SIZE - length repr)")
    (auto simp: push_repr_def split: if_splits)

declare repr_loop.simps [simp del]

definition alternate_prefix :: "fmt_spec \<Rightarrow> char list \<Rightarrow> char list res" where
  "alternate_prefix fm repr =
     (if alternate_form fm
      then if base fm = 16
           then bind_res (push_repr (if uppercase fm then CHR ''X'' else CHR ''x'') repr)
                  (push_repr (CHR ''0''))
           else if base fm = 8 then push_repr (CHR ''0'') repr
           else Inr repr
      else Inr repr)"

definition write_integer :: "fmt_buf_state \<Rightarrow> fmt_spec \<Rightarrow> 64 word \<Rightarrow> fmt_buf_state res" where
  "write_integer fb fm value =
     (let negative = (is_signed fm \<and> value <s 0);
          value' = (if negative then - value else value)
      in bind_res (if prepend fm \<or> negative
                   then write_one fb (if negative then CHR ''-'' else prepend_char fm) else Inr fb) (\<lambda>fb1.
         bind_res (repr_loop fm value' []) (\<lambda>repr.
         bind_res (if repr = [] then push_repr (CHR ''0'') repr else Inr repr) (\<lambda>repr'.
         bind_res (alternate_prefix fm repr') (\<lambda>full.
           if left_justify fm
           then bind_res (write_many fb1 (Ptr full) (length full)) (\<lambda>fb2. write_padding fb2 fm (length full))
           else bind_res (write_padding fb1 fm (length full)) (\<lambda>fb2. write_many fb2 (Ptr full) (length full)))))))"

section \<open>The format string\<close>

function consume_digits_loop :: "cstring \<Rightarrow> cstring \<Rightarrow> (cstring \<times> cstring) res" where
  "consume_digits_loop fmt out_digits =
     (if str_empty fmt then Inr (fmt, out_digits)
      else bind_res (char_at fmt 0) (\<lambda>c.
             if \<not> isdigit c then Inr (fmt, out_digits)
             else bind_res (str_extend_by out_digits 1) (\<lambda>out_digits'.
                  bind_res (str_offset_by fmt 1) (\<lambda>fmt'. consume_digits_loop fmt' out_digits'))))"
  by pat_completeness auto
termination
  by (relation "measure (\<lambda>(fmt, out). str_size fmt)")
    (auto simp: str_empty_def str_offset_by_def BUG_ON_def split: if_splits)

declare consume_digits_loop.simps [simp del]

definition consume_digits :: "cstring \<Rightarrow> (cstring \<times> cstring) res" where
  "consume_digits fmt = consume_digits_loop fmt \<lparr>str_text = str_text fmt, str_size = 0\<rparr>"

datatype parse_number_mode = PARSE_NUMBER_MODE_MAYBE | PARSE_NUMBER_MODE_MUST

text \<open>\<^verbatim>\<open>parse_number\<close>: the rest of the format, and \<open>Inr None\<close> when \<^verbatim>\<open>*out_value\<close> is left as it was.\<close>

definition parse_number ::
  "cstring \<Rightarrow> parse_number_mode \<Rightarrow> (cstring \<times> (errno + 64 word option)) res" where
  "parse_number fmt mode =
     bind_res (consume_digits fmt) (\<lambda>(fmt', digits).
       if str_empty digits
       then Inr (fmt', if mode = PARSE_NUMBER_MODE_MUST then Inl EINVAL else Inr None)
       else bind_res (str_to_u64_with_base digits 10) (\<lambda>ret. Inr (fmt', map_sum id Some ret)))"

definition consume :: "cstring \<Rightarrow> cstring \<Rightarrow> (bool \<times> cstring) res" where
  "consume fmt tok =
     bind_res (str_starts_with fmt tok) (\<lambda>yes.
       if \<not> yes then Inr (False, fmt)
       else bind_res (str_offset_by fmt (str_size tok)) (\<lambda>fmt'. Inr (True, fmt')))"

definition consume_one_of :: "cstring \<Rightarrow> cstring \<Rightarrow> (char option \<times> cstring) res" where
  "consume_one_of str tok_list =
     (if str_empty str then Inr (None, str)
      else bind_res (char_at str 0) (\<lambda>c.
           bind_res (str_find_one tok_list c 0) (\<lambda>i.
             if i < 0 then Inr (None, str)
             else bind_res (char_at tok_list (nat i)) (\<lambda>consumed_char.
                  bind_res (str_offset_by str 1) (\<lambda>str'. Inr (Some consumed_char, str'))))))"

definition base_from_specifier :: "char \<Rightarrow> 32 word" where
  "base_from_specifier specifier =
     (if specifier = CHR ''x'' \<or> specifier = CHR ''X'' then 16
      else if specifier = CHR ''o'' then 8 else 10)"

definition is_uppercase_specifier :: "char \<Rightarrow> bool" where
  "is_uppercase_specifier specifier \<longleftrightarrow> specifier = CHR ''X''"

section \<open>Arguments\<close>

datatype va_arg =
    Va_int "32 word"
  | Va_long "64 word"
  | Va_chars cptr
  | Va_string "cstring option"
  | Va_ptr "64 word"

fun va_int :: "va_arg list \<Rightarrow> (32 word \<times> va_arg list) res" where
  "va_int (Va_int v # rest) = Inr (v, rest)"
| "va_int _ = Inl Wild"

fun va_long :: "va_arg list \<Rightarrow> (64 word \<times> va_arg list) res" where
  "va_long (Va_long v # rest) = Inr (v, rest)"
| "va_long _ = Inl Wild"

fun va_chars :: "va_arg list \<Rightarrow> (cptr \<times> va_arg list) res" where
  "va_chars (Va_chars p # rest) = Inr (p, rest)"
| "va_chars _ = Inl Wild"

fun va_string :: "va_arg list \<Rightarrow> (cstring option \<times> va_arg list) res" where
  "va_string (Va_string p # rest) = Inr (p, rest)"
| "va_string _ = Inl Wild"

fun va_ptr :: "va_arg list \<Rightarrow> (64 word \<times> va_arg list) res" where
  "va_ptr (Va_ptr p # rest) = Inr (p, rest)"
| "va_ptr _ = Inl Wild"

section \<open>One directive\<close>

definition initial_spec :: fmt_spec where
  "initial_spec =
     \<lparr>is_signed = False, prepend = False, uppercase = False, left_justify = False,
      alternate_form = False, has_precision = False, pad_char = CHR '' '', prepend_char = NUL,
      min_width = 0, precision = 0, base = 10\<rparr>"

definition apply_flag :: "char \<Rightarrow> fmt_spec \<Rightarrow> fmt_spec" where
  "apply_flag flag fm =
     (if flag = CHR ''+'' \<or> flag = CHR '' '' then fm\<lparr>prepend := True, prepend_char := flag\<rparr>
      else if flag = CHR ''-'' then fm\<lparr>left_justify := True\<rparr>
      else if flag = CHR ''0'' then fm\<lparr>pad_char := CHR ''0''\<rparr>
      else fm\<lparr>alternate_form := True\<rparr>)"

lemma consume_one_of_size:
  "consume_one_of str toks = Inr (Some c, str') \<Longrightarrow> str_size str' < str_size str"
  by (auto simp: consume_one_of_def str_empty_def str_offset_by_def BUG_ON_def bind_res_Inr_iff split: if_splits)

function parse_flags :: "cstring \<Rightarrow> fmt_spec \<Rightarrow> (cstring \<times> fmt_spec) res" where
  "parse_flags fmt fm =
     bind_res (consume_one_of fmt (STR_CONSTEXPR ''+- 0#'')) (\<lambda>(flag, fmt'). case flag of
       None \<Rightarrow> Inr (fmt', fm)
     | Some f \<Rightarrow> parse_flags fmt' (apply_flag f fm))"
  by pat_completeness auto
termination
  by (relation "measure (\<lambda>(fmt, fm). str_size fmt)") (auto dest: consume_one_of_size)

declare parse_flags.simps [simp del]

text \<open>A width or a precision: \<^verbatim>\<open>*\<close> takes an \<^verbatim>\<open>int\<close> argument, sign-extended into the \<^verbatim>\<open>u64\<close> field.\<close>

definition parse_field ::
  "cstring \<Rightarrow> va_arg list \<Rightarrow> parse_number_mode \<Rightarrow> 64 word \<Rightarrow> (errno + cstring \<times> va_arg list \<times> 64 word) res"
where
  "parse_field fmt args mode old =
     bind_res (consume fmt (STR_CONSTEXPR ''*'')) (\<lambda>(star, fmt').
       if star then bind_res (va_int args) (\<lambda>(v, args'). Inr (Inr (fmt', args', scast v)))
       else bind_res (parse_number fmt' mode) (\<lambda>(fmt'', ret). case ret of
              Inl e \<Rightarrow> Inr (Inl e)
            | Inr None \<Rightarrow> Inr (Inr (fmt'', args, old))
            | Inr (Some v) \<Rightarrow> Inr (Inr (fmt'', args, v))))"

definition parse_spec ::
  "cstring \<Rightarrow> va_arg list \<Rightarrow> (errno + cstring \<times> va_arg list \<times> fmt_spec) res" where
  "parse_spec fmt args =
     bind_res (parse_flags fmt initial_spec) (\<lambda>(fmt1, fm).
     bind_res (parse_field fmt1 args PARSE_NUMBER_MODE_MAYBE (min_width fm)) (\<lambda>width. case width of
       Inl e \<Rightarrow> Inr (Inl e)
     | Inr (fmt2, args2, w) \<Rightarrow>
         let fm2 = fm\<lparr>min_width := w\<rparr>
         in bind_res (consume fmt2 (STR_CONSTEXPR ''.'')) (\<lambda>(dot, fmt3).
              if dot
              then bind_res (parse_field fmt3 args2 PARSE_NUMBER_MODE_MUST (precision fm2)) (\<lambda>prec. case prec of
                     Inl e \<Rightarrow> Inr (Inl e)
                   | Inr (fmt4, args4, p) \<Rightarrow>
                       Inr (Inr (fmt4, args4, fm2\<lparr>has_precision := True, precision := p\<rparr>)))
              else Inr (Inr (fmt3, args2, fm2)))))"

text \<open>The \<^verbatim>\<open>%s\<close> loop: characters of the argument until the precision or the terminator; the number
  written, and then blanks up to the width.\<close>

function write_chars_loop ::
  "fmt_buf_state \<Rightarrow> fmt_spec \<Rightarrow> cptr \<Rightarrow> nat \<Rightarrow> (fmt_buf_state \<times> nat) res" where
  "write_chars_loop fb fm str i =
     (if \<not> has_precision fm \<or> i < unat (precision fm)
      then bind_res (char_at_ptr str i) (\<lambda>c.
             if c = NUL then Inr (fb, i)
             else bind_res (write_one fb c) (\<lambda>fb'. write_chars_loop fb' fm str (Suc i)))
      else Inr (fb, i))"
  by pat_completeness auto
termination
proof (relation "measure (\<lambda>(fb, fm, str, i). length (ptr_chars str) - i)", goal_cases)
  case (2 fb fm str i c fb')
  then have "i < length (ptr_chars str)"
    by (cases str) (auto split: if_splits)
  then show ?case by simp
qed simp

declare write_chars_loop.simps [simp del]

definition write_chars :: "fmt_buf_state \<Rightarrow> fmt_spec \<Rightarrow> cptr \<Rightarrow> fmt_buf_state res" where
  "write_chars fb fm arg =
     (let str = (if arg = Null then Ptr (''<null>'' @ [NUL]) else arg)
      in bind_res (write_chars_loop fb fm str 0) (\<lambda>(fb', i).
           write_padding_loop (unat (min_width fm) - i) (CHR '' '') fb'))"

text \<open>The loop of \<^verbatim>\<open>%pS\<close> that pads up to the precision, as written: it changes neither side of its
  test, so it is a partial function, with \<open>None\<close> for not returning.\<close>

partial_function (option) pad_string_loop :: "nat \<Rightarrow> nat \<Rightarrow> fmt_buf_state \<Rightarrow> fmt_buf_state res option" where
  "pad_string_loop len prec fb =
     (if len < prec
      then case write_one fb (CHR '' '') of Inl f \<Rightarrow> Some (Inl f) | Inr fb' \<Rightarrow> pad_string_loop len prec fb'
      else Some (Inr fb))"

declare pad_string_loop.simps [code]

definition write_string :: "fmt_buf_state \<Rightarrow> fmt_spec \<Rightarrow> cstring option \<Rightarrow> fmt_buf_state res" where
  "write_string fb fm arg =
     (let str = (case arg of None \<Rightarrow> STR_CONSTEXPR ''<null-string>'' | Some s \<Rightarrow> s);
          size = (if has_precision fm then C_MIN (unat (precision fm)) (str_size str) else str_size str)
      in bind_res (write_many fb (str_text str) size) (\<lambda>fb'.
           case pad_string_loop size (unat (precision fm)) fb' of None \<Rightarrow> Inl Hang | Some r \<Rightarrow> r))"

text \<open>
  The integer directives. \<open>int_directive fmt args get sx zx\<close> is the pattern the code repeats for
  each length modifier: \<^verbatim>\<open>d\<close> or \<^verbatim>\<open>i\<close> reads the argument with \<open>get\<close> and converts it with \<open>sx\<close>, one of
  \<^verbatim>\<open>oxXu\<close> with \<open>zx\<close>; the result is the value, whether it is signed, and the specifier.
\<close>

type_synonym int_arg = "64 word \<times> bool \<times> char \<times> cstring \<times> va_arg list"

definition int_directive ::
  "cstring \<Rightarrow> va_arg list \<Rightarrow> (va_arg list \<Rightarrow> ('w \<times> va_arg list) res) \<Rightarrow> ('w \<Rightarrow> 64 word) \<Rightarrow> ('w \<Rightarrow> 64 word)
   \<Rightarrow> (errno + int_arg) res"
where
  "int_directive fmt args get sx zx =
     bind_res (consume fmt (STR_CONSTEXPR ''d'')) (\<lambda>(d, fmt1).
     bind_res (if d then Inr (True, fmt1) else consume fmt1 (STR_CONSTEXPR ''i'')) (\<lambda>(i, fmt2).
       if i then bind_res (get args) (\<lambda>(v, args'). Inr (Inr (sx v, True, NUL, fmt2, args')))
       else bind_res (consume_one_of fmt2 (STR_CONSTEXPR ''oxXu'')) (\<lambda>(flag, fmt3). case flag of
              Some f \<Rightarrow> bind_res (get args) (\<lambda>(v, args'). Inr (Inr (zx v, False, f, fmt3, args')))
            | None \<Rightarrow> Inr (Inl EINVAL))))"

definition int_argument :: "cstring \<Rightarrow> va_arg list \<Rightarrow> (errno + int_arg) res" where
  "int_argument fmt args =
     bind_res (consume fmt (STR_CONSTEXPR ''hh'')) (\<lambda>(hh, fmt1).
     if hh then int_directive fmt1 args va_int (\<lambda>v. scast (ucast v :: 8 word)) (\<lambda>v. ucast (ucast v :: 8 word))
     else bind_res (consume fmt1 (STR_CONSTEXPR ''h'')) (\<lambda>(h, fmt2).
     if h then int_directive fmt2 args va_int (\<lambda>v. scast (ucast v :: 16 word)) (\<lambda>v. ucast (ucast v :: 16 word))
     else bind_res (consume fmt2 (STR_CONSTEXPR ''ll'')) (\<lambda>(ll, fmt3).
     bind_res (if ll then Inr (True, fmt3) else consume fmt3 (STR_CONSTEXPR ''z'')) (\<lambda>(z, fmt4).
     if z then int_directive fmt4 args va_long (\<lambda>v. v) (\<lambda>v. v)
     else bind_res (consume fmt4 (STR_CONSTEXPR ''l'')) (\<lambda>(l, fmt5).
     bind_res (if l then Inr (True, fmt5) else consume fmt5 (STR_CONSTEXPR ''z'')) (\<lambda>(z, fmt6).
     if z then int_directive fmt6 args va_long (\<lambda>v. v) (\<lambda>v. v)
     else int_directive fmt6 args va_int (\<lambda>v. scast v) (\<lambda>v. ucast v)))))))"

definition ULTRA_ARCH_WIDTH :: "64 word" where
  "ULTRA_ARCH_WIDTH = 8"

text \<open>The outcome of one pass through the body of the loop of \<^verbatim>\<open>vsnprintf\<close>.\<close>

datatype fmt_step =
    Continue fmt_buf_state cstring "va_arg list"
  | Finished fmt_buf_state
  | Failed fmt_buf_state errno

text \<open>The conversion after flags, width and precision.\<close>

definition write_directive ::
  "fmt_buf_state \<Rightarrow> cstring \<Rightarrow> va_arg list \<Rightarrow> fmt_spec \<Rightarrow> fmt_step res" where
  "write_directive fb fmt args fm =
     bind_res (consume fmt (STR_CONSTEXPR ''c'')) (\<lambda>(c, fmt1).
     if c then bind_res (va_int args) (\<lambda>(v, args').
            bind_res (write_one fb (char_of (unat (ucast v :: 8 word)))) (\<lambda>fb'. Inr (Continue fb' fmt1 args')))
     else bind_res (consume fmt1 (STR_CONSTEXPR ''s'')) (\<lambda>(s, fmt2).
     if s then bind_res (va_chars args) (\<lambda>(p, args').
            bind_res (write_chars fb fm p) (\<lambda>fb'. Inr (Continue fb' fmt2 args')))
     else bind_res (consume fmt2 (STR_CONSTEXPR ''p'')) (\<lambda>(p, fmt3).
     if p then bind_res (consume fmt3 (STR_CONSTEXPR ''S'')) (\<lambda>(ps, fmt4).
            if ps then bind_res (va_string args) (\<lambda>(a, args').
                   bind_res (write_string fb fm a) (\<lambda>fb'. Inr (Continue fb' fmt4 args')))
            else bind_res (va_ptr args) (\<lambda>(value, args').
                   bind_res (write_integer fb
                       (fm\<lparr>base := 16, min_width := ULTRA_ARCH_WIDTH * 2, pad_char := CHR ''0''\<rparr>) value)
                     (\<lambda>fb'. Inr (Continue fb' fmt4 args'))))
     else bind_res (int_argument fmt3 args) (\<lambda>ret. case ret of
            Inl e \<Rightarrow> Inr (Failed fb e)
          | Inr (value, sgn_arg, flag, fmt4, args') \<Rightarrow>
              let fm1 = (if sgn_arg then fm\<lparr>is_signed := True\<rparr> else fm);
                  fm2 = (if flag \<noteq> NUL
                         then fm1\<lparr>base := base_from_specifier flag, uppercase := is_uppercase_specifier flag\<rparr>
                         else fm1)
              in bind_res (write_integer fb fm2 value) (\<lambda>fb'. Inr (Continue fb' fmt4 args'))))))"

definition vsnprintf_step :: "fmt_buf_state \<Rightarrow> cstring \<Rightarrow> va_arg list \<Rightarrow> fmt_step res" where
  "vsnprintf_step fb fmt args =
     bind_res (str_find_one fmt (CHR ''%'') 0) (\<lambda>found.
       let next_offset = (if found < 0 then str_size fmt else nat found)
       in bind_res (if next_offset \<noteq> 0 then write_many fb (str_text fmt) next_offset else Inr fb) (\<lambda>fb1.
          bind_res (str_offset_by fmt next_offset) (\<lambda>fmt1.
            if str_empty fmt1 then Inr (Finished fb1)
            else bind_res (consume fmt1 (STR_CONSTEXPR ''%%'')) (\<lambda>(pct, fmt2).
              if pct then bind_res (write_one fb1 (CHR ''%'')) (\<lambda>fb2. Inr (Continue fb2 fmt2 args))
              else bind_res (str_offset_by fmt2 1) (\<lambda>fmt3.
                   bind_res (parse_spec fmt3 args) (\<lambda>ret. case ret of
                     Inl e \<Rightarrow> Inr (Failed fb1 e)
                   | Inr (fmt4, args4, fm) \<Rightarrow> write_directive fb1 fmt4 args4 fm))))))"

section \<open>The functions of the interface\<close>

text \<open>Each pass consumes at least one character of the format, so \<open>str_size fmt + 1\<close> passes are
  enough. The flag tells whether the format was worked off; \<open>Some e\<close> is the early return.\<close>

fun vsnprintf_loop ::
  "nat \<Rightarrow> fmt_buf_state \<Rightarrow> cstring \<Rightarrow> va_arg list \<Rightarrow> (fmt_buf_state \<times> errno option) res" where
  "vsnprintf_loop 0 fb fmt args = Inl Hang"
| "vsnprintf_loop (Suc fuel) fb fmt args =
     (if str_empty fmt then Inr (fb, None)
      else bind_res (vsnprintf_step fb fmt args) (\<lambda>step. case step of
             Continue fb' fmt' args' \<Rightarrow> vsnprintf_loop fuel fb' fmt' args'
           | Finished fb' \<Rightarrow> Inr (fb', None)
           | Failed fb' e \<Rightarrow> Inr (fb', Some e)))"

definition vsnprintf :: "char list \<Rightarrow> nat \<Rightarrow> cptr \<Rightarrow> va_arg list \<Rightarrow> (char list \<times> int) res" where
  "vsnprintf buf cap fmt_str args =
     bind_res (STR_RUNTIME fmt_str) (\<lambda>fmt.
     bind_res (vsnprintf_loop (str_size fmt + 1) \<lparr>buffer = buf, capacity = cap, bytes_written = 0\<rparr> fmt args)
       (\<lambda>(fb, ret). case ret of
          Some e \<Rightarrow> Inr (buffer fb, - int (errno_code e))
        | None \<Rightarrow>
            bind_res (if capacity fb \<noteq> 0
                      then put_char fb (C_MIN (bytes_written fb) (capacity fb - 1)) NUL else Inr fb)
              (\<lambda>fb'. Inr (buffer fb', sint (of_nat (bytes_written fb') :: 32 word)))))"

definition vscnprintf :: "char list \<Rightarrow> nat \<Rightarrow> cptr \<Rightarrow> va_arg list \<Rightarrow> (char list \<times> int) res" where
  "vscnprintf buf cap fmt_str args =
     bind_res (vsnprintf buf cap fmt_str args) (\<lambda>(buf', would_have_been_written).
       if would_have_been_written < 0 then Inr (buf', would_have_been_written)
       else if would_have_been_written < int cap then Inr (buf', would_have_been_written)
       else Inr (buf', if cap \<noteq> 0 then int cap - 1 else 0))"

definition snprintf :: "char list \<Rightarrow> nat \<Rightarrow> cptr \<Rightarrow> va_arg list \<Rightarrow> (char list \<times> int) res" where
  "snprintf buf cap fmt_str args = vsnprintf buf cap fmt_str args"

definition scnprintf :: "char list \<Rightarrow> nat \<Rightarrow> cptr \<Rightarrow> va_arg list \<Rightarrow> (char list \<times> int) res" where
  "scnprintf buf cap fmt_str args = vscnprintf buf cap fmt_str args"

end
