(* ===== verification/FormatWrites.thy ===== *)
theory FormatWrites
  imports Format
begin

text \<open>
  What the writes of the formatter leave in the output buffer: \<open>emit fb out\<close> is the state after
  writing \<open>out\<close>, whatever the capacity; each writing function is an \<open>emit\<close> of a text that does
  not depend on the buffer. For \<^verbatim>\<open>write_integer\<close> the text is \<open>integer_text\<close>, and the 32-byte
  temporary never overflows.
\<close>

section \<open>What a write leaves behind\<close>

definition sink_ok :: "fmt_buf_state \<Rightarrow> bool" where
  "sink_ok fb \<longleftrightarrow> capacity fb \<le> length (buffer fb)"

definition emit :: "fmt_buf_state \<Rightarrow> char list \<Rightarrow> fmt_buf_state" where
  "emit fb out = fb
     \<lparr>buffer := take (bytes_written fb) (buffer fb) @ take (capacity fb - bytes_written fb) out
        @ drop (bytes_written fb + min (capacity fb - bytes_written fb) (length out)) (buffer fb),
      bytes_written := bytes_written fb + length out\<rparr>"

lemma emit_simps [simp]:
  "capacity (emit fb out) = capacity fb"
  "bytes_written (emit fb out) = bytes_written fb + length out"
  by (simp_all add: emit_def)

lemma emit_Nil [simp]: "emit fb [] = fb"
  by (simp add: emit_def)

lemma length_emit [simp]: "sink_ok fb \<Longrightarrow> length (buffer (emit fb out)) = length (buffer fb)"
  by (auto simp: emit_def sink_ok_def min_def)

lemma sink_ok_emit [simp]: "sink_ok fb \<Longrightarrow> sink_ok (emit fb out)"
  using length_emit [of fb out] by (simp add: sink_ok_def)

lemma nth_emit:
  assumes "sink_ok fb" "i < length (buffer fb)"
  shows "buffer (emit fb out) ! i =
    (if bytes_written fb \<le> i \<and> i < capacity fb \<and> i < bytes_written fb + length out
     then out ! (i - bytes_written fb) else buffer fb ! i)"
  using assms by (auto simp: emit_def sink_ok_def nth_append min_def not_less)

lemma fmt_buf_state_eqI:
  "length (buffer a) = length (buffer b) \<Longrightarrow> (\<And>i. i < length (buffer b) \<Longrightarrow> buffer a ! i = buffer b ! i) \<Longrightarrow>
     capacity a = capacity b \<Longrightarrow> bytes_written a = bytes_written b \<Longrightarrow> a = (b::fmt_buf_state)"
  by (metis (full_types) fmt_buf_state.equality nth_equalityI old.unit.exhaust)

lemma emit_emit [simp]:
  assumes "sink_ok fb"
  shows "emit (emit fb a) b = emit fb (a @ b)"
  using assms by (intro fmt_buf_state_eqI) (auto simp: nth_emit nth_append)

lemma write_one_emit [simp]:
  assumes "sink_ok fb"
  shows "write_one fb c = Inr (emit fb [c])"
proof -
  have "fb\<lparr>buffer := (buffer fb)[bytes_written fb := c], bytes_written := Suc (bytes_written fb)\<rparr> = emit fb [c]"
    if "bytes_written fb < capacity fb"
    using assms that by (intro fmt_buf_state_eqI) (auto simp: nth_emit nth_list_update)
  moreover have "fb\<lparr>bytes_written := Suc (bytes_written fb)\<rparr> = emit fb [c]"
    if "\<not> bytes_written fb < capacity fb"
    using assms that by (intro fmt_buf_state_eqI) (auto simp: nth_emit)
  ultimately show ?thesis
    using assms by (auto simp: write_one_def put_char_def sink_ok_def)
qed

text \<open>The padding loop of \<^verbatim>\<open>%pS\<close> returns only when it is not entered.\<close>

lemma pad_string_loop_eq:
  assumes "sink_ok fb"
  shows "pad_string_loop len prec fb = (if len < prec then None else Some (Inr fb))"
proof -
  have "sink_ok fb \<longrightarrow> \<not> len < prec" if "pad_string_loop len prec fb = Some r" for r
    using that by (rule pad_string_loop.raw_induct [rotated]) (auto split: if_splits sum.splits)
  with assms have "len < prec \<Longrightarrow> pad_string_loop len prec fb = None"
    by (cases "pad_string_loop len prec fb") auto
  moreover have "\<not> len < prec \<Longrightarrow> pad_string_loop len prec fb = Some (Inr fb)"
    by (subst pad_string_loop.simps) simp
  ultimately show ?thesis by simp
qed

lemma write_many_emit:
  assumes "sink_ok fb" "count \<le> length (ptr_chars src)"
  shows "write_many fb src count = Inr (emit fb (take count (ptr_chars src)))"
proof (cases "bytes_written fb < capacity fb")
  case True
  let ?n = "min count (capacity fb - bytes_written fb)"
  have "bytes_written fb + ?n \<le> length (buffer fb)" "?n \<le> length (ptr_chars src)"
    using assms True by (auto simp: sink_ok_def min_def)
  with assms True show ?thesis
    by (simp add: write_many_def put_many_def Let_def emit_def min_def)
next
  case False
  then have "fb\<lparr>bytes_written := bytes_written fb + count\<rparr> = emit fb (take count (ptr_chars src))"
    using assms by (intro fmt_buf_state_eqI) (auto simp: nth_emit)
  with False show ?thesis
    by (simp add: write_many_def)
qed

lemma write_padding_loop_emit [simp]:
  "sink_ok fb \<Longrightarrow> write_padding_loop n c fb = Inr (emit fb (replicate n c))"
  by (induction n arbitrary: fb) simp_all

definition padding_text :: "fmt_spec \<Rightarrow> nat \<Rightarrow> char list" where
  "padding_text fm n = replicate (unat (min_width fm) - n) (if left_justify fm then CHR '' '' else pad_char fm)"

lemma write_padding_emit [simp]:
  assumes "sink_ok fb" "n < 2 ^ 64"
  shows "write_padding fb fm n = Inr (emit fb (padding_text fm n))"
proof -
  have n: "unat (of_nat n :: 64 word) = n"
    using assms(2) by (simp add: unsigned_of_nat take_bit_eq_mod)
  have "unat (min_width fm - of_nat n) = unat (min_width fm) - n" if "n \<le> unat (min_width fm)"
    using that by (simp add: unat_diff_no_wrap n)
  moreover have "min_width fm \<le> of_nat n \<longleftrightarrow> unat (min_width fm) \<le> n"
    by (simp add: word_le_nat_alt n)
  ultimately show ?thesis
    using assms(1) by (simp add: write_padding_def padding_text_def)
qed

section \<open>Integers\<close>

text \<open>The digits of a number, most significant first.\<close>

fun digits_msb :: "nat \<Rightarrow> nat \<Rightarrow> nat list" where
  "digits_msb b v = (if b < 2 \<or> v = 0 then [] else digits_msb b (v div b) @ [v mod b])"

declare digits_msb.simps [simp del]

lemma digits_msb_0 [simp]: "digits_msb b 0 = []"
  by (simp add: digits_msb.simps)

lemma digits_msb_step: "2 \<le> b \<Longrightarrow> 0 < v \<Longrightarrow> digits_msb b v = digits_msb b (v div b) @ [v mod b]"
  by (simp add: digits_msb.simps [of b v])

lemma length_digits_msb: "2 \<le> b \<Longrightarrow> v < b ^ k \<Longrightarrow> length (digits_msb b v) \<le> k"
proof (induction k arbitrary: v)
  case (Suc k)
  show ?case
  proof (cases "v = 0")
    case False
    have "v div b < b ^ k"
      using Suc.prems by (simp add: less_mult_imp_div_less mult.commute)
    with Suc False show ?thesis by (simp add: digits_msb_step)
  qed simp
qed simp

definition digit_char :: "bool \<Rightarrow> nat \<Rightarrow> char" where
  "digit_char upper d = (if upper then ''0123456789ABCDEF'' else ''0123456789abcdef'') ! d"

definition base_ok :: "fmt_spec \<Rightarrow> bool" where
  "base_ok fm \<longleftrightarrow> base fm = 8 \<or> base fm = 10 \<or> base fm = 16"

lemma less_10_cases: "d < 10 \<Longrightarrow> d \<in> {0, 1, 2, 3, 4, 5, 6, 7, 8, 9::nat}"
  by auto

lemma repr_char_eq:
  assumes "base_ok fm" "unat r < unat (base fm)"
  shows "repr_char fm r = digit_char (uppercase fm) (unat r)"
proof (cases "base fm = 16")
  case False
  with assms have "unat r \<in> {0, 1, 2, 3, 4, 5, 6, 7, 8, 9}"
    by (intro less_10_cases) (auto simp: base_ok_def)
  with False assms(1) show ?thesis
    by (auto simp: repr_char_def digit_char_def base_ok_def char_of_def bit_Suc_0_iff)
qed (simp add: repr_char_def hex_char_def digit_char_def)

definition number_text :: "fmt_spec \<Rightarrow> nat \<Rightarrow> char list" where
  "number_text fm v = map (digit_char (uppercase fm)) (digits_msb (unat (base fm)) v)"

lemma unat_ucast_base: "unat (ucast (base fm) :: 64 word) = unat (base fm)"
  using unsigned_less [of "base fm", where ?'a = nat] by (simp add: unsigned_ucast_eq take_bit_eq_mod)

lemma repr_loop_eq:
  "base_ok fm \<Longrightarrow> length (digits_msb (unat (base fm)) (unat v)) + length repr \<le> REPR_BUFFER_SIZE \<Longrightarrow>
     repr_loop fm v repr = Inr (number_text fm (unat v) @ repr)"
proof (induction fm v repr rule: repr_loop.induct)
  case (1 fm v repr)
  have b: "2 \<le> unat (base fm)"
    using "1.prems" by (auto simp: base_ok_def)
  show ?case
  proof (cases "v = 0")
    case True
    then show ?thesis by (simp add: repr_loop.simps number_text_def)
  next
    case False
    then have v: "0 < unat v"
      by (simp add: unat_gt_0)
    note d = digits_msb_step [OF b v]
    let ?c = "repr_char fm (v mod ucast (base fm))"
    have c: "?c = digit_char (uppercase fm) (unat v mod unat (base fm))"
      using repr_char_eq [OF "1.prems"(1), of "v mod ucast (base fm)"] b
      by (simp add: unat_mod unat_ucast_base)
    have push: "push_repr ?c repr = Inr (?c # repr)"
      using "1.prems" d by (simp add: push_repr_def)
    have "repr_loop fm (v div ucast (base fm)) (?c # repr)
        = Inr (number_text fm (unat (v div ucast (base fm))) @ ?c # repr)"
      using "1.IH" [OF False push] "1.prems" d by (simp add: unat_div unat_ucast_base)
    with False push d c show ?thesis
      by (subst repr_loop.simps) (simp add: number_text_def unat_div unat_ucast_base)
  qed
qed

text \<open>The text of an integer conversion: sign, padding and body in the order the code writes them.\<close>

definition magnitude :: "fmt_spec \<Rightarrow> 64 word \<Rightarrow> nat" where
  "magnitude fm v = (if is_signed fm then nat \<bar>sint v\<bar> else unat v)"

definition sign_text :: "fmt_spec \<Rightarrow> 64 word \<Rightarrow> char list" where
  "sign_text fm v = (if is_signed fm \<and> sint v < 0 then ''-''
     else if prepend fm then [prepend_char fm] else [])"

definition prefix_text :: "fmt_spec \<Rightarrow> char list" where
  "prefix_text fm = (if \<not> alternate_form fm then []
     else if base fm = 16 then (if uppercase fm then ''0X'' else ''0x'')
     else if base fm = 8 then ''0'' else [])"

definition body_text :: "fmt_spec \<Rightarrow> 64 word \<Rightarrow> char list" where
  "body_text fm v = prefix_text fm @ (if magnitude fm v = 0 then ''0'' else number_text fm (magnitude fm v))"

definition integer_text :: "fmt_spec \<Rightarrow> 64 word \<Rightarrow> char list" where
  "integer_text fm v =
     (let body = body_text fm v; pad = padding_text fm (length body)
      in sign_text fm v @ (if left_justify fm then body @ pad else pad @ body))"

lemma magnitude_less: "magnitude fm v < 2 ^ 64"
proof (cases "is_signed fm")
  case True
  have "- (2 ^ 63) \<le> sint v" "sint v < 2 ^ 63"
    using sint_greater_eq [of v] sint_less [of v] by simp_all
  with True show ?thesis by (simp add: magnitude_def)
qed (simp add: magnitude_def)

lemma number_text_length:
  assumes "base_ok fm" "v < 2 ^ 64"
  shows "length (digits_msb (unat (base fm)) v) \<le> 22"
proof -
  have b: "8 \<le> unat (base fm)"
    using assms(1) by (auto simp: base_ok_def)
  have "(2::nat) ^ 64 \<le> 8 ^ 22"
    by simp
  also have "(8::nat) ^ 22 \<le> unat (base fm) ^ 22"
    using b by (intro power_mono) auto
  finally show ?thesis
    using b assms(2) by (intro length_digits_msb) auto
qed

lemma negative_magnitude:
  "unat (if is_signed fm \<and> v <s 0 then - v else v) = magnitude fm v"
proof -
  define u where "u = unat v"
  have u: "u < 2 ^ 64"
    using unat_lt_64 [of v] by (simp add: u_def)
  have sint: "sint v = (if u < 2 ^ 63 then int u else int u - 2 ^ 64)"
    unfolding u_def by (rule sint_unat)
  have abs: "nat \<bar>sint v\<bar> = (if u < 2 ^ 63 then u else 2 ^ 64 - u)"
    unfolding sint using u nat_diff_distrib' [of "2 ^ 64" "int u"] by simp
  have "v <s 0 \<longleftrightarrow> \<not> u < 2 ^ 63"
    unfolding word_sless_alt using u by (simp add: sint)
  moreover have "unat (- v) = 2 ^ 64 - u" if "\<not> u < 2 ^ 63"
    using that by (auto simp: unat_uminus u_def)
  ultimately show ?thesis
    unfolding magnitude_def abs by (simp add: u_def)
qed

lemma body_text_length:
  assumes "base_ok fm"
  shows "0 < length (body_text fm v)" "length (body_text fm v) \<le> 24"
proof -
  have d: "length (digits_msb (unat (base fm)) (magnitude fm v)) \<le> 22"
    using number_text_length [OF assms magnitude_less] .
  have p: "length (prefix_text fm) \<le> 2"
    by (simp add: prefix_text_def)
  show "length (body_text fm v) \<le> 24"
    using add_mono [OF p d] p by (simp add: body_text_def number_text_def)
  have "2 \<le> unat (base fm)"
    using assms by (auto simp: base_ok_def)
  then show "0 < length (body_text fm v)"
    by (simp add: body_text_def number_text_def digits_msb_step)
qed

lemma body_repr:
  assumes "base_ok fm"
  shows "bind_res (repr_loop fm (if is_signed fm \<and> v <s 0 then - v else v) []) (\<lambda>repr.
      bind_res (if repr = [] then push_repr (CHR ''0'') repr else Inr repr) (alternate_prefix fm))
    = Inr (body_text fm v)"
proof -
  let ?m = "magnitude fm v" and ?b = "unat (base fm)"
  have d: "length (digits_msb ?b ?m) \<le> 22"
    using number_text_length [OF assms magnitude_less] .
  have b: "2 \<le> ?b"
    using assms by (auto simp: base_ok_def)
  have "repr_loop fm (if is_signed fm \<and> v <s 0 then - v else v) [] = Inr (number_text fm ?m)"
    using repr_loop_eq [OF assms, of "if is_signed fm \<and> v <s 0 then - v else v" "[]"] d
    by (simp only: negative_magnitude) (simp add: REPR_BUFFER_SIZE_def)
  moreover have "number_text fm ?m = [] \<longleftrightarrow> ?m = 0"
    using b by (cases "?m = 0") (simp_all add: number_text_def digits_msb_step)
  moreover have "length (number_text fm ?m) \<le> 22"
    using d by (simp add: number_text_def)
  ultimately show ?thesis
    by (auto simp: body_text_def prefix_text_def alternate_prefix_def push_repr_def REPR_BUFFER_SIZE_def)
qed

lemma write_integer_emit [simp]:
  assumes "sink_ok fb" "base_ok fm"
  shows "write_integer fb fm v = Inr (emit fb (integer_text fm v))"
proof -
  let ?neg = "is_signed fm \<and> v <s 0"
  have neg: "?neg \<longleftrightarrow> is_signed fm \<and> sint v < 0"
    by (simp add: word_sless_alt)
  let ?fb1 = "emit fb (sign_text fm v)"
  have sign: "(if prepend fm \<or> ?neg then write_one fb (if ?neg then CHR ''-'' else prepend_char fm) else Inr fb)
      = Inr ?fb1"
    using assms(1) by (auto simp: sign_text_def neg)
  have fb1: "sink_ok ?fb1"
    using assms(1) by simp
  have len: "length (body_text fm v) < 2 ^ 64"
    using body_text_length(2) [OF assms(2), of v] by simp
  have "write_integer fb fm v =
      bind_res (Inr ?fb1) (\<lambda>fb1. bind_res
        (bind_res (repr_loop fm (if ?neg then - v else v) []) (\<lambda>repr.
          bind_res (if repr = [] then push_repr (CHR ''0'') repr else Inr repr) (alternate_prefix fm)))
        (\<lambda>full. if left_justify fm
           then bind_res (write_many fb1 (Ptr full) (length full)) (\<lambda>fb2. write_padding fb2 fm (length full))
           else bind_res (write_padding fb1 fm (length full)) (\<lambda>fb2. write_many fb2 (Ptr full) (length full))))"
    unfolding write_integer_def Let_def sign by (simp add: bind_res_assoc)
  also have "\<dots> = Inr (emit fb (integer_text fm v))"
    unfolding body_repr [OF assms(2)]
    using fb1 len assms(1) by (simp add: write_many_emit integer_text_def Let_def)
  finally show ?thesis .
qed

end
