(* ===== verification/FormatUniform.thy ===== *)
theory FormatUniform
  imports FormatWrites
begin

text \<open>
  The formatter never looks at its buffer: a calculus of runs that write the same text on every
  buffer (\<open>uniform\<close>), carried from the writes through the directives to the loop of \<^verbatim>\<open>vsnprintf\<close>,
  together with the facts on the parsers it needs (they consume the format, they do not fault).
\<close>

section \<open>Runs that do not look at the buffer\<close>

text \<open>
  \<open>uniform E place m\<close>: on every buffer that is as large as its capacity, \<open>m\<close> fails with the same
  fault, one of \<open>E\<close>, or writes the same text and goes on with the same result, put together with
  the new buffer state by \<open>place\<close>.
\<close>

definition uniform_by ::
  "fault set \<Rightarrow> ('k \<Rightarrow> bool) \<Rightarrow> (fmt_buf_state \<Rightarrow> 'k \<Rightarrow> 'b) \<Rightarrow> (fmt_buf_state \<Rightarrow> 'b res) \<Rightarrow> (char list \<times> 'k) res \<Rightarrow> bool"
where
  "uniform_by E Q place m r \<longleftrightarrow> (case r of Inl e \<Rightarrow> e \<in> E | Inr (out, k) \<Rightarrow> Q k) \<and>
     (\<forall>fb. sink_ok fb \<longrightarrow> m fb = map_sum id (\<lambda>(out, k). place (emit fb out) k) r)"

definition uniform ::
  "fault set \<Rightarrow> ('k \<Rightarrow> bool) \<Rightarrow> (fmt_buf_state \<Rightarrow> 'k \<Rightarrow> 'b) \<Rightarrow> (fmt_buf_state \<Rightarrow> 'b res) \<Rightarrow> bool" where
  "uniform E Q place m \<longleftrightarrow> (\<exists>r. uniform_by E Q place m r)"

abbreviation writes :: "fault set \<Rightarrow> (fmt_buf_state \<Rightarrow> fmt_buf_state res) \<Rightarrow> bool" where
  "writes E \<equiv> uniform E (\<lambda>_. True) (\<lambda>fb (u::unit). fb)"

lemma uniformI: "uniform_by E Q place m r \<Longrightarrow> uniform E Q place m"
  by (auto simp: uniform_def)

lemma uniform_return: "(\<And>fb. m fb = Inr (place fb k)) \<Longrightarrow> Q k \<Longrightarrow> uniform E Q place m"
  by (rule uniformI [of _ _ _ _ "Inr ([], k)"]) (simp add: uniform_by_def)

lemma uniform_fault: "e \<in> E \<Longrightarrow> uniform E Q place (\<lambda>fb. Inl e)"
  by (rule uniformI [of _ _ _ _ "Inl e"]) (simp add: uniform_by_def)

lemma writes_emit: "(\<And>fb. sink_ok fb \<Longrightarrow> m fb = Inr (emit fb out)) \<Longrightarrow> writes E m"
  by (rule uniformI [of _ _ _ _ "Inr (out, ())"]) (simp add: uniform_by_def)

lemma uniform_cong:
  assumes "\<And>fb. sink_ok fb \<Longrightarrow> m fb = m' fb" "uniform E Q place m'"
  shows "uniform E Q place m"
  using assms by (auto simp: uniform_def uniform_by_def)

lemma uniform_mono:
  "uniform E Q place m \<Longrightarrow> (\<And>k. Q k \<Longrightarrow> Q' k) \<Longrightarrow> uniform E Q' place m"
  unfolding uniform_def uniform_by_def by (fastforce split: sum.splits)

lemma uniform_bind:
  assumes m: "uniform E Q place m" and g: "\<And>k. Q k \<Longrightarrow> uniform E Q' place' (\<lambda>fb. g (place fb k))"
  shows "uniform E Q' place' (\<lambda>fb. bind_res (m fb) g)"
proof -
  obtain r where r: "uniform_by E Q place m r"
    using m by (auto simp: uniform_def)
  show ?thesis
  proof (cases r)
    case (Inl e)
    with r show ?thesis
      by (intro uniformI [of _ _ _ _ "Inl e"]) (simp add: uniform_by_def)
  next
    case (Inr outk)
    obtain out k where ok: "outk = (out, k)" by (cases outk)
    obtain r' where r': "uniform_by E Q' place' (\<lambda>fb. g (place fb k)) r'"
      using g [of k] r Inr ok by (auto simp: uniform_def uniform_by_def)
    have "bind_res (m fb) g = map_sum id (\<lambda>(out, k). place' (emit fb out) k)
        (map_sum id (\<lambda>(out', k'). (out @ out', k')) r')" if "sink_ok fb" for fb
      using r r' Inr ok that by (cases r') (auto simp: uniform_by_def)
    with r' show ?thesis
      by (intro uniformI [of _ _ _ _ "map_sum id (\<lambda>(out', k'). (out @ out', k')) r'"])
        (cases r'; auto simp: uniform_by_def)
  qed
qed

lemma uniform_bind_writes:
  "writes E m \<Longrightarrow> uniform E Q place g \<Longrightarrow> uniform E Q place (\<lambda>fb. bind_res (m fb) g)"
  by (rule uniform_bind) auto

lemma uniform_if:
  "(b \<Longrightarrow> uniform E Q place m) \<Longrightarrow> (\<not> b \<Longrightarrow> uniform E Q place m') \<Longrightarrow> uniform E Q place (\<lambda>fb. if b then m fb else m' fb)"
  by (cases b) auto

text \<open>\<open>good E P c\<close>: a run that does not involve the buffer fails with a fault of \<open>E\<close> or returns
  something with \<open>P\<close>.\<close>

definition good :: "fault set \<Rightarrow> ('a \<Rightarrow> bool) \<Rightarrow> 'a res \<Rightarrow> bool" where
  "good E P c \<longleftrightarrow> (case c of Inl e \<Rightarrow> e \<in> E | Inr x \<Rightarrow> P x)"

lemma good_Inr [simp]: "good E P (Inr x) \<longleftrightarrow> P x"
  by (simp add: good_def)

lemma good_Inl [simp]: "good E P (Inl e) \<longleftrightarrow> e \<in> E"
  by (simp add: good_def)

lemma good_bind: "good E P c \<Longrightarrow> (\<And>x. P x \<Longrightarrow> good E Q (f x)) \<Longrightarrow> good E Q (bind_res c f)"
  by (cases c) auto

lemma good_bind2:
  "good E (\<lambda>(a, b). P a b) c \<Longrightarrow> (\<And>a b. P a b \<Longrightarrow> good E Q (f a b)) \<Longrightarrow> good E Q (bind_res c (\<lambda>(a, b). f a b))"
  by (cases c) auto

lemma good_if: "(b \<Longrightarrow> good E P x) \<Longrightarrow> (\<not> b \<Longrightarrow> good E P y) \<Longrightarrow> good E P (if b then x else y)"
  by simp

lemma good_mono: "good E P c \<Longrightarrow> (\<And>x. P x \<Longrightarrow> Q x) \<Longrightarrow> good E Q c"
  by (cases c) auto

lemma uniform_bind_const:
  assumes "good E P c" "\<And>x. P x \<Longrightarrow> uniform E Q place (g x)"
  shows "uniform E Q place (\<lambda>fb. bind_res c (\<lambda>x. g x fb))"
  using assms by (cases c) (auto intro: uniform_fault)

lemma uniform_bind_const2:
  assumes "good E (\<lambda>(a, b). P a b) c" "\<And>a b. P a b \<Longrightarrow> uniform E Q place (g a b)"
  shows "uniform E Q place (\<lambda>fb. bind_res c (\<lambda>(a, b). g a b fb))"
  using assms by (cases c) (auto intro: uniform_fault)

lemma writes_one: "writes E (\<lambda>fb. write_one fb c)"
  by (rule writes_emit) simp

lemma writes_many: "n \<le> length (ptr_chars p) \<Longrightarrow> writes E (\<lambda>fb. write_many fb p n)"
  by (rule writes_emit) (simp add: write_many_emit)

lemma writes_padding_loop: "writes E (write_padding_loop n c)"
  by (rule writes_emit) simp

lemma writes_integer: "base_ok fm \<Longrightarrow> writes E (\<lambda>fb. write_integer fb fm v)"
  by (rule writes_emit) simp

section \<open>The parsers\<close>

text \<open>\<open>shrinks fmt' fmt\<close>: what is left of a well-formed format after consuming some of it.\<close>

definition shrinks :: "cstring \<Rightarrow> cstring \<Rightarrow> bool" where
  "shrinks fmt' fmt \<longleftrightarrow> wf_str fmt' \<and> str_size fmt' \<le> str_size fmt"

lemma shrinks_refl: "wf_str fmt \<Longrightarrow> shrinks fmt fmt"
  by (simp add: shrinks_def)

lemma shrinks_trans: "shrinks a b \<Longrightarrow> shrinks b c \<Longrightarrow> shrinks a c"
  by (simp add: shrinks_def)

lemma shrinks_wf: "shrinks a b \<Longrightarrow> wf_str a"
  by (simp add: shrinks_def)

lemma shrinks_advance: "wf_str fmt \<Longrightarrow> shrinks (str_advance fmt n) fmt"
  by (simp add: shrinks_def)

lemma consume_eq:
  assumes "wf_str fmt" "wf_str tok"
  shows "consume fmt tok = Inr (if prefix (bytes tok) (bytes fmt) then (True, str_advance fmt (str_size tok)) else (False, fmt))"
proof -
  have "str_size tok \<le> str_size fmt" if "prefix (bytes tok) (bytes fmt)"
    using prefix_length_le [OF that] assms by simp
  with assms show ?thesis by (auto simp: consume_def)
qed

lemma consume_shrinks:
  assumes "wf_str fmt"
  obtains b fmt' where "consume fmt (STR_CONSTEXPR l) = Inr (b, fmt')" "shrinks fmt' fmt"
  using assms consume_eq [OF assms, of "STR_CONSTEXPR l"]
  by (auto intro: shrinks_refl shrinks_advance that split: if_splits)

lemma length_takeWhile_hit: "x \<in> set xs \<Longrightarrow> \<not> P x \<Longrightarrow> length (takeWhile P xs) < length xs"
  by (induction xs) auto

lemma consume_one_of_eq:
  assumes "wf_str fmt"
  shows "consume_one_of fmt (STR_CONSTEXPR toks) = Inr
    (case bytes fmt of [] \<Rightarrow> (None, fmt)
     | c # _ \<Rightarrow> if c \<in> set toks then (Some c, str_advance fmt 1) else (None, fmt))"
proof (cases "bytes fmt")
  case Nil
  with assms show ?thesis by (simp add: consume_one_of_def str_empty_iff)
next
  case (Cons c cs)
  then have size: "0 < str_size fmt"
    using assms by (metis length_bytes length_greater_0_conv list.distinct(1))
  have ne: "\<not> str_empty fmt"
    using size by (simp add: str_empty_def)
  show ?thesis
  proof (cases "c \<in> set toks")
    case True
    let ?i = "length (takeWhile (\<lambda>x. x \<noteq> c) toks)"
    have "?i < length toks" "toks ! ?i = c"
      using True nth_length_takeWhile [of "\<lambda>x. x \<noteq> c" toks] length_takeWhile_hit [of c toks "\<lambda>x. x \<noteq> c"] by auto
    with True Cons assms size ne show ?thesis
      by (simp add: consume_one_of_def str_find_one_eq)
  next
    case False
    with Cons assms size ne show ?thesis
      by (simp add: consume_one_of_def str_find_one_eq)
  qed
qed

lemma consume_one_of_shrinks:
  assumes "wf_str fmt"
  obtains f fmt' where "consume_one_of fmt (STR_CONSTEXPR toks) = Inr (f, fmt')" "shrinks fmt' fmt"
    "\<And>c. f = Some c \<Longrightarrow> c \<in> set toks"
proof (cases "bytes fmt")
  case Nil
  with that [of None fmt] show ?thesis
    using assms by (simp add: consume_one_of_eq shrinks_refl)
next
  case (Cons c cs)
  with that [of None fmt] that [of "Some c" "str_advance fmt 1"] show ?thesis
    using assms by (cases "c \<in> set toks") (simp_all add: consume_one_of_eq shrinks_refl shrinks_advance)
qed

lemma parse_flags_shrinks:
  assumes "wf_str fmt"
  shows "\<exists>fmt' fm'. parse_flags fmt fm = Inr (fmt', fm') \<and> shrinks fmt' fmt \<and> base fm' = base fm"
  using assms
proof (induction fmt fm rule: parse_flags.induct)
  case (1 fmt fm)
  obtain f fmt' where f: "consume_one_of fmt (STR_CONSTEXPR ''+- 0#'') = Inr (f, fmt')" "shrinks fmt' fmt"
    using consume_one_of_shrinks [OF "1.prems"] .
  show ?case
  proof (cases f)
    case None
    with f show ?thesis by (subst parse_flags.simps) simp
  next
    case (Some c)
    have "base (apply_flag c fm) = base fm"
      by (simp add: apply_flag_def)
    with "1.IH" [OF f(1) refl Some shrinks_wf [OF f(2)]] f Some show ?thesis
      by (subst parse_flags.simps) (auto intro: shrinks_trans)
  qed
qed

lemma consume_digits_loop_eq:
  "wf_str fmt \<Longrightarrow> bytes fmt \<noteq> [] \<longrightarrow> str_text out \<noteq> Null \<Longrightarrow>
     consume_digits_loop fmt out =
       Inr (str_advance fmt (length (takeWhile isdigit (bytes fmt))),
            out\<lparr>str_size := str_size out + length (takeWhile isdigit (bytes fmt))\<rparr>)"
proof (induction fmt out rule: consume_digits_loop.induct)
  case (1 fmt out)
  show ?case
  proof (cases "bytes fmt")
    case Nil
    with "1.prems" show ?thesis
      by (subst consume_digits_loop.simps) (simp add: str_empty_iff)
  next
    case (Cons c cs)
    then have size: "str_size fmt = Suc (length cs)"
      using "1.prems"(1) by (metis length_Cons length_bytes)
    have step: "\<not> str_empty fmt" "char_at fmt 0 = Inr c" "str_offset_by fmt 1 = Inr (str_advance fmt 1)"
      "bytes (str_advance fmt 1) = cs"
      using "1.prems"(1) Cons size by (simp_all add: str_empty_def)
    have ext: "str_extend_by out 1 = Inr (out\<lparr>str_size := str_size out + 1\<rparr>)"
      using "1.prems"(2) Cons by (simp add: str_extend_by_def)
    show ?thesis
    proof (cases "isdigit c")
      case True
      with "1.IH" [OF step(1,2) _ ext step(3)] step ext "1.prems" Cons show ?thesis
        by (subst consume_digits_loop.simps) simp
    next
      case False
      with step Cons show ?thesis
        by (subst consume_digits_loop.simps) simp
    qed
  qed
qed

lemma consume_digits_eq:
  assumes "wf_str fmt"
  shows "\<exists>fmt' digits. consume_digits fmt = Inr (fmt', digits) \<and> shrinks fmt' fmt \<and> wf_str digits
    \<and> bytes digits = takeWhile isdigit (bytes fmt) \<and> bytes fmt' = dropWhile isdigit (bytes fmt)"
proof -
  let ?n = "length (takeWhile isdigit (bytes fmt))"
  have n: "?n \<le> str_size fmt"
    using length_takeWhile_le [of isdigit "bytes fmt"] assms by simp
  have "bytes fmt \<noteq> [] \<longrightarrow> str_text fmt \<noteq> Null"
    by (auto simp: bytes_def)
  then have "consume_digits fmt = Inr (str_advance fmt ?n, \<lparr>str_text = str_text fmt, str_size = ?n\<rparr>)"
    using assms by (simp add: consume_digits_def consume_digits_loop_eq)
  moreover have "wf_str \<lparr>str_text = str_text fmt, str_size = ?n\<rparr>"
    using assms n by (simp add: wf_str_def)
  moreover have "bytes \<lparr>str_text = str_text fmt, str_size = ?n\<rparr> = take ?n (bytes fmt)"
    using n by (simp add: bytes_def min_absorb1)
  moreover have "take ?n (bytes fmt) = takeWhile isdigit (bytes fmt)"
    by (rule takeWhile_eq_take [symmetric])
  moreover have "bytes (str_advance fmt ?n) = dropWhile isdigit (bytes fmt)"
    by (simp add: dropWhile_eq_drop [symmetric])
  ultimately show ?thesis
    using shrinks_advance [OF assms] by metis
qed

lemma parse_number_shrinks:
  assumes "wf_str fmt"
  shows "\<exists>fmt' ret. parse_number fmt mode = Inr (fmt', ret) \<and> shrinks fmt' fmt"
proof -
  obtain fmt' digits where "consume_digits fmt = Inr (fmt', digits)" "shrinks fmt' fmt" "wf_str digits"
    using consume_digits_eq [OF assms] by blast
  then show ?thesis
    by (simp add: parse_number_def str_to_u64_with_base_eq)
qed

section \<open>Faults of the directives\<close>

definition args_ok :: "fault set \<Rightarrow> va_arg list \<Rightarrow> bool" where
  "args_ok E args \<longleftrightarrow> Wild \<in> E \<and> (\<forall>s. Va_string (Some s) \<in> set args \<longrightarrow> wf_str s) \<and>
     ((\<exists>a. Va_string a \<in> set args) \<longrightarrow> Hang \<in> E)"

lemma args_ok_subset: "args_ok E args \<Longrightarrow> set args' \<subseteq> set args \<Longrightarrow> args_ok E args'"
  by (auto simp: args_ok_def)

abbreviation left :: "cstring \<Rightarrow> va_arg list \<Rightarrow> cstring \<Rightarrow> va_arg list \<Rightarrow> bool" where
  "left fmt args fmt' args' \<equiv> shrinks fmt' fmt \<and> set args' \<subseteq> set args"

lemma left_trans: "left fmt args fmt' args' \<Longrightarrow> left fmt' args' fmt'' args'' \<Longrightarrow> left fmt args fmt'' args''"
  by (auto intro: shrinks_trans)

lemma good_consume:
  assumes "wf_str fmt"
  shows "good E (\<lambda>(b, fmt'). shrinks fmt' fmt) (consume fmt (STR_CONSTEXPR l))"
proof -
  obtain b fmt' where "consume fmt (STR_CONSTEXPR l) = Inr (b, fmt')" "shrinks fmt' fmt"
    using consume_shrinks [OF assms] .
  then show ?thesis by simp
qed

lemma good_consume_one_of:
  assumes "wf_str fmt"
  shows "good E (\<lambda>(f, fmt'). shrinks fmt' fmt) (consume_one_of fmt (STR_CONSTEXPR toks))"
proof -
  obtain f fmt' where "consume_one_of fmt (STR_CONSTEXPR toks) = Inr (f, fmt')" "shrinks fmt' fmt"
    using consume_one_of_shrinks [OF assms] by blast
  then show ?thesis by simp
qed

lemma good_va:
  assumes "args_ok E args"
  shows "good E (\<lambda>(v, args'). set args' \<subseteq> set args) (va_int args)"
    "good E (\<lambda>(v, args'). set args' \<subseteq> set args) (va_long args)"
    "good E (\<lambda>(v, args'). set args' \<subseteq> set args) (va_chars args)"
    "good E (\<lambda>(v, args'). set args' \<subseteq> set args) (va_ptr args)"
    "good E (\<lambda>(v, args'). set args' \<subseteq> set args \<and> Hang \<in> E \<and> (\<forall>s. v = Some s \<longrightarrow> wf_str s)) (va_string args)"
proof -
  have w: "Wild \<in> E" "\<forall>s. Va_string (Some s) \<in> set args \<longrightarrow> wf_str s"
      "(\<exists>a. Va_string a \<in> set args) \<longrightarrow> Hang \<in> E"
    using assms by (auto simp: args_ok_def)
  show "good E (\<lambda>(v, args'). set args' \<subseteq> set args) (va_int args)"
    using w by (cases args rule: va_int.cases) auto
  show "good E (\<lambda>(v, args'). set args' \<subseteq> set args) (va_long args)"
    using w by (cases args rule: va_long.cases) auto
  show "good E (\<lambda>(v, args'). set args' \<subseteq> set args) (va_chars args)"
    using w by (cases args rule: va_chars.cases) auto
  show "good E (\<lambda>(v, args'). set args' \<subseteq> set args) (va_ptr args)"
    using w by (cases args rule: va_ptr.cases) auto
  show "good E (\<lambda>(v, args'). set args' \<subseteq> set args \<and> Hang \<in> E \<and> (\<forall>s. v = Some s \<longrightarrow> wf_str s)) (va_string args)"
    using w by (cases args rule: va_string.cases) auto
qed

definition field_ok :: "cstring \<Rightarrow> va_arg list \<Rightarrow> errno + cstring \<times> va_arg list \<times> 64 word \<Rightarrow> bool" where
  "field_ok fmt args ret \<longleftrightarrow> (case ret of Inl e \<Rightarrow> True | Inr (fmt', args', v) \<Rightarrow> left fmt args fmt' args')"

lemma good_parse_field:
  assumes "wf_str fmt" "args_ok E args"
  shows "good E (field_ok fmt args) (parse_field fmt args mode old)"
  unfolding parse_field_def
proof (rule good_bind2 [OF good_consume [OF assms(1)]], rule good_if)
  fix star fmt1
  assume s: "shrinks fmt1 fmt"
  then show "good E (field_ok fmt args) (bind_res (va_int args) (\<lambda>(v, args'). Inr (Inr (fmt1, args', scast v))))"
    by (intro good_bind2 [OF good_va(1) [OF assms(2)]]) (simp add: field_ok_def)
  obtain fmt2 ret where p: "parse_number fmt1 mode = Inr (fmt2, ret)" "shrinks fmt2 fmt1"
    using parse_number_shrinks [OF shrinks_wf [OF s]] by blast
  have "shrinks fmt2 fmt"
    using shrinks_trans [OF p(2) s] .
  then show "good E (field_ok fmt args) (bind_res (parse_number fmt1 mode)
        (\<lambda>(fmt'', ret). case ret of Inl e \<Rightarrow> Inr (Inl e) | Inr None \<Rightarrow> Inr (Inr (fmt'', args, old))
           | Inr (Some v) \<Rightarrow> Inr (Inr (fmt'', args, v))))"
    unfolding p(1) by (auto simp: field_ok_def split: sum.splits option.splits)
qed

definition spec_ok :: "cstring \<Rightarrow> va_arg list \<Rightarrow> errno + cstring \<times> va_arg list \<times> fmt_spec \<Rightarrow> bool" where
  "spec_ok fmt args ret \<longleftrightarrow>
     (case ret of Inl e \<Rightarrow> True | Inr (fmt', args', fm) \<Rightarrow> left fmt args fmt' args' \<and> base fm = 10)"

lemma good_parse_spec:
  assumes wf: "wf_str fmt" and a: "args_ok E args"
  shows "good E (spec_ok fmt args) (parse_spec fmt args)"
proof -
  obtain fmt1 fm where f: "parse_flags fmt initial_spec = Inr (fmt1, fm)" "shrinks fmt1 fmt" "base fm = 10"
    using parse_flags_shrinks [OF wf, of initial_spec] by (auto simp: initial_spec_def)
  note wf1 = shrinks_wf [OF f(2)]
  show ?thesis
    unfolding parse_spec_def f(1) bind_res.simps prod.case
  proof (rule good_bind [OF good_parse_field [OF wf1 a]], goal_cases)
    case (1 width)
    show ?case
    proof (cases width)
      case (Inr x)
      obtain fmt2 args2 w where x: "x = (fmt2, args2, w)" by (cases x)
      have l2: "left fmt1 args fmt2 args2"
        using 1 Inr x by (simp add: field_ok_def)
      then have wf2: "wf_str fmt2" and a2: "args_ok E args2"
        using shrinks_wf args_ok_subset [OF a] by blast+
      show ?thesis
        unfolding Inr x Let_def sum.case prod.case
      proof (rule good_bind2 [OF good_consume [OF wf2]], rule good_if)
        fix dot fmt3
        assume s3: "shrinks fmt3 fmt2"
        then have l3: "shrinks fmt3 fmt" "set args2 \<subseteq> set args"
          using l2 f by (auto intro: shrinks_trans)
        with f(3) show "good E (spec_ok fmt args) (Inr (Inr (fmt3, args2, fm\<lparr>min_width := w\<rparr>)))"
          by (simp add: spec_ok_def)
        show "good E (spec_ok fmt args)
          (bind_res (parse_field fmt3 args2 PARSE_NUMBER_MODE_MUST (precision (fm\<lparr>min_width := w\<rparr>)))
            (\<lambda>prec. case prec of Inl e \<Rightarrow> Inr (Inl e)
               | Inr (fmt4, args4, p) \<Rightarrow>
                   Inr (Inr (fmt4, args4, (fm\<lparr>min_width := w\<rparr>)\<lparr>has_precision := True, precision := p\<rparr>))))"
          by (rule good_bind [OF good_parse_field [OF shrinks_wf [OF s3] a2]])
            (use l3 f(3) in \<open>auto intro: shrinks_trans simp: spec_ok_def field_ok_def split: sum.splits\<close>)
      qed
    qed (simp add: spec_ok_def)
  qed
qed

definition int_arg_ok :: "cstring \<Rightarrow> va_arg list \<Rightarrow> errno + int_arg \<Rightarrow> bool" where
  "int_arg_ok fmt args ret \<longleftrightarrow>
     (case ret of Inl e \<Rightarrow> True | Inr (v, s, f, fmt', args') \<Rightarrow> left fmt args fmt' args')"

lemma int_arg_ok_trans: "int_arg_ok fmt' args ret \<Longrightarrow> shrinks fmt' fmt \<Longrightarrow> int_arg_ok fmt args ret"
  by (auto simp: int_arg_ok_def split: sum.splits intro: shrinks_trans)

lemma good_consume_if:
  assumes "wf_str fmt"
  shows "good E (\<lambda>(b, fmt'). shrinks fmt' fmt) (if b then Inr (True, fmt) else consume fmt (STR_CONSTEXPR l))"
  using assms good_consume shrinks_refl by auto

lemma good_consume_trans:
  assumes "shrinks fmt' fmt"
  shows "good E (\<lambda>(b, fmt''). shrinks fmt'' fmt) (consume fmt' (STR_CONSTEXPR l))"
    "good E (\<lambda>(b, fmt''). shrinks fmt'' fmt) (if b then Inr (True, fmt') else consume fmt' (STR_CONSTEXPR l))"
  using shrinks_trans [OF _ assms]
  by (auto intro: good_mono [OF good_consume [OF shrinks_wf [OF assms]]]
      good_mono [OF good_consume_if [OF shrinks_wf [OF assms]]] assms)

lemma good_int_directive:
  assumes wf: "wf_str fmt" and get: "good E (\<lambda>(v, args'). set args' \<subseteq> set args) (get args)"
  shows "good E (int_arg_ok fmt args) (int_directive fmt args get sx zx)"
  unfolding int_directive_def
proof (rule good_bind2 [OF good_consume [OF wf]])
  fix d fmt1
  assume s1: "shrinks fmt1 fmt"
  show "good E (int_arg_ok fmt args)
    (bind_res (if d then Inr (True, fmt1) else consume fmt1 (STR_CONSTEXPR ''i'')) (\<lambda>(i, fmt2).
       if i then bind_res (get args) (\<lambda>(v, args'). Inr (Inr (sx v, True, NUL, fmt2, args')))
       else bind_res (consume_one_of fmt2 (STR_CONSTEXPR ''oxXu'')) (\<lambda>(flag, fmt3). case flag of
              Some f \<Rightarrow> bind_res (get args) (\<lambda>(v, args'). Inr (Inr (zx v, False, f, fmt3, args')))
            | None \<Rightarrow> Inr (Inl EINVAL))))"
  proof (rule good_bind2 [OF good_consume_if [OF shrinks_wf [OF s1]]], rule good_if)
    fix i fmt2
    assume s2: "shrinks fmt2 fmt1"
    with s1 show "good E (int_arg_ok fmt args) (bind_res (get args) (\<lambda>(v, args'). Inr (Inr (sx v, True, NUL, fmt2, args'))))"
      by (intro good_bind2 [OF get]) (auto simp: int_arg_ok_def intro: shrinks_trans)
    show "good E (int_arg_ok fmt args)
      (bind_res (consume_one_of fmt2 (STR_CONSTEXPR ''oxXu'')) (\<lambda>(flag, fmt3). case flag of
              Some f \<Rightarrow> bind_res (get args) (\<lambda>(v, args'). Inr (Inr (zx v, False, f, fmt3, args')))
            | None \<Rightarrow> Inr (Inl EINVAL)))"
    proof (rule good_bind2 [OF good_consume_one_of [OF shrinks_wf [OF s2]]], goal_cases)
      case (1 flag fmt3)
      then have "shrinks fmt3 fmt"
        using s1 s2 by (blast intro: shrinks_trans)
      then show ?case
        by (cases flag) (auto simp: int_arg_ok_def intro!: good_bind2 [OF get])
    qed
  qed
qed

lemma good_int_argument:
  assumes wf: "wf_str fmt" and a: "args_ok E args"
  shows "good E (int_arg_ok fmt args) (int_argument fmt args)"
proof -
  have d: "good E (int_arg_ok fmt args) (int_directive fmt' args va_int sx zx)"
    "good E (int_arg_ok fmt args) (int_directive fmt' args va_long sx' zx')" if "shrinks fmt' fmt" for fmt' sx zx sx' zx'
    using good_int_directive [where get = va_int, OF shrinks_wf [OF that] good_va(1) [OF a]]
      good_int_directive [where get = va_long, OF shrinks_wf [OF that] good_va(2) [OF a]]
      int_arg_ok_trans [OF _ that]
    by (blast intro: good_mono)+
  note step = good_consume_trans
  show ?thesis
    unfolding int_argument_def
    by (intro good_bind2 [OF step(1)] good_bind2 [OF step(2)] good_if d; (assumption | rule shrinks_refl [OF wf]))
qed

section \<open>One directive\<close>

datatype step_end = More cstring "va_arg list" | Done | Fail errno

fun place_step :: "fmt_buf_state \<Rightarrow> step_end \<Rightarrow> fmt_step" where
  "place_step fb (More fmt args) = Continue fb fmt args"
| "place_step fb Done = Finished fb"
| "place_step fb (Fail e) = Failed fb e"

fun step_left :: "cstring \<Rightarrow> va_arg list \<Rightarrow> step_end \<Rightarrow> bool" where
  "step_left fmt args (More fmt' args') \<longleftrightarrow> left fmt args fmt' args'"
| "step_left fmt args _ \<longleftrightarrow> True"

lemma step_left_trans:
  "step_left fmt' args' k \<Longrightarrow> left fmt args fmt' args' \<Longrightarrow> step_left fmt args k"
  by (cases k) (auto intro: shrinks_trans)

abbreviation steps :: "fault set \<Rightarrow> cstring \<Rightarrow> va_arg list \<Rightarrow> (fmt_buf_state \<Rightarrow> fmt_step res) \<Rightarrow> bool" where
  "steps E fmt args \<equiv> uniform E (step_left fmt args) place_step"

lemma steps_continue:
  "writes E m \<Longrightarrow> left fmt args fmt' args' \<Longrightarrow>
     steps E fmt args (\<lambda>fb. bind_res (m fb) (\<lambda>fb'. Inr (Continue fb' fmt' args')))"
  by (rule uniform_bind_writes) (auto intro: uniform_return [of _ _ "More fmt' args'"])

lemma writes_chars_loop:
  assumes "Wild \<in> E"
  shows "uniform E (\<lambda>_. True) (\<lambda>fb i. (fb, i)) (\<lambda>fb. write_chars_loop fb fm str i)"
proof (induction "length (ptr_chars str) - i" arbitrary: i rule: less_induct)
  case less
  show ?case
  proof (cases "\<not> has_precision fm \<or> i < unat (precision fm)")
    case False
    then show ?thesis
      by (subst write_chars_loop.simps) (simp add: uniform_return [of _ _ i])
  next
    case True
    have eq: "(\<lambda>fb. write_chars_loop fb fm str i) = (\<lambda>fb. bind_res (char_at_ptr str i) (\<lambda>c.
        if c = NUL then Inr (fb, i)
        else bind_res (write_one fb c) (\<lambda>fb'. write_chars_loop fb' fm str (Suc i))))"
      using True by (subst write_chars_loop.simps) simp
    have "good E (\<lambda>_. i < length (ptr_chars str)) (char_at_ptr str i)"
      using assms by (cases str) auto
    then show ?thesis
      unfolding eq
    proof (rule uniform_bind_const, intro uniform_if)
      fix c
      show "uniform E (\<lambda>_. True) (\<lambda>fb i. (fb, i)) (\<lambda>fb. Inr (fb, i))"
        by (rule uniform_return) simp_all
      assume "i < length (ptr_chars str)"
      then have "uniform E (\<lambda>_. True) (\<lambda>fb i. (fb, i)) (\<lambda>fb. write_chars_loop fb fm str (Suc i))"
        by (intro less) simp
      then show "uniform E (\<lambda>_. True) (\<lambda>fb i. (fb, i)) (\<lambda>fb. bind_res (write_one fb c) (\<lambda>fb'. write_chars_loop fb' fm str (Suc i)))"
        by (rule uniform_bind_writes [OF writes_one])
    qed
  qed
qed

lemma writes_chars: "Wild \<in> E \<Longrightarrow> writes E (\<lambda>fb. write_chars fb fm arg)"
  unfolding write_chars_def Let_def
  by (rule uniform_bind [OF writes_chars_loop]) (simp_all add: writes_padding_loop)

lemma writes_string:
  assumes "Hang \<in> E" "\<forall>s. arg = Some s \<longrightarrow> wf_str s"
  shows "writes E (\<lambda>fb. write_string fb fm arg)"
proof -
  define str where "str = (case arg of None \<Rightarrow> STR_CONSTEXPR ''<null-string>'' | Some s \<Rightarrow> s)"
  have "wf_str str"
    using assms(2) by (auto simp: str_def split: option.split)
  define size where "size = (if has_precision fm then C_MIN (unat (precision fm)) (str_size str) else str_size str)"
  have "size \<le> length (ptr_chars (str_text str))"
    using \<open>wf_str str\<close> by (auto simp: size_def wf_str_def)
  then have "writes E (\<lambda>fb. write_many fb (str_text str) size)"
    by (rule writes_many)
  then show ?thesis
    unfolding write_string_def Let_def str_def [symmetric] size_def [symmetric]
    by (rule uniform_bind_writes)
      (rule uniform_cong [of _ "\<lambda>fb'. if size < unat (precision fm) then Inl Hang else Inr fb'"],
       simp add: pad_string_loop_eq, intro uniform_if uniform_fault [OF assms(1)] uniform_return; simp)
qed

lemma base_ok_specifier:
  "base fm = 10 \<Longrightarrow> base_ok (if f \<noteq> NUL
      then (if b then fm\<lparr>is_signed := True\<rparr> else fm)\<lparr>base := base_from_specifier f, uppercase := u\<rparr>
      else (if b then fm\<lparr>is_signed := True\<rparr> else fm))"
  by (auto simp: base_ok_def base_from_specifier_def)

lemma steps_int:
  assumes wf: "wf_str fmt" and a: "args_ok E args" and b: "base fm = 10"
  shows "steps E fmt args (\<lambda>fb. bind_res (int_argument fmt args) (\<lambda>ret. case ret of
            Inl e \<Rightarrow> Inr (Failed fb e)
          | Inr (value, sgn_arg, flag, fmt4, args') \<Rightarrow>
              let fm1 = (if sgn_arg then fm\<lparr>is_signed := True\<rparr> else fm);
                  fm2 = (if flag \<noteq> NUL
                         then fm1\<lparr>base := base_from_specifier flag, uppercase := is_uppercase_specifier flag\<rparr>
                         else fm1)
              in bind_res (write_integer fb fm2 value) (\<lambda>fb'. Inr (Continue fb' fmt4 args'))))"
proof (rule uniform_bind_const [OF good_int_argument [OF wf a]])
  fix ret
  assume ret: "int_arg_ok fmt args ret"
  show "steps E fmt args (\<lambda>fb. case ret of
            Inl e \<Rightarrow> Inr (Failed fb e)
          | Inr (value, sgn_arg, flag, fmt4, args') \<Rightarrow>
              let fm1 = (if sgn_arg then fm\<lparr>is_signed := True\<rparr> else fm);
                  fm2 = (if flag \<noteq> NUL
                         then fm1\<lparr>base := base_from_specifier flag, uppercase := is_uppercase_specifier flag\<rparr>
                         else fm1)
              in bind_res (write_integer fb fm2 value) (\<lambda>fb'. Inr (Continue fb' fmt4 args')))"
  proof (cases ret)
    case (Inl e)
    then show ?thesis
      by (auto intro: uniform_return [of _ _ "Fail e"])
  next
    case (Inr x)
    obtain v s f fmt' args' where x: "x = (v, s, f, fmt', args')" by (cases x)
    have "left fmt args fmt' args'"
      using ret Inr x by (simp add: int_arg_ok_def)
    then show ?thesis
      unfolding Inr x Let_def sum.case prod.case
      by (intro steps_continue writes_integer base_ok_specifier b)
  qed
qed

lemma steps_directive:
  assumes wf: "wf_str fmt" and a: "args_ok E args" and b: "base fm = 10"
  shows "steps E fmt args (\<lambda>fb. write_directive fb fmt args fm)"
proof -
  have w: "Wild \<in> E"
    using a by (simp add: args_ok_def)
  note step = good_consume_trans(1)
  have int: "steps E fmt args (\<lambda>fb. bind_res (int_argument fmt' args) (\<lambda>ret. case ret of
            Inl e \<Rightarrow> Inr (Failed fb e)
          | Inr (value, sgn_arg, flag, fmt4, args') \<Rightarrow>
              let fm1 = (if sgn_arg then fm\<lparr>is_signed := True\<rparr> else fm);
                  fm2 = (if flag \<noteq> NUL
                         then fm1\<lparr>base := base_from_specifier flag, uppercase := is_uppercase_specifier flag\<rparr>
                         else fm1)
              in bind_res (write_integer fb fm2 value) (\<lambda>fb'. Inr (Continue fb' fmt4 args'))))"
    if "shrinks fmt' fmt" for fmt'
    using that by (intro uniform_mono [OF steps_int [OF shrinks_wf [OF that] a b]]) (auto intro: step_left_trans)
  show ?thesis
    unfolding write_directive_def
    apply (rule uniform_bind_const2 [OF step [OF shrinks_refl [OF wf]]], rule uniform_if)
     apply (rule uniform_bind_const2 [OF good_va(1) [OF a]])
     apply (intro steps_continue writes_one conjI; assumption)
    apply (rule uniform_bind_const2 [OF step], assumption, rule uniform_if)
     apply (rule uniform_bind_const2 [OF good_va(3) [OF a]])
     apply (intro steps_continue writes_chars w conjI; assumption)
    apply (rule uniform_bind_const2 [OF step], assumption, rule uniform_if)
     apply (rule uniform_bind_const2 [OF step], assumption, rule uniform_if)
      apply (rule uniform_bind_const2 [OF good_va(5) [OF a]], elim conjE)
      apply (intro steps_continue writes_string conjI; assumption)
     apply (rule uniform_bind_const2 [OF good_va(4) [OF a]])
     apply (intro steps_continue writes_integer conjI; (assumption | simp add: base_ok_def))
    apply (erule int)
    done
qed

section \<open>The loop\<close>

fun step_down :: "cstring \<Rightarrow> va_arg list \<Rightarrow> step_end \<Rightarrow> bool" where
  "step_down fmt args (More fmt' args') \<longleftrightarrow>
     wf_str fmt' \<and> str_size fmt' < str_size fmt \<and> set args' \<subseteq> set args"
| "step_down fmt args _ \<longleftrightarrow> True"

lemma step_left_down:
  "step_left fmt' args' k \<Longrightarrow> str_size fmt' < str_size fmt \<Longrightarrow> set args' \<subseteq> set args \<Longrightarrow> step_down fmt args k"
  by (cases k) (auto simp: shrinks_def)

definition literal_length :: "cstring \<Rightarrow> nat" where
  "literal_length fmt = length (takeWhile (\<lambda>c. c \<noteq> CHR ''%'') (bytes fmt))"

lemma literal_length_le: "wf_str fmt \<Longrightarrow> literal_length fmt \<le> str_size fmt"
  using length_takeWhile_le [of _ "bytes fmt"] by (simp add: literal_length_def)

lemma next_offset_eq:
  assumes "wf_str fmt"
  shows "\<exists>i. str_find_one fmt (CHR ''%'') 0 = Inr i \<and> (if i < 0 then str_size fmt else nat i) = literal_length fmt"
proof (cases "CHR ''%'' \<in> set (bytes fmt)")
  case False
  then have "literal_length fmt = str_size fmt"
    unfolding literal_length_def using assms by (subst takeWhile_eq_all_conv [THEN iffD2]) auto
  with False assms show ?thesis
    by (simp add: str_find_one_eq)
qed (use assms in \<open>simp add: str_find_one_eq literal_length_def\<close>)

lemma steps_step:
  assumes wf: "wf_str fmt" and ne: "\<not> str_empty fmt" and a: "args_ok E args"
  shows "uniform E (step_down fmt args) place_step (\<lambda>fb. vsnprintf_step fb fmt args)"
proof -
  let ?n = "literal_length fmt"
  let ?fmt1 = "str_advance fmt ?n"
  obtain i where i: "str_find_one fmt (CHR ''%'') 0 = Inr i" "(if i < 0 then str_size fmt else nat i) = ?n"
    using next_offset_eq [OF wf] by blast
  note n = literal_length_le [OF wf]
  have eq: "(\<lambda>fb. vsnprintf_step fb fmt args) = (\<lambda>fb.
      bind_res (if ?n \<noteq> 0 then write_many fb (str_text fmt) ?n else Inr fb) (\<lambda>fb1.
        if str_empty ?fmt1 then Inr (Finished fb1)
        else bind_res (consume ?fmt1 (STR_CONSTEXPR ''%%'')) (\<lambda>(pct, fmt2).
          if pct then bind_res (write_one fb1 (CHR ''%'')) (\<lambda>fb2. Inr (Continue fb2 fmt2 args))
          else bind_res (str_offset_by fmt2 1) (\<lambda>fmt3.
               bind_res (parse_spec fmt3 args) (\<lambda>ret. case ret of
                 Inl e \<Rightarrow> Inr (Failed fb1 e)
               | Inr (fmt4, args4, fm) \<Rightarrow> write_directive fb1 fmt4 args4 fm)))))"
    by (simp only: vsnprintf_step_def i bind_res.simps Let_def str_offset_by_eq [OF n])
  have literal: "writes E (\<lambda>fb. if ?n \<noteq> 0 then write_many fb (str_text fmt) ?n else Inr fb)"
    using n wf by (intro uniform_if writes_many uniform_return) (auto simp: wf_str_def)
  show ?thesis
    unfolding eq
  proof (rule uniform_bind_writes [OF literal], rule uniform_if)
    show "uniform E (step_down fmt args) place_step (\<lambda>fb1. Inr (Finished fb1))"
      by (rule uniform_return [of _ _ Done]) simp_all
    assume "\<not> str_empty ?fmt1"
    then have lt: "?n < str_size fmt"
      by (simp add: str_empty_def)
    have wf1: "wf_str ?fmt1"
      using wf by simp
    let ?p = "prefix ''%%'' (bytes ?fmt1)"
    have c: "consume ?fmt1 (STR_CONSTEXPR ''%%'') = Inr (if ?p then (True, str_advance ?fmt1 2) else (False, ?fmt1))"
      using consume_eq [OF wf1, of "STR_CONSTEXPR ''%%''"] by simp
    have o: "str_offset_by ?fmt1 1 = Inr (str_advance ?fmt1 1)"
      using lt by (intro str_offset_by_eq) simp
    show "uniform E (step_down fmt args) place_step (\<lambda>fb1.
        bind_res (consume ?fmt1 (STR_CONSTEXPR ''%%'')) (\<lambda>(pct, fmt2).
          if pct then bind_res (write_one fb1 (CHR ''%'')) (\<lambda>fb2. Inr (Continue fb2 fmt2 args))
          else bind_res (str_offset_by fmt2 1) (\<lambda>fmt3.
               bind_res (parse_spec fmt3 args) (\<lambda>ret. case ret of
                 Inl e \<Rightarrow> Inr (Failed fb1 e)
               | Inr (fmt4, args4, fm) \<Rightarrow> write_directive fb1 fmt4 args4 fm))))"
    proof (cases ?p)
      case True
      have "uniform E (step_down fmt args) place_step
          (\<lambda>fb1. bind_res (write_one fb1 (CHR ''%'')) (\<lambda>fb2. Inr (Continue fb2 (str_advance ?fmt1 2) args)))"
        using lt wf
        by (intro uniform_bind_writes [OF writes_one] uniform_return [of _ _ "More (str_advance ?fmt1 2) args"]) auto
      with True show ?thesis
        unfolding c by simp
    next
      case False
      let ?fmt3 = "str_advance ?fmt1 1"
      have wf3: "wf_str ?fmt3" "str_size ?fmt3 < str_size fmt"
        using wf lt by auto
      have "uniform E (step_down fmt args) place_step (\<lambda>fb1. bind_res (parse_spec ?fmt3 args) (\<lambda>ret. case ret of
                 Inl e \<Rightarrow> Inr (Failed fb1 e)
               | Inr (fmt4, args4, fm) \<Rightarrow> write_directive fb1 fmt4 args4 fm))"
      proof (rule uniform_bind_const [OF good_parse_spec [OF wf3(1) a]])
        fix ret
        assume ret: "spec_ok ?fmt3 args ret"
        show "uniform E (step_down fmt args) place_step (\<lambda>fb1. case ret of
                 Inl e \<Rightarrow> Inr (Failed fb1 e)
               | Inr (fmt4, args4, fm) \<Rightarrow> write_directive fb1 fmt4 args4 fm)"
        proof (cases ret)
          case (Inl e)
          then show ?thesis by (auto intro: uniform_return [of _ _ "Fail e"])
        next
          case (Inr x)
          obtain fmt4 args4 fm where x: "x = (fmt4, args4, fm)" by (cases x)
          with ret Inr have l: "left ?fmt3 args fmt4 args4" "base fm = 10"
            by (simp_all add: spec_ok_def)
          have st: "steps E fmt4 args4 (\<lambda>fb1. write_directive fb1 fmt4 args4 fm)"
            using l by (intro steps_directive args_ok_subset [OF a]) (auto simp: shrinks_def)
          have "str_size fmt4 < str_size fmt"
            using l wf3(2) by (auto simp: shrinks_def)
          with l show ?thesis
            unfolding Inr x sum.case prod.case
            by (intro uniform_mono [OF st]) (auto intro: step_left_down)
        qed
      qed
      with False o show ?thesis
        unfolding c by simp
    qed
  qed
qed

lemma uniform_loop:
  "wf_str fmt \<Longrightarrow> args_ok E args \<Longrightarrow> str_size fmt < fuel \<Longrightarrow>
     uniform E (\<lambda>_. True) (\<lambda>fb k. (fb, k)) (\<lambda>fb. vsnprintf_loop fuel fb fmt args)"
proof (induction fuel arbitrary: fmt args)
  case (Suc fuel)
  show ?case
  proof (cases "str_empty fmt")
    case True
    then show ?thesis
      by (auto intro: uniform_return [of _ _ None])
  next
    case False
    then have eq: "(\<lambda>fb. vsnprintf_loop (Suc fuel) fb fmt args) = (\<lambda>fb.
        bind_res (vsnprintf_step fb fmt args) (\<lambda>step. case step of
             Continue fb' fmt' args' \<Rightarrow> vsnprintf_loop fuel fb' fmt' args'
           | Finished fb' \<Rightarrow> Inr (fb', None)
           | Failed fb' e \<Rightarrow> Inr (fb', Some e)))"
      by simp
    show ?thesis
      unfolding eq
    proof (rule uniform_bind [OF steps_step [OF Suc.prems(1) False Suc.prems(2)]])
      fix k
      assume k: "step_down fmt args k"
      show "uniform E (\<lambda>_. True) (\<lambda>fb k. (fb, k)) (\<lambda>fb. case place_step fb k of
             Continue fb' fmt' args' \<Rightarrow> vsnprintf_loop fuel fb' fmt' args'
           | Finished fb' \<Rightarrow> Inr (fb', None)
           | Failed fb' e \<Rightarrow> Inr (fb', Some e))"
      proof (cases k)
        case (More fmt' args')
        with k Suc.prems show ?thesis
          by (auto intro!: Suc.IH args_ok_subset [OF Suc.prems(2)])
      next
        case Done
        then show ?thesis by (auto intro: uniform_return [of _ _ None])
      next
        case (Fail e)
        then show ?thesis by (auto intro: uniform_return [of _ _ "Some e"])
      qed
    qed
  qed
qed simp

end
