(* ===== verification/FormatTheorems.thy ===== *)
theory FormatTheorems
  imports FormatUniform
begin

text \<open>
  The properties of the formatter: one text per format and argument list, stored truncated and
  terminated in a buffer of any size; the exact text of integers; printing followed by parsing;
  and two defects.
\<close>

section \<open>What a call leaves behind\<close>

text \<open>\<open>printed buf cap out e\<close>: the buffer and the result of a call that wrote \<open>out\<close> and ended
  normally (\<open>None\<close>) or with an error.\<close>

definition printed :: "char list \<Rightarrow> nat \<Rightarrow> char list \<Rightarrow> errno option \<Rightarrow> char list \<times> int" where
  "printed buf cap out e = (case e of
     Some err \<Rightarrow> (take cap out @ drop (min cap (length out)) buf, - int (errno_code err))
   | None \<Rightarrow> (if cap = 0 then buf
              else take (cap - 1) out @ [NUL] @ drop (Suc (min (cap - 1) (length out))) buf,
              sint (of_nat (length out) :: 32 word)))"

definition print_faults :: "va_arg list \<Rightarrow> fault set" where
  "print_faults args = (if \<exists>a. Va_string a \<in> set args then {Wild, Hang} else {Wild})"

lemma terminated_buffer:
  assumes "0 < cap" "cap \<le> length buf"
  shows "(take cap out @ drop (min cap (length out)) buf)[min (length out) (cap - 1) := NUL]
    = take (cap - 1) out @ [NUL] @ drop (Suc (min (cap - 1) (length out))) buf"
proof -
  obtain c where c: "cap = Suc c"
    using assms(1) by (cases cap) auto
  show ?thesis
  proof (cases "length out \<le> c")
    case True
    then have "length out < length buf"
      using assms(2) c by simp
    with True show ?thesis
      by (simp add: c min_def drop_eq_Cons_nth list_update_append)
  next
    case False
    then have "take (Suc c) out = take c out @ [out ! c]" "length (take c out) = c"
      by (simp_all add: take_Suc_conv_app_nth)
    with False show ?thesis
      by (simp add: c min_def list_update_append)
  qed
qed

lemma finish_emit:
  fixes out
  assumes "cap \<le> length buf"
  defines "fb \<equiv> emit \<lparr>buffer = buf, capacity = cap, bytes_written = 0\<rparr> out"
  shows "bind_res (if capacity fb \<noteq> 0
                      then put_char fb (C_MIN (bytes_written fb) (capacity fb - 1)) NUL else Inr fb)
              (\<lambda>fb'. Inr (buffer fb', sint (of_nat (bytes_written fb') :: 32 word)))
    = Inr (printed buf cap out None)"
proof (cases "cap = 0")
  case True
  then show ?thesis by (simp add: fb_def printed_def emit_def)
next
  case False
  have "min (length out) (cap - 1) < length buf"
    using False assms(1) by simp
  moreover have "buffer fb = take cap out @ drop (min cap (length out)) buf"
    by (simp add: fb_def emit_def)
  moreover have "length (buffer fb) = length buf"
    using assms(1) by (simp add: fb_def sink_ok_def)
  ultimately show ?thesis
    using False terminated_buffer [of cap buf out] assms(1)
    by (simp add: put_char_def printed_def fb_def)
qed

lemma vsnprintf_run:
  assumes "STR_RUNTIME (Ptr f) = Inr fmt" "cap \<le> length buf"
    "vsnprintf_loop (str_size fmt + 1) \<lparr>buffer = buf, capacity = cap, bytes_written = 0\<rparr> fmt args
      = Inr (emit \<lparr>buffer = buf, capacity = cap, bytes_written = 0\<rparr> out, None)"
  shows "vsnprintf buf cap (Ptr f) args = Inr (printed buf cap out None)"
  unfolding vsnprintf_def assms(1,3) bind_res.simps prod.case option.case finish_emit [OF assms(2)] ..

text \<open>
  C11: \<^verbatim>\<open>vsnprintf\<close> never writes outside the first \<^verbatim>\<open>capacity\<close> characters of the buffer, and what it
  writes does not depend on the buffer: for a format and arguments there is one text, of which a
  call with any capacity stores the longest prefix that leaves room for the terminator (always
  written when the capacity is not zero) and returns the full length; an error in the format is
  the same error at any capacity. It always returns, except for a mismatched argument list (a
  fault at every capacity) and for the loop of \<^verbatim>\<open>%pS\<close>.
\<close>

theorem vsnprintf_one_text:
  assumes "NUL \<in> set f" "\<forall>s. Va_string (Some s) \<in> set args \<longrightarrow> wf_str s"
  shows "\<exists>r. (case r of Inl fault \<Rightarrow> fault \<in> print_faults args | Inr _ \<Rightarrow> True) \<and>
    (\<forall>buf cap. cap \<le> length buf \<longrightarrow> vsnprintf buf cap (Ptr f) args =
       (case r of Inl fault \<Rightarrow> Inl fault | Inr (out, e) \<Rightarrow> Inr (printed buf cap out e)))"
proof -
  obtain fmt where fmt: "STR_RUNTIME (Ptr f) = Inr fmt" "wf_str fmt"
    using STR_RUNTIME_eq [OF assms(1)] by blast
  have args: "args_ok (print_faults args) args"
    using assms(2) by (auto simp: args_ok_def print_faults_def)
  obtain r where r: "uniform_by (print_faults args) (\<lambda>_. True) (\<lambda>fb k. (fb, k))
      (\<lambda>fb. vsnprintf_loop (str_size fmt + 1) fb fmt args) r"
    using uniform_loop [OF fmt(2) args, of "str_size fmt + 1"] by (auto simp: uniform_def)
  have "vsnprintf buf cap (Ptr f) args =
      (case r of Inl fault \<Rightarrow> Inl fault | Inr (out, e) \<Rightarrow> Inr (printed buf cap out e))" if "cap \<le> length buf" for buf cap
  proof -
    let ?fb = "\<lparr>buffer = buf, capacity = cap, bytes_written = 0\<rparr>"
    have loop: "vsnprintf_loop (str_size fmt + 1) ?fb fmt args = map_sum id (\<lambda>(out, k). (emit ?fb out, k)) r"
      using r that by (simp add: uniform_by_def sink_ok_def)
    show ?thesis
    proof (cases r)
      case (Inl e)
      with loop fmt show ?thesis by (simp add: vsnprintf_def)
    next
      case (Inr x)
      obtain out e where x: "x = (out, e)" by (cases x)
      show ?thesis
      proof (cases e)
        case None
        with loop Inr x have "vsnprintf_loop (str_size fmt + 1) ?fb fmt args = Inr (emit ?fb out, None)"
          by simp
        from vsnprintf_run [OF fmt(1) that this] Inr x None show ?thesis
          by simp
      next
        case (Some err)
        with loop fmt Inr x show ?thesis
          by (simp add: vsnprintf_def printed_def emit_def)
      qed
    qed
  qed
  moreover have "case r of Inl fault \<Rightarrow> fault \<in> print_faults args | Inr _ \<Rightarrow> True"
    using r by (auto simp: uniform_by_def split: sum.splits)
  ultimately show ?thesis by blast
qed

theorem vsnprintf_one_text_witness:
  "\<exists>out. vsnprintf (replicate 40 NUL) 40 (Ptr (''%d!'' @ [NUL])) [Va_int 5]
      = Inr (printed (replicate 40 NUL) 40 out None)
    \<and> vsnprintf ''....'' 2 (Ptr (''%d!'' @ [NUL])) [Va_int 5] = Inr (printed ''....'' 2 out None)"
proof -
  have run: "vsnprintf (replicate 40 NUL) 40 (Ptr (''%d!'' @ [NUL])) [Va_int 5]
      = Inr (''5!'' @ replicate 38 NUL, 2)"
    by code_simp
  have "NUL \<in> set (''%d!'' @ [NUL])" "\<forall>s. Va_string (Some s) \<in> set [Va_int 5] \<longrightarrow> wf_str s"
    by simp_all
  from vsnprintf_one_text [OF this] obtain r where
    r: "\<And>buf cap. cap \<le> length buf \<Longrightarrow> vsnprintf buf cap (Ptr (''%d!'' @ [NUL])) [Va_int 5] =
       (case r of Inl fault \<Rightarrow> Inl fault | Inr (out, e) \<Rightarrow> Inr (printed buf cap out e))" by blast
  obtain out where "r = Inr (out, None)"
    using r [of 40 "replicate 40 NUL"] errno_code_bounds(1) run
    by (cases r) (auto simp: printed_def split: option.splits)
  with r [of 40 "replicate 40 NUL"] r [of 2 "''....''"] show ?thesis
    by auto
qed

section \<open>Integers\<close>

lemma digit_char_facts:
  assumes "d < 16"
  shows "isxdigit (digit_char u d)" "digit_nat (digit_char u d) = d"
proof -
  have "list_all (\<lambda>u. list_all (\<lambda>d. isxdigit (digit_char u d) \<and> digit_nat (digit_char u d) = d) [0..<16])
      [True, False]"
    by code_simp
  with assms show "isxdigit (digit_char u d)" "digit_nat (digit_char u d) = d"
    by (cases u; simp add: list_all_iff)+
qed

lemma digits_value_append:
  "digits_value b n (xs @ ys) = digits_value b (digits_value b n xs) ys"
  by (simp add: digits_value_def)

lemma digits_msb_bound: "2 \<le> b \<Longrightarrow> d \<in> set (digits_msb b v) \<Longrightarrow> d < b"
proof (induction v rule: less_induct)
  case (less v)
  show ?case
  proof (cases "v = 0")
    case False
    with less.prems have "v div b < v" "d \<in> set (digits_msb b (v div b)) \<or> d = v mod b"
      by (auto simp: digits_msb_step)
    with less.IH [of "v div b"] less.prems(1) show ?thesis by auto
  qed (use less.prems in simp)
qed

lemma digits_value_msb:
  assumes "2 \<le> b" "b \<le> 16"
  shows "digits_value b 0 (map (digit_char u) (digits_msb b v)) = v"
proof (induction v rule: less_induct)
  case (less v)
  show ?case
  proof (cases "v = 0")
    case False
    then have "v div b < v"
      using assms by simp
    moreover have "v mod b < 16"
      using assms mod_less_divisor [of b v] by linarith
    ultimately show ?thesis
      using less.IH [of "v div b"] False assms
      by (simp add: digits_msb_step digits_value_append digit_char_facts)
  qed simp
qed

text \<open>
  C38: \<^verbatim>\<open>write_integer\<close> writes the sign, the padding, the \<^verbatim>\<open>0x\<close> or \<^verbatim>\<open>0\<close> prefix and the digits of the
  magnitude in the base, for any 64-bit value and any flags; the digits denote the magnitude, and
  the 32-byte temporary they are built in never overflows.
\<close>

theorem write_integer_exact:
  assumes "sink_ok fb" "base_ok fm"
  shows "write_integer fb fm v = Inr (emit fb (integer_text fm v))
    \<and> list_all (valid_digit (unat (base fm))) (number_text fm (magnitude fm v))
    \<and> digits_value (unat (base fm)) 0 (number_text fm (magnitude fm v)) = magnitude fm v
    \<and> length (body_text fm v) \<le> REPR_BUFFER_SIZE"
proof -
  have b: "2 \<le> unat (base fm)" "unat (base fm) \<le> 16"
    using assms(2) by (auto simp: base_ok_def)
  have "valid_digit (unat (base fm)) (digit_char (uppercase fm) d)"
    if "d \<in> set (digits_msb (unat (base fm)) (magnitude fm v))" for d
    using digits_msb_bound [OF b(1) that] digit_char_facts [of d] b(2) by (simp add: valid_digit_def)
  with assms b body_text_length(2) [OF assms(2), of v] show ?thesis
    by (simp add: number_text_def digits_value_msb list_all_iff REPR_BUFFER_SIZE_def)
qed

theorem write_integer_exact_witness:
  "\<exists>fm fb. base fm = 10 \<and> is_signed fm \<and> buffer fb = ''......'' \<and>
     write_integer fb fm (- 42) = Inr (emit fb ''-42'')"
proof -
  let ?fm = "initial_spec\<lparr>is_signed := True\<rparr>"
  let ?fb = "\<lparr>buffer = ''......'', capacity = 6, bytes_written = 0\<rparr>"
  have "sink_ok ?fb" "base_ok ?fm"
    by (simp_all add: sink_ok_def base_ok_def initial_spec_def)
  from write_integer_exact [OF this, of "- 42"]
  have "write_integer ?fb ?fm (- 42) = Inr (emit ?fb (integer_text ?fm (- 42)))"
    by simp
  moreover have "integer_text ?fm (- 42) = ''-42''"
    by code_simp
  ultimately have "write_integer ?fb ?fm (- 42) = Inr (emit ?fb ''-42'')"
    by simp
  moreover have "base ?fm = 10"
    by (simp add: initial_spec_def)
  ultimately show ?thesis
    by (intro exI [of _ ?fm] exI [of _ ?fb]) simp
qed

section \<open>Printing and parsing\<close>

lemma str_runtime_literal: "NUL \<notin> set l \<Longrightarrow> STR_RUNTIME (Ptr (l @ [NUL])) = Inr (STR_CONSTEXPR l)"
proof (induction l)
  case (Cons c l)
  then have "strlen (l @ [NUL]) = Inr (length l)"
    using strlen_eq [of "l @ [NUL]"] by (auto simp: takeWhile_append)
  with Cons show ?case by (auto simp: STR_CONSTEXPR_def)
qed (simp add: STR_CONSTEXPR_def)

lemma consume_digits_none:
  assumes "wf_str fmt" "bytes fmt = c # cs" "\<not> isdigit c"
  shows "consume_digits fmt = Inr (fmt, \<lparr>str_text = str_text fmt, str_size = 0\<rparr>)"
proof -
  have "str_text fmt \<noteq> Null"
    using assms(2) by (auto simp: bytes_def)
  with assms show ?thesis
    by (simp add: consume_digits_def consume_digits_loop_eq)
qed

lemmas run_format = vsnprintf_step_def parse_spec_def parse_field_def parse_number_def consume_eq
  consume_one_of_eq write_directive_def int_argument_def int_directive_def str_find_one_eq

lemma step_d:
  assumes "sink_ok fb"
  shows "vsnprintf_step fb (STR_CONSTEXPR ''%d'') [Va_int x]
    = Inr (Continue (emit fb (integer_text (initial_spec\<lparr>is_signed := True\<rparr>) (scast x))) (str_advance (STR_CONSTEXPR ''%d'') 2) [])"
proof -
  let ?f1 = "str_advance (STR_CONSTEXPR ''%d'') (Suc 0)"
  have flags: "parse_flags ?f1 initial_spec = Inr (?f1, initial_spec)"
    by (subst parse_flags.simps) (simp add: consume_one_of_eq)
  have digits: "consume_digits ?f1 = Inr (?f1, \<lparr>str_text = str_text ?f1, str_size = 0\<rparr>)"
    by (rule consume_digits_none) (simp_all, code_simp)
  have base: "base_ok (initial_spec\<lparr>is_signed := True\<rparr>)"
    by (simp add: base_ok_def initial_spec_def)
  show ?thesis
    using assms
    by (simp add: run_format flags digits str_empty_def base numeral_2_eq_2)
qed

text \<open>A pass over the text at the end of a format, and over text up to and with \<^verbatim>\<open>%u\<close>.\<close>

lemma step_text:
  assumes "sink_ok fb" "wf_str fmt" "CHR ''%'' \<notin> set (bytes fmt)" "bytes fmt \<noteq> []"
  shows "vsnprintf_step fb fmt args = Inr (Finished (emit fb (bytes fmt)))"
proof -
  have "str_size fmt \<noteq> 0" using assms(4) by (auto simp: bytes_def)
  then show ?thesis
  using assms by (simp add: vsnprintf_step_def str_find_one_eq str_empty_def write_many_emit wf_str_def flip: bytes_def)
qed

lemma step_u:
  assumes "sink_ok fb" "wf_str fmt" "bytes fmt = lit @ ''%u'' @ rest" "CHR ''%'' \<notin> set lit"
  shows "vsnprintf_step fb fmt (Va_int x # args)
    = Inr (Continue (emit (emit fb lit) (integer_text initial_spec (ucast x))) (str_advance fmt (length lit + 2)) args)"
proof -
  let ?n = "length lit"
  let ?f1 = "str_advance fmt (Suc ?n)"
  have size: "str_size fmt = ?n + 2 + length rest"
    using assms(2) arg_cong [OF assms(3), of length] by simp
  have found: "takeWhile (\<lambda>x. x \<noteq> CHR ''%'') (bytes fmt) = lit"
    using assms(3,4) by (auto simp: takeWhile_append)
  have lit: "take ?n (ptr_chars (str_text fmt)) = lit"
    using assms(3) size by (metis append_eq_conv_conj bytes_def le_add1 take_take min.absorb1 add.assoc)
  have "?n \<le> length (ptr_chars (str_text fmt))"
    using assms(2) size by (simp add: wf_str_def)
  have flags: "parse_flags ?f1 initial_spec = Inr (?f1, initial_spec)"
    using assms by (subst parse_flags.simps) (simp add: consume_one_of_eq)
  have digits: "consume_digits ?f1 = Inr (?f1, \<lparr>str_text = str_text ?f1, str_size = 0\<rparr>)"
    by (rule consume_digits_none) (use assms in \<open>simp_all\<close>, code_simp)
  have base: "base_ok initial_spec"
    by (simp add: base_ok_def initial_spec_def)
  have spec: "initial_spec\<lparr>base := base_from_specifier (CHR ''u''), uppercase := is_uppercase_specifier (CHR ''u'')\<rparr> = initial_spec"
    by code_simp
  have "CHR ''u'' \<noteq> NUL"
    by code_simp
  then show ?thesis
    using assms size found lit \<open>?n \<le> length (ptr_chars (str_text fmt))\<close>
    by (simp add: run_format flags digits str_empty_def base numeral_2_eq_2 write_many_emit Let_def spec)
qed

lemma digits_msb_first:
  assumes "2 \<le> b"
  shows "0 < v \<Longrightarrow> \<exists>k ks. digits_msb b v = k # ks \<and> 0 < k"
proof (induction v rule: less_induct)
  case (less v)
  show ?case
  proof (cases "v div b = 0")
    case True
    with less.prems assms show ?thesis
      by (simp add: digits_msb_step div_eq_0_iff)
  next
    case False
    have "v div b < v"
      using less.prems assms by simp
    with less False assms obtain k ks where "digits_msb b (v div b) = k # ks" "0 < k"
      by blast
    with less.prems assms show ?thesis
      by (simp add: digits_msb_step)
  qed
qed

definition decimal :: "nat \<Rightarrow> char list" where
  "decimal n = (if n = 0 then ''0'' else map (digit_char False) (digits_msb 10 n))"

lemma read_number_decimal:
  assumes "n < 2 ^ 64"
  shows "read_number 10 (decimal n) = Inr n"
proof (cases "n = 0")
  case True
  then show ?thesis
    by (simp add: decimal_def read_number_def split_base_def)
next
  case False
  obtain k ks where k: "digits_msb 10 n = k # ks" "0 < k"
    using digits_msb_first [of 10 n] False by auto
  have lt: "d < 10 \<and> isxdigit (digit_char False d) \<and> digit_nat (digit_char False d) = d"
    if "d \<in> set (digits_msb 10 n)" for d
    using digits_msb_bound [of 10 d n] digit_char_facts [of d False] that by simp
  have "digit_nat (digit_char False k) = k" "k < 10"
    using lt [of k] k(1) by simp_all
  moreover have "digit_nat (CHR ''0'') = 0"
    by code_simp
  ultimately have "digit_char False k \<noteq> CHR ''0''"
    using k(2) by auto
  then have "\<exists>cb. split_base (decimal n) = (cb, decimal n)"
    using k False by (auto simp: split_base_def decimal_def)
  moreover have "read_digits 10 0 (decimal n) = Inr n"
    using False lt digits_value_msb [of 10 False n] assms
    by (subst read_digits_Inr_iff)
      (auto simp: decimal_def valid_digit_def)
  ultimately show ?thesis
    by (auto simp: read_number_def)
qed

lemma integer_text_decimal:
  "integer_text (initial_spec\<lparr>is_signed := True\<rparr>) v = (if sint v < 0 then ''-'' else []) @ decimal (nat \<bar>sint v\<bar>)"
  by (simp add: integer_text_def sign_text_def body_text_def prefix_text_def number_text_def padding_text_def
      magnitude_def decimal_def initial_spec_def)

lemma integer_text_unsigned: "integer_text initial_spec v = decimal (unat v)"
  by (simp add: integer_text_def sign_text_def body_text_def prefix_text_def number_text_def padding_text_def
      magnitude_def decimal_def initial_spec_def)

lemma decimal_length: "length (decimal (unat x)) \<le> 24" for x :: "64 word"
  using body_text_length(2) [of initial_spec x]
  by (simp add: base_ok_def initial_spec_def flip: integer_text_unsigned)
     (simp add: integer_text_def sign_text_def padding_text_def initial_spec_def)

lemma decimal_first: "\<exists>c cs. decimal n = c # cs \<and> isxdigit c"
proof (cases "n = 0")
  case True
  moreover have "isxdigit (CHR ''0'')"
    by code_simp
  ultimately show ?thesis by (simp add: decimal_def)
next
  case False
  obtain k ks where k: "digits_msb 10 n = k # ks" "0 < k"
    using digits_msb_first [of 10 n] False by auto
  with digits_msb_bound [of 10 k n] False show ?thesis
    by (simp add: decimal_def digit_char_facts)
qed

lemma read_signed_decimal:
  assumes "- (2 ^ 63) \<le> v" "v < 2 ^ 63"
  shows "read_signed 10 ((if v < 0 then ''-'' else []) @ decimal (nat \<bar>v\<bar>)) = Inr v"
proof -
  have "nat \<bar>v\<bar> < 2 ^ 64"
    using assms by simp
  note r = read_number_decimal [OF this]
  obtain c cs where c: "decimal (nat \<bar>v\<bar>) = c # cs" "isxdigit c"
    using decimal_first by blast
  have "\<not> isxdigit (CHR ''-'')" "\<not> isxdigit (CHR ''+'')"
    by code_simp+
  with c(2) have "c \<noteq> CHR ''-''" "c \<noteq> CHR ''+''"
    by auto
  with r c(1) assms show ?thesis
    by (auto simp: read_signed_def)
qed

text \<open>
  Printing and parsing are inverse: for every 32-bit integer, \<^verbatim>\<open>%d\<close> into a buffer of 32 characters
  or more stores a terminated text, returns its length, and \<^verbatim>\<open>str_to_i32_with_base\<close> reads the integer
  back from it.
\<close>

theorem print_parse_i32:
  assumes "32 \<le> cap" "cap \<le> length buf"
  shows "\<exists>shown. vsnprintf buf cap (Ptr (''%d'' @ [NUL])) [Va_int x]
      = Inr (shown @ [NUL] @ drop (Suc (length shown)) buf, int (length shown))
    \<and> str_to_i32_with_base (STR_CONSTEXPR shown) 10 = Inr (Inr x)"
proof -
  let ?fm = "initial_spec\<lparr>is_signed := True\<rparr>" and ?v = "scast x :: 64 word"
  let ?fb = "\<lparr>buffer = buf, capacity = cap, bytes_written = 0\<rparr>"
  define shown where "shown = integer_text ?fm ?v"
  have ok: "sink_ok ?fb"
    using assms by (simp add: sink_ok_def)
  have fmt: "STR_RUNTIME (Ptr (''%d'' @ [NUL])) = Inr (STR_CONSTEXPR ''%d'')"
    by (rule str_runtime_literal) code_simp
  have "vsnprintf_loop 3 ?fb (STR_CONSTEXPR ''%d'') [Va_int x] = Inr (emit ?fb shown, None)"
    using step_d [OF ok, of x] by (simp add: numeral_3_eq_3 str_empty_def shown_def)
  then have run: "vsnprintf buf cap (Ptr (''%d'' @ [NUL])) [Va_int x] = Inr (printed buf cap shown None)"
    by (intro vsnprintf_run [OF fmt assms(2)]) (simp add: numeral_3_eq_3 del: vsnprintf_loop.simps)
  have "length (body_text ?fm ?v) \<le> 24" "padding_text ?fm n = []" "length (sign_text ?fm ?v) \<le> 1" for n
    using body_text_length(2) [of ?fm ?v]
    by (simp_all add: base_ok_def initial_spec_def padding_text_def sign_text_def)
  then have len: "length shown \<le> 25"
    by (simp add: shown_def integer_text_def Let_def initial_spec_def)
  have "printed buf cap shown None = (shown @ [NUL] @ drop (Suc (length shown)) buf, int (length shown))"
    using len assms by (simp add: printed_def signed_of_nat signed_take_bit_int_eq_self)
  moreover have "str_to_i32_with_base (STR_CONSTEXPR shown) 10 = Inr (Inr x)"
  proof -
    have "- (2 ^ 31) \<le> sint x" "sint x < 2 ^ 31"
      using sint_greater_eq [of x] sint_less [of x] by simp_all
    then have x: "sint ?v = sint x"
      by (simp add: signed_scast_eq signed_take_bit_int_eq_self)
    have read: "read_signed 10 shown = Inr (sint x)"
      unfolding shown_def integer_text_decimal x
      using \<open>- (2 ^ 31) \<le> sint x\<close> \<open>sint x < 2 ^ 31\<close> by (intro read_signed_decimal) simp_all
    have "str_to_i32_with_base (STR_CONSTEXPR shown) 10 = narrow_signed (Inr (to_i (read_signed 10 shown)))"
      by (simp add: str_to_i32_with_base_def str_to_i64_with_base_eq)
    also have "\<dots> = Inr (to_i (fits (\<lambda>v. - (2 ^ 31) \<le> v \<and> v < 2 ^ 31) (read_signed 10 shown)))"
      using narrow_signed_eq [where ?'a = 32 and r = "read_signed 10 shown", OF _ read_signed_bounds] by simp
    finally show ?thesis
      using \<open>- (2 ^ 31) \<le> sint x\<close> \<open>sint x < 2 ^ 31\<close> read by (simp add: fits_def)
  qed
  ultimately show ?thesis
    using run by auto
qed

theorem print_parse_i32_witness:
  "\<exists>shown. vsnprintf (replicate 32 NUL) 32 (Ptr (''%d'' @ [NUL])) [Va_int (- 7)]
      = Inr (shown @ [NUL] @ drop (Suc (length shown)) (replicate 32 NUL), int (length shown))
    \<and> str_to_i32_with_base (STR_CONSTEXPR shown) 10 = Inr (Inr (- 7))"
  by (rule print_parse_i32) simp_all

section \<open>Findings\<close>

lemma step_pS:
  assumes "sink_ok fb" "wf_str s" "0 \<le> sint prec"
  shows "vsnprintf_step fb (STR_CONSTEXPR ''%.*pS'') [Va_int prec, Va_string (Some s)]
    = (if int (str_size s) < sint prec then Inl Hang
       else Inr (Continue (emit fb (take (nat (sint prec)) (bytes s))) (str_advance (STR_CONSTEXPR ''%.*pS'') 5) []))"
proof -
  let ?f1 = "str_advance (STR_CONSTEXPR ''%.*pS'') (Suc 0)"
  have flags: "parse_flags ?f1 initial_spec = Inr (?f1, initial_spec)"
    by (subst parse_flags.simps) (simp add: consume_one_of_eq)
  have digits: "consume_digits ?f1 = Inr (?f1, \<lparr>str_text = str_text ?f1, str_size = 0\<rparr>)"
    by (rule consume_digits_none) (simp_all, code_simp)
  have "sint (scast prec :: 64 word) = sint prec"
    using sint_greater_eq [of prec] sint_less [of prec] by (simp add: signed_scast_eq signed_take_bit_int_eq_self)
  then have "uint (scast prec :: 64 word) = sint prec"
    using assms(3) sint_less [of prec] by (simp add: uint_sint take_bit_int_eq_self)
  then have prec: "unat (scast prec :: 64 word) = nat (sint prec)"
    by (simp add: unat_eq_nat_uint)
  have "str_size s \<le> length (ptr_chars (str_text s))"
    using assms(2) by (simp add: wf_str_def)
  moreover have "take (nat (sint prec)) (bytes s) = take (nat (sint prec)) (ptr_chars (str_text s))"
    if "\<not> int (str_size s) < sint prec"
    using that by (simp add: bytes_def min_def)
  ultimately show ?thesis
    using assms
    by (simp add: run_format flags digits str_empty_def eval_nat_numeral write_string_def prec Let_def write_many_emit
        pad_string_loop_eq zless_nat_eq_int_zless)
qed

text \<open>
  C40: \<^verbatim>\<open>%.*pS\<close> prints as many characters of the string as the precision says; but with a precision
  larger than the string it never returns, on any buffer: the loop that should pad waits for a size it
  does not change.
\<close>

theorem precise_string_exact:
  assumes "cap \<le> length buf" "wf_str s" "0 \<le> sint prec"
  shows "vsnprintf buf cap (Ptr (''%.*pS'' @ [NUL])) [Va_int prec, Va_string (Some s)]
    = (if int (str_size s) < sint prec then Inl Hang else Inr (printed buf cap (take (nat (sint prec)) (bytes s)) None))"
proof -
  let ?fb = "\<lparr>buffer = buf, capacity = cap, bytes_written = 0\<rparr>"
  have ok: "sink_ok ?fb"
    using assms(1) by (simp add: sink_ok_def)
  have fmt: "STR_RUNTIME (Ptr (''%.*pS'' @ [NUL])) = Inr (STR_CONSTEXPR ''%.*pS'')"
    by (rule str_runtime_literal) code_simp
  have loop: "vsnprintf_loop (str_size (STR_CONSTEXPR ''%.*pS'') + 1) ?fb (STR_CONSTEXPR ''%.*pS'') [Va_int prec, Va_string (Some s)]
      = (if int (str_size s) < sint prec then Inl Hang else Inr (emit ?fb (take (nat (sint prec)) (bytes s)), None))"
    using step_pS [OF ok assms(2,3)] by (simp add: eval_nat_numeral str_empty_def)
  show ?thesis
  proof (cases "int (str_size s) < sint prec")
    case True
    then show ?thesis
      unfolding vsnprintf_def fmt bind_res.simps loop by simp
  next
    case False
    with loop have "vsnprintf_loop (str_size (STR_CONSTEXPR ''%.*pS'') + 1) ?fb (STR_CONSTEXPR ''%.*pS'') [Va_int prec, Va_string (Some s)]
        = Inr (emit ?fb (take (nat (sint prec)) (bytes s)), None)"
      by simp
    from vsnprintf_run [OF fmt assms(1) this] False show ?thesis
      by simp
  qed
qed

theorem precise_string_exact_witness:
  "vsnprintf (replicate 8 NUL) 8 (Ptr (''%.*pS'' @ [NUL])) [Va_int 6, Va_string (Some (STR_CONSTEXPR ''abcd''))] = Inl Hang \<and>
   vsnprintf (replicate 8 NUL) 8 (Ptr (''%.*pS'' @ [NUL])) [Va_int 3, Va_string (Some (STR_CONSTEXPR ''abcd''))]
     = Inr (printed (replicate 8 NUL) 8 ''abc'' None)"
  using precise_string_exact [of 8 "replicate 8 NUL" "STR_CONSTEXPR ''abcd''" 6]
    precise_string_exact [of 8 "replicate 8 NUL" "STR_CONSTEXPR ''abcd''" 3]
  by (simp add: eval_nat_numeral)

text \<open>
  The sign is written before the padding and is not part of the width: \<^verbatim>\<open>%5d\<close> of -1 is a minus
  sign, four blanks and the digit, six characters.
\<close>

lemma sign_not_in_width:
  "vsnprintf (replicate 8 (CHR ''.'')) 8 (Ptr (''%5d'' @ [NUL])) [Va_int (- 1)]
     = Inr (''-    1'' @ [NUL] @ ''.'', 6)"
  by code_simp

end
