(* ===== verification/Param.thy ===== *)
theory Param
  imports Format
begin

text \<open>
  \<^verbatim>\<open>kernel/param.c\<close> and \<^verbatim>\<open>include/param.h\<close>: kernel parameters and the parser of the command line.
  The variable a parameter's \<^verbatim>\<open>void *value\<close> points to is kept with the parameter, as a value of
  the type its operations expect. A call of the \<^verbatim>\<open>unknown_cb\<close> callback and a \<^verbatim>\<open>pr_err\<close> message are
  entries of a trace. \<open>ParamTheorems\<close> proves what the parser does.
\<close>

section \<open>Parameters and their operations\<close>

datatype param_value =
    Val_i8 "8 word" | Val_u8 "8 word"
  | Val_i16 "16 word" | Val_u16 "16 word"
  | Val_i32 "32 word" | Val_u32 "32 word"
  | Val_i64 "64 word" | Val_u64 "64 word"
  | Val_bool bool
  | Val_string cstring

text \<open>\<open>op_get\<close> takes the memory at \<^verbatim>\<open>mutable_text\<close> and the size of the destination string, and
  returns that memory, the new size, and the number of bytes of the text.\<close>

record param_ops =
  allows_empty_value :: bool
  op_set :: "cstring \<Rightarrow> (errno + param_value) res"
  op_get :: "param_value \<Rightarrow> char list \<Rightarrow> nat \<Rightarrow> (char list \<times> nat \<times> nat) res"

record param =
  p_name :: cstring
  p_ops :: param_ops
  p_value :: param_value

text \<open>The name of a parameter is that of its variable, without a \<^verbatim>\<open>g_\<close> in front.\<close>

definition PARAM_NAME :: "char list \<Rightarrow> cstring" where
  "PARAM_NAME name =
     (if take 2 name = ''g_'' then \<lparr>str_text = Ptr (drop 2 (name @ [NUL])), str_size = length name + 1 - 3\<rparr>
      else STR_CONSTEXPR name)"

definition custom_parameter :: "char list \<Rightarrow> param_value \<Rightarrow> param_ops \<Rightarrow> param" where
  "custom_parameter name value ops = \<lparr>p_name = PARAM_NAME name, p_ops = ops, p_value = value\<rparr>"

lemma PARAM_NAME_text: "bytes (PARAM_NAME name) = (if take 2 name = ''g_'' then drop 2 name else name)"
proof (cases "take 2 name = ''g_''")
  case True
  then have "name = ''g_'' @ drop 2 name"
    by (metis append_take_drop_id)
  then obtain rest where "name = ''g_'' @ rest"
    by blast
  then show ?thesis
    by (simp add: PARAM_NAME_def bytes_def)
qed (simp add: PARAM_NAME_def)

text \<open>\<^verbatim>\<open>PARAM_SET_OPS_TEMPLATE\<close>: \<^verbatim>\<open>str_to_<type>\<close> is \<^verbatim>\<open>str_to_<type>_with_base\<close> with base 0.\<close>

definition PARAM_SET_OPS_TEMPLATE ::
  "(cstring \<Rightarrow> 32 word \<Rightarrow> (errno + 'a) res) \<Rightarrow> ('a \<Rightarrow> param_value) \<Rightarrow> cstring \<Rightarrow> (errno + param_value) res"
where
  "PARAM_SET_OPS_TEMPLATE parse wrap str = bind_res (parse str 0) (\<lambda>ret. Inr (map_sum id wrap ret))"

text \<open>\<^verbatim>\<open>PARAM_GET_OPS_TEMPLATE\<close>, given the promoted argument; a value of another type is \<open>None\<close>.\<close>

definition PARAM_GET_OPS_TEMPLATE ::
  "char list \<Rightarrow> (param_value \<Rightarrow> va_arg option) \<Rightarrow> param_value \<Rightarrow> char list \<Rightarrow> nat \<Rightarrow> (char list \<times> nat \<times> nat) res"
where
  "PARAM_GET_OPS_TEMPLATE fmt promote value mutable_text dst_size =
     (case promote value of
        None \<Rightarrow> Inl Wild
      | Some arg \<Rightarrow>
          bind_res (snprintf mutable_text dst_size (Ptr (fmt @ [NUL])) [arg]) (\<lambda>(buf, ret).
            let bytes = unat (word_of_int ret :: 64 word)
            in Inr (buf, C_MIN bytes dst_size, bytes)))"

fun promote_i8 :: "param_value \<Rightarrow> va_arg option" where
  "promote_i8 (Val_i8 v) = Some (Va_int (scast v))" | "promote_i8 _ = None"
fun promote_u8 :: "param_value \<Rightarrow> va_arg option" where
  "promote_u8 (Val_u8 v) = Some (Va_int (ucast v))" | "promote_u8 _ = None"
fun promote_i16 :: "param_value \<Rightarrow> va_arg option" where
  "promote_i16 (Val_i16 v) = Some (Va_int (scast v))" | "promote_i16 _ = None"
fun promote_u16 :: "param_value \<Rightarrow> va_arg option" where
  "promote_u16 (Val_u16 v) = Some (Va_int (ucast v))" | "promote_u16 _ = None"
fun promote_i32 :: "param_value \<Rightarrow> va_arg option" where
  "promote_i32 (Val_i32 v) = Some (Va_int v)" | "promote_i32 _ = None"
fun promote_u32 :: "param_value \<Rightarrow> va_arg option" where
  "promote_u32 (Val_u32 v) = Some (Va_int v)" | "promote_u32 _ = None"
fun promote_i64 :: "param_value \<Rightarrow> va_arg option" where
  "promote_i64 (Val_i64 v) = Some (Va_long v)" | "promote_i64 _ = None"
fun promote_u64 :: "param_value \<Rightarrow> va_arg option" where
  "promote_u64 (Val_u64 v) = Some (Va_long v)" | "promote_u64 _ = None"
fun promote_bool :: "param_value \<Rightarrow> va_arg option" where
  "promote_bool (Val_bool v) = Some (Va_int (if v then 1 else 0))" | "promote_bool _ = None"

definition MAKE_PARAM_OPS_WITH_FMT ::
  "(cstring \<Rightarrow> 32 word \<Rightarrow> (errno + 'a) res) \<Rightarrow> ('a \<Rightarrow> param_value) \<Rightarrow> char list \<Rightarrow>
   (param_value \<Rightarrow> va_arg option) \<Rightarrow> param_ops"
where
  "MAKE_PARAM_OPS_WITH_FMT parse wrap fmt promote =
     \<lparr>allows_empty_value = False, op_set = PARAM_SET_OPS_TEMPLATE parse wrap,
      op_get = PARAM_GET_OPS_TEMPLATE fmt promote\<rparr>"

definition g_param_i8_ops :: param_ops where
  "g_param_i8_ops = MAKE_PARAM_OPS_WITH_FMT str_to_i8_with_base Val_i8 ''%d'' promote_i8"
definition g_param_u8_ops :: param_ops where
  "g_param_u8_ops = MAKE_PARAM_OPS_WITH_FMT str_to_u8_with_base Val_u8 ''%u'' promote_u8"
definition g_param_i16_ops :: param_ops where
  "g_param_i16_ops = MAKE_PARAM_OPS_WITH_FMT str_to_i16_with_base Val_i16 ''%d'' promote_i16"
definition g_param_u16_ops :: param_ops where
  "g_param_u16_ops = MAKE_PARAM_OPS_WITH_FMT str_to_u16_with_base Val_u16 ''%u'' promote_u16"
definition g_param_i32_ops :: param_ops where
  "g_param_i32_ops = MAKE_PARAM_OPS_WITH_FMT str_to_i32_with_base Val_i32 ''%d'' promote_i32"
definition g_param_u32_ops :: param_ops where
  "g_param_u32_ops = MAKE_PARAM_OPS_WITH_FMT str_to_u32_with_base Val_u32 ''%u'' promote_u32"
definition g_param_i64_ops :: param_ops where
  "g_param_i64_ops = MAKE_PARAM_OPS_WITH_FMT str_to_i64_with_base Val_i64 ''%lld'' promote_i64"
definition g_param_u64_ops :: param_ops where
  "g_param_u64_ops = MAKE_PARAM_OPS_WITH_FMT str_to_u64_with_base Val_u64 ''%llu'' promote_u64"

definition param_set_bool :: "cstring \<Rightarrow> (errno + param_value) res" where
  "param_set_bool str =
     (if str_empty str then Inr (Inr (Val_bool True))
      else bind_res (str_to_bool str) (\<lambda>ret. Inr (map_sum id Val_bool ret)))"

definition g_param_bool_ops :: param_ops where
  "g_param_bool_ops =
     \<lparr>allows_empty_value = True, op_set = param_set_bool, op_get = PARAM_GET_OPS_TEMPLATE ''%d'' promote_bool\<rparr>"

definition param_set_string :: "cstring \<Rightarrow> (errno + param_value) res" where
  "param_set_string str = Inr (Inr (Val_string str))"

fun param_get_string :: "param_value \<Rightarrow> char list \<Rightarrow> nat \<Rightarrow> (char list \<times> nat \<times> nat) res" where
  "param_get_string (Val_string src) mutable_text dst_size =
     (let n = C_MIN (str_size src) dst_size
      in if length (ptr_chars (str_text src)) < n \<or> length mutable_text < n then Inl Wild
         else let copied = take n (ptr_chars (str_text src)) @ drop n mutable_text
              in if str_size src < dst_size
                 then (if str_size src < length copied
                       then Inr (copied[str_size src := NUL], n, str_size src) else Inl Wild)
                 else Inr (copied, n, str_size src))"
| "param_get_string _ mutable_text dst_size = Inl Wild"

definition g_param_string_ops :: param_ops where
  "g_param_string_ops =
     \<lparr>allows_empty_value = False, op_set = param_set_string, op_get = param_get_string\<rparr>"

section \<open>Looking a parameter up\<close>

definition dash_to_underscore :: "char \<Rightarrow> char" where
  "dash_to_underscore c = (if c = CHR ''-'' then CHR ''_'' else c)"

definition cmdline_name_compare :: "char \<Rightarrow> char \<Rightarrow> bool" where
  "cmdline_name_compare lhs rhs \<longleftrightarrow> dash_to_underscore lhs = dash_to_underscore rhs"

text \<open>The index of the first parameter with the name.\<close>

fun find_param :: "cstring \<Rightarrow> param list \<Rightarrow> nat option res" where
  "find_param name [] = Inr None"
| "find_param name (p # ps) =
     bind_res (str_equals_with_cb (p_name p) name cmdline_name_compare) (\<lambda>eq.
       if eq then Inr (Some 0)
       else bind_res (find_param name ps) (\<lambda>i. Inr (map_option Suc i)))"

section \<open>The command line\<close>

function cmdline_trim :: "cstring \<Rightarrow> cstring res" where
  "cmdline_trim cmdline =
     (if str_empty cmdline then Inr cmdline
      else bind_res (char_at cmdline 0) (\<lambda>c.
             if \<not> isspace c then Inr cmdline
             else bind_res (str_offset_by cmdline 1) cmdline_trim))"
  by pat_completeness auto
termination
  by (relation "measure str_size") (auto simp: str_empty_def str_offset_by_def BUG_ON_def split: if_splits)

declare cmdline_trim.simps [simp del]

definition match_whitespace :: "cstring \<Rightarrow> bool res" where
  "match_whitespace str = bind_res (char_at str 0) (\<lambda>c. Inr (isspace c))"

text \<open>The value after the \<^verbatim>\<open>=\<close> at the front of \<^verbatim>\<open>cmdline\<close>, and what follows it.\<close>

definition parse_value :: "cstring \<Rightarrow> (cstring \<times> cstring) res" where
  "parse_value cmdline =
     bind_res (str_offset_by cmdline 1) (\<lambda>c1.
     bind_res (if str_empty c1 then Inr False
               else bind_res (char_at c1 0) (\<lambda>c. Inr (c = CHR ''\"''))) (\<lambda>quoted.
     bind_res (if quoted
               then bind_res (str_offset_by c1 1) (\<lambda>c2.
                    bind_res (str_find_one c2 (CHR ''\"'') 0) (\<lambda>e. Inr (c2, e)))
               else bind_res (str_find_with_cb c1 match_whitespace 0) (\<lambda>e. Inr (c1, e))) (\<lambda>(c3, e).
       let value_end = (if e = - 1 then str_size c3 else nat e)
       in bind_res (str_substring c3 0 value_end) (\<lambda>value.
          bind_res (str_offset_by c3 value_end) (\<lambda>c4. Inr (value, c4))))))"

text \<open>The inner loop: \<open>Init_Args\<close> is the return at \<^verbatim>\<open>--\<close>, \<open>Key_Value\<close> a key, its value and the rest.\<close>

datatype key_end = Init_Args cstring | Key_Value cstring cstring cstring

function parse_key :: "cstring \<Rightarrow> cstring \<Rightarrow> key_end res" where
  "parse_key cmdline key =
     (if str_empty cmdline then Inr (Key_Value key str_clear cmdline)
      else bind_res (str_starts_with cmdline (STR_CONSTEXPR ''--'')) (\<lambda>dashes.
        if dashes
        then bind_res (str_offset_by cmdline 2) (\<lambda>c1. bind_res (cmdline_trim c1) (\<lambda>c2. Inr (Init_Args c2)))
        else bind_res (char_at cmdline 0) (\<lambda>c.
          if isspace c
          then bind_res (cmdline_trim cmdline) (\<lambda>c1. Inr (Key_Value key str_clear c1))
          else if c = CHR ''=''
          then bind_res (parse_value cmdline) (\<lambda>(value, c1). Inr (Key_Value key value c1))
          else bind_res (str_extend_by key 1) (\<lambda>key'.
               bind_res (str_offset_by cmdline 1) (\<lambda>c1. parse_key c1 key')))))"
  by pat_completeness auto
termination
  by (relation "measure (\<lambda>(cmdline, key). str_size cmdline)")
    (auto simp: str_empty_def str_offset_by_def BUG_ON_def split: if_splits)

declare parse_key.simps [simp del]

datatype cmdline_event = Unknown_Param cstring cstring | Bad_Value cstring cstring errno

text \<open>What the body of the outer loop does with a key and its value: \<open>has_cb\<close> is whether
  \<^verbatim>\<open>unknown_cb\<close> is given.\<close>

definition process_param ::
  "bool \<Rightarrow> cstring \<times> cstring \<Rightarrow> param list \<times> cmdline_event list \<Rightarrow> (param list \<times> cmdline_event list) res" where
  "process_param has_cb kv st = (case kv of (key, value) \<Rightarrow> case st of (params, events) \<Rightarrow>
     bind_res (find_param key params) (\<lambda>found. case found of
       None \<Rightarrow> Inr (params, if has_cb then events @ [Unknown_Param key value] else events)
     | Some i \<Rightarrow>
         let p = params ! i
         in bind_res (if \<not> str_empty value \<or> allows_empty_value (p_ops p)
                      then op_set (p_ops p) value else Inr (Inl EINVAL)) (\<lambda>ret. case ret of
              Inl e \<Rightarrow> Inr (params, events @ [Bad_Value key value e])
            | Inr v \<Rightarrow> Inr (params[i := p\<lparr>p_value := v\<rparr>], events))))"

text \<open>The outer loop; each round consumes at least the key, so \<open>str_size cmdline + 1\<close> rounds are
  enough.\<close>

fun cmdline_loop ::
  "nat \<Rightarrow> bool \<Rightarrow> cstring \<Rightarrow> param list \<times> cmdline_event list \<Rightarrow> (cstring \<times> param list \<times> cmdline_event list) res"
where
  "cmdline_loop 0 has_cb cmdline st = Inl Hang"
| "cmdline_loop (Suc fuel) has_cb cmdline st =
     bind_res (parse_key cmdline \<lparr>str_text = str_text cmdline, str_size = 0\<rparr>) (\<lambda>r. case r of
       Init_Args rest \<Rightarrow> Inr (rest, st)
     | Key_Value key value rest \<Rightarrow>
         if str_empty key then Inr (rest, st)
         else bind_res (process_param has_cb (key, value) st) (\<lambda>st'.
              bind_res (cmdline_trim rest) (\<lambda>rest'. cmdline_loop fuel has_cb rest' st')))"

definition cmdline_parse ::
  "cstring \<Rightarrow> param list \<Rightarrow> bool \<Rightarrow> (cstring \<times> param list \<times> cmdline_event list) res" where
  "cmdline_parse cmdline params has_cb =
     bind_res (cmdline_trim cmdline) (\<lambda>c. cmdline_loop (str_size c + 1) has_cb c (params, []))"

end
