(* ===== verification/ParamTheorems.thy ===== *)
theory ParamTheorems
  imports Param FormatTheorems
begin

text \<open>
  The command line against a reference tokeniser: \<open>tokens\<close> splits a text into its parameters and
  what is left for init, \<open>assign\<close> gives one parameter its value. \<open>cmdline_loop_eq\<close> shows that the
  loops of \<^verbatim>\<open>kernel/param.c\<close> compute the fold of \<open>assign\<close> over \<open>tokens\<close>, for parameters with the
  operations of \<^verbatim>\<open>param.h\<close>; \<open>op_set_read_kind\<close> says what each of those accepts.
\<close>

section \<open>A reference tokeniser\<close>

definition trim :: "char list \<Rightarrow> char list" where
  "trim = dropWhile isspace"

fun split_key :: "char list \<Rightarrow> char list \<times> char list" where
  "split_key [] = ([], [])"
| "split_key (c # cs) =
     (if prefix ''--'' (c # cs) \<or> isspace c \<or> c = CHR ''='' then ([], c # cs)
      else (c # fst (split_key cs), snd (split_key cs)))"

definition split_value :: "char list \<Rightarrow> char list \<times> char list" where
  "split_value xs =
     (if xs \<noteq> [] \<and> hd xs = CHR ''\"''
      then (takeWhile (\<lambda>c. c \<noteq> CHR ''\"'') (tl xs), dropWhile (\<lambda>c. c \<noteq> CHR ''\"'') (tl xs))
      else (takeWhile (\<lambda>c. \<not> isspace c) xs, dropWhile (\<lambda>c. \<not> isspace c) xs))"

datatype token = Stop "char list" | Pair "char list" "char list" "char list"

definition next_token :: "char list \<Rightarrow> token" where
  "next_token xs = (case split_key xs of (key, after) \<Rightarrow>
     if prefix ''--'' after then Stop (trim (drop 2 after))
     else if after \<noteq> [] \<and> hd after = CHR ''='' then
       (if key = [] then Stop (snd (split_value (tl after)))
        else Pair key (fst (split_value (tl after))) (trim (snd (split_value (tl after)))))
     else if key = [] then Stop (trim after) else Pair key [] (trim after))"

lemma length_trim [simp]: "length (trim xs) \<le> length xs"
  by (simp add: trim_def length_dropWhile_le)

lemma split_key_append: "fst (split_key xs) @ snd (split_key xs) = xs"
  by (induction xs) auto

lemma length_split_key: "length (fst (split_key xs)) + length (snd (split_key xs)) = length xs"
  by (metis length_append split_key_append)

lemma length_split_value: "length (snd (split_value xs)) \<le> length xs"
  by (auto simp: split_value_def length_dropWhile_le intro: order.trans [OF length_dropWhile_le])

lemma length_next_token: "next_token xs = Pair key value rest \<Longrightarrow> length rest < length xs"
  using length_split_key [of xs] length_split_value [of "tl (snd (split_key xs))"]
    length_trim [of "snd (split_key xs)"] length_trim [of "snd (split_value (tl (snd (split_key xs))))"]
  by (cases "split_key xs")
     (auto simp: next_token_def neq_Nil_conv simp del: length_trim split: if_splits)

function tokens :: "char list \<Rightarrow> (char list \<times> char list) list \<times> char list" where
  "tokens xs = (case next_token xs of
     Stop rest \<Rightarrow> ([], rest)
   | Pair key value rest \<Rightarrow> ((key, value) # fst (tokens rest), snd (tokens rest)))"
  by pat_completeness auto
termination
  by (relation "measure length") (auto dest: length_next_token)

declare tokens.simps [simp del]

section \<open>The code's scanners compute it\<close>

lemma cmdline_trim_eq:
  "wf_str s \<Longrightarrow> \<exists>n \<le> str_size s. cmdline_trim s = Inr (str_advance s n) \<and> drop n (bytes s) = trim (bytes s)"
proof (induction s rule: cmdline_trim.induct)
  case (1 s)
  show ?case
  proof (cases "bytes s")
    case Nil
    with 1 show ?thesis
      by (subst cmdline_trim.simps) (auto simp: str_empty_iff trim_def intro: exI [where x = 0])
  next
    case (Cons c cs)
    with \<open>wf_str s\<close> have sz: "1 \<le> str_size s" "\<not> str_empty s" "char_at s 0 = Inr c"
      by (auto simp: str_empty_iff size_eq_length simp del: length_bytes)
    show ?thesis
    proof (cases "isspace c")
      case False
      with 1 Cons sz show ?thesis
        by (subst cmdline_trim.simps) (auto simp: trim_def intro: exI [where x = 0])
    next
      case True
      then have "\<not> \<not> isspace c" by simp
      from "1.IH" [OF sz(2,3) this str_offset_by_eq [OF sz(1)] wf_str_advance [OF \<open>wf_str s\<close>]]
      obtain n where n: "n \<le> str_size (str_advance s 1)"
        "cmdline_trim (str_advance s 1) = Inr (str_advance (str_advance s 1) n)"
        "drop n (bytes (str_advance s 1)) = trim (bytes (str_advance s 1))"
        by (elim exE conjE)
      have "cmdline_trim s = cmdline_trim (str_advance s 1)"
        using True sz by (subst cmdline_trim.simps) simp
      moreover have "cmdline_trim (str_advance s 1) = Inr (str_advance s (Suc n))" "Suc n \<le> str_size s"
        using n(1,2) sz(1) by simp_all
      moreover have "drop (Suc n) (bytes s) = trim (bytes s)"
        using n(3) True Cons by (simp add: trim_def)
      ultimately show ?thesis by auto
    qed
  qed
qed

lemma wf_str_take: "wf_str s \<Longrightarrow> n \<le> str_size s \<Longrightarrow> wf_str (s\<lparr>str_size := n\<rparr>)"
  by (simp add: wf_str_def)

lemma bytes_take: "n \<le> str_size s \<Longrightarrow> bytes (s\<lparr>str_size := n\<rparr>) = take n (bytes s)"
  by (simp add: bytes_def min_absorb1)

lemma str_substring_eq:
  "n \<le> str_size s \<Longrightarrow> str_substring s 0 n = Inr (s\<lparr>str_size := n\<rparr>)"
  by (cases s; cases "str_text s") (simp_all add: str_substring_def BUG_ON_def)

text \<open>The end of a value: the first character with \<open>P\<close>, or the end of the text.\<close>

lemma length_takeWhile_least:
  assumes "least_from (\<lambda>j. j < length xs \<and> P (xs ! j)) 0 e"
  shows "(if e = - 1 then length xs else nat e) = length (takeWhile (\<lambda>c. \<not> P c) xs)"
proof (cases "\<exists>j. j < length xs \<and> P (xs ! j)")
  case True
  with assms obtain j where j: "e = int j" "j < length xs" "P (xs ! j)" "\<forall>k<j. \<not> P (xs ! k)"
    by (auto simp: least_from_def)
  then have "takeWhile (\<lambda>c. \<not> P c) xs = take j xs"
    by (intro takeWhile_eq_take_P_nth) auto
  with j show ?thesis by simp
next
  case False
  then have all: "takeWhile (\<lambda>c. \<not> P c) xs = xs"
    by (auto simp: takeWhile_eq_all_conv in_set_conv_nth)
  from False assms have "e = - 1"
    by (auto simp: least_from_def)
  then show ?thesis
    unfolding all by simp
qed

lemma takeWhile_not_in: "c \<notin> set xs \<Longrightarrow> takeWhile (\<lambda>x. x \<noteq> c) xs = xs"
  by (induction xs) auto

lemma quote_end:
  "(if (if c \<in> set xs then int (length (takeWhile (\<lambda>x. x \<noteq> c) xs)) else - 1) = - 1 then length xs
    else nat (if c \<in> set xs then int (length (takeWhile (\<lambda>x. x \<noteq> c) xs)) else - 1))
   = length (takeWhile (\<lambda>x. x \<noteq> c) xs)"
  by (cases "c \<in> set xs") (simp_all add: takeWhile_not_in)

lemma take_length_takeWhile: "take (length (takeWhile P xs)) xs = takeWhile P xs"
  and drop_length_takeWhile: "drop (length (takeWhile P xs)) xs = dropWhile P xs"
  by (induction xs) auto

lemma parse_value_eq:
  assumes "wf_str s" "bytes s = CHR ''='' # xs"
  shows "\<exists>value n. parse_value s = Inr (value, str_advance s n) \<and> 0 < n \<and> n \<le> str_size s \<and> wf_str value \<and>
    bytes value = fst (split_value xs) \<and> drop n (bytes s) = snd (split_value xs)"
proof -
  define c1 where "c1 = str_advance s 1"
  from assms have c1: "wf_str c1" "bytes c1 = xs" "str_offset_by s 1 = Inr c1" "str_size c1 = length xs" "str_size s = Suc (length xs)"
    by (auto simp: c1_def size_eq_length simp del: length_bytes)
  show ?thesis
  proof (cases "xs \<noteq> [] \<and> hd xs = CHR ''\"''")
    case True
    then obtain ys where ys: "xs = CHR ''\"'' # ys" by (cases xs) auto
    define c2 where "c2 = str_advance s 2"
    define n where "n = length (takeWhile (\<lambda>x. x \<noteq> CHR ''\"'') ys)"
    have c2: "wf_str c2" "bytes c2 = ys" "str_offset_by c1 1 = Inr c2" "str_size c2 = length ys"
      using assms c1 ys by (auto simp: c2_def c1_def numeral_2_eq_2)
    have n: "n \<le> length ys" by (simp add: n_def length_takeWhile_le)
    have "parse_value s = Inr (c2\<lparr>str_size := n\<rparr>, str_advance c2 n)"
      using c1 c2 ys n quote_end [of "CHR ''\"''" ys]
      by (cases "CHR ''\"'' \<in> set ys")
         (simp_all add: parse_value_def str_empty_iff str_find_one_eq Let_def n_def str_substring_eq takeWhile_not_in)
    moreover have "drop (2 + n) (bytes s) = dropWhile (\<lambda>x. x \<noteq> CHR ''\"'') ys"
      using assms ys by (simp add: n_def drop_length_takeWhile)
    ultimately show ?thesis
      using c2 ys n c1 True
      by (intro exI [of _ "c2\<lparr>str_size := n\<rparr>"] exI [of _ "2 + n"])
         (simp add: wf_str_take bytes_take split_value_def c2_def n_def take_length_takeWhile)
  next
    case False
    obtain e where e: "str_find_with_cb c1 match_whitespace 0 = Inr e"
      "least_from (\<lambda>j. j < length xs \<and> isspace (hd (drop j xs))) 0 e"
      using str_find_with_cb_eq [of match_whitespace "\<lambda>t. isspace (hd t)" c1 0] c1
      by (auto simp: match_whitespace_def size_eq_length hd_conv_nth simp del: length_bytes)
    define n where "n = length (takeWhile (\<lambda>c. \<not> isspace c) xs)"
    have n: "n \<le> length xs" by (simp add: n_def length_takeWhile_le)
    have "least_from (\<lambda>j. j < length xs \<and> isspace (xs ! j)) 0 e"
      using e(2) by (simp add: hd_drop_conv_nth cong: conj_cong)
    then have stop0: "(if e = - 1 then str_size c1 else nat e) = n"
      unfolding n_def c1(4) by (rule length_takeWhile_least)
    from stop0 have stop: "e = - 1 \<Longrightarrow> str_size c1 = n" "e \<noteq> - 1 \<Longrightarrow> nat e = n" by auto
    have "parse_value s = Inr (c1\<lparr>str_size := n\<rparr>, str_advance c1 n)"
    proof (cases xs)
      case Nil
      with c1 e(1) n stop show ?thesis
        by (cases "e = - 1") (simp_all add: parse_value_def str_empty_iff Let_def str_substring_eq)
    next
      case (Cons x ys)
      with c1 False have "char_at c1 0 = Inr x" "x \<noteq> CHR ''\"''" "\<not> str_empty c1"
        by (auto simp: str_empty_iff)
      with c1 e(1) n stop show ?thesis
        by (cases "e = - 1") (simp_all add: parse_value_def Let_def str_substring_eq)
    qed
    moreover have "drop (1 + n) (bytes s) = dropWhile (\<lambda>x. \<not> isspace x) xs"
      using assms by (simp add: n_def drop_length_takeWhile)
    ultimately show ?thesis
      using c1 n False
      by (intro exI [of _ "c1\<lparr>str_size := n\<rparr>"] exI [of _ "1 + n"])
         (auto simp: wf_str_take bytes_take split_value_def c1_def n_def take_length_takeWhile)
  qed
qed

text \<open>Both, from position \<open>m\<close> of a string.\<close>

lemma cmdline_trim_from:
  assumes "wf_str s" "m \<le> str_size s"
  obtains n where "m \<le> n" "n \<le> str_size s" "cmdline_trim (str_advance s m) = Inr (str_advance s n)"
    "drop n (bytes s) = trim (drop m (bytes s))"
proof -
  obtain k where "k \<le> str_size (str_advance s m)"
    "cmdline_trim (str_advance s m) = Inr (str_advance (str_advance s m) k)"
    "drop k (bytes (str_advance s m)) = trim (bytes (str_advance s m))"
    using cmdline_trim_eq [OF wf_str_advance [OF assms(1)]] by blast
  with assms that [of "m + k"] show ?thesis
    by (simp add: add.commute)
qed

lemma parse_value_from:
  assumes "wf_str s" "m \<le> str_size s" "drop m (bytes s) = CHR ''='' # xs"
  obtains v n where "m < n" "n \<le> str_size s" "parse_value (str_advance s m) = Inr (v, str_advance s n)"
    "wf_str v" "bytes v = fst (split_value xs)" "drop n (bytes s) = snd (split_value xs)"
proof -
  obtain k v where "0 < k" "k \<le> str_size (str_advance s m)" "wf_str v"
    "parse_value (str_advance s m) = Inr (v, str_advance (str_advance s m) k)"
    "bytes v = fst (split_value xs)" "drop k (bytes (str_advance s m)) = snd (split_value xs)"
    using parse_value_eq [OF wf_str_advance [OF assms(1)], of m xs] assms(3) by auto
  with assms(1,2) that [of "m + k" v] show ?thesis
    by (simp add: add.commute)
qed

lemma wf_str_clear [simp]: "wf_str str_clear"
  and bytes_str_clear [simp]: "bytes str_clear = []"
  by (simp_all add: str_clear_def wf_str_def bytes_def)

text \<open>What one round of the inner loop returns, for the split \<open>(key, after)\<close> of what is left.\<close>

definition parsed_key :: "cstring \<Rightarrow> nat \<Rightarrow> char list \<times> char list \<Rightarrow> key_end \<Rightarrow> bool" where
  "parsed_key s m split r = (case split of (key, after) \<Rightarrow>
     if prefix ''--'' after
     then \<exists>n. r = Init_Args (str_advance s n) \<and> drop n (bytes s) = trim (drop 2 after)
     else \<exists>value n. r = Key_Value (s\<lparr>str_size := m + length key\<rparr>) value (str_advance s n) \<and> wf_str value \<and>
       m + length key \<le> n \<and> n \<le> str_size s \<and>
       (if after \<noteq> [] \<and> hd after = CHR ''=''
        then bytes value = fst (split_value (tl after)) \<and> drop n (bytes s) = snd (split_value (tl after))
        else bytes value = [] \<and> drop n (bytes s) = trim after))"

lemma parse_key_eq:
  assumes "wf_str s" "m \<le> str_size s"
  shows "\<exists>r. parse_key (str_advance s m) (s\<lparr>str_size := m\<rparr>) = Inr r \<and>
    parsed_key s m (split_key (drop m (bytes s))) r"
  using assms
proof (induction "str_size s - m" arbitrary: m)
  case 0
  then have "m = str_size s" "drop m (bytes s) = []" by auto
  then show ?case
    by (subst parse_key.simps) (auto simp: str_empty_def parsed_key_def trim_def)
next
  case (Suc l)
  then obtain c cs where cs: "drop m (bytes s) = c # cs" and l: "l = str_size s - Suc m" "Suc m \<le> str_size s"
    by (cases "drop m (bytes s)") auto
  let ?c = "str_advance s m"
  have c: "wf_str ?c" "bytes ?c = c # cs" "\<not> str_empty ?c" "char_at ?c 0 = Inr c"
    "str_size ?c = Suc (length cs)"
    using Suc.prems cs l length_drop [of m "bytes s"] by (auto simp: str_empty_def)
  have next_: "drop (Suc m) (bytes s) = cs"
    using cs by (metis drop_Suc list.sel(3) tl_drop)
  have nonnull: "str_text s \<noteq> Null"
    using Suc.prems l by (auto simp: wf_str_def)
  consider (stop) "prefix ''--'' (c # cs)" | (space) "\<not> prefix ''--'' (c # cs)" "isspace c"
    | (eq) "\<not> prefix ''--'' (c # cs)" "\<not> isspace c" "c = CHR ''=''"
    | (more) "\<not> prefix ''--'' (c # cs)" "\<not> isspace c" "c \<noteq> CHR ''=''"
    by blast
  then show ?case
  proof cases
    case stop
    then obtain ds where ds: "c = CHR ''-''" "cs = CHR ''-'' # ds" by (auto simp: prefix_def)
    with c have m2: "m + 2 \<le> str_size s"
      using Suc.prems by simp
    then obtain n where "cmdline_trim (str_advance s (m + 2)) = Inr (str_advance s n)"
      "drop n (bytes s) = trim (drop (m + 2) (bytes s))"
      using cmdline_trim_from [OF Suc.prems(1)] by blast
    moreover have "drop (m + 2) (bytes s) = drop 2 (c # cs)"
      using cs by (metis add.commute drop_drop)
    moreover have "str_offset_by ?c 2 = Inr (str_advance s (m + 2))"
      using c ds by simp
    ultimately show ?thesis
      using stop c cs by (subst parse_key.simps) (auto simp: parsed_key_def)
  next
    case space
    obtain n where "m \<le> n" "n \<le> str_size s" "cmdline_trim ?c = Inr (str_advance s n)" "drop n (bytes s) = trim (c # cs)"
      using cmdline_trim_from [OF Suc.prems] cs by metis
    moreover from space have "c \<noteq> CHR ''=''" by (auto simp: isspace_iff)
    ultimately show ?thesis
      using space c cs
      by (subst parse_key.simps) (auto simp: parsed_key_def)
  next
    case eq
    then obtain v n where "parse_value ?c = Inr (v, str_advance s n)" "wf_str v" "m < n" "n \<le> str_size s"
      "bytes v = fst (split_value cs)" "drop n (bytes s) = snd (split_value cs)"
      using parse_value_from [OF Suc.prems, of cs] cs by metis
    with eq c cs show ?thesis
      by (subst parse_key.simps) (auto simp: parsed_key_def)
  next
    case more
    obtain r where r: "parse_key (str_advance s (Suc m)) (s\<lparr>str_size := Suc m\<rparr>) = Inr r"
      "parsed_key s (Suc m) (split_key cs) r"
      using Suc.hyps(1) [OF l(1)] Suc.prems l next_ by auto
    moreover have "parse_key ?c (s\<lparr>str_size := m\<rparr>) = parse_key (str_advance s (Suc m)) (s\<lparr>str_size := Suc m\<rparr>)"
      using more c nonnull by (subst parse_key.simps) (auto simp: str_extend_by_def BUG_ON_def)
    moreover have "parsed_key s m (split_key (c # cs)) r"
      using r(2) more by (cases "split_key cs") (auto simp: parsed_key_def split: if_splits)
    ultimately show ?thesis
      using cs by simp
  qed
qed

section \<open>What the parameters denote\<close>

datatype kind = K_i8 | K_u8 | K_i16 | K_u16 | K_i32 | K_u32 | K_i64 | K_u64 | K_bool | K_string

fun ops_of_kind :: "kind \<Rightarrow> param_ops" where
  "ops_of_kind K_i8 = g_param_i8_ops" | "ops_of_kind K_u8 = g_param_u8_ops"
| "ops_of_kind K_i16 = g_param_i16_ops" | "ops_of_kind K_u16 = g_param_u16_ops"
| "ops_of_kind K_i32 = g_param_i32_ops" | "ops_of_kind K_u32 = g_param_u32_ops"
| "ops_of_kind K_i64 = g_param_i64_ops" | "ops_of_kind K_u64 = g_param_u64_ops"
| "ops_of_kind K_bool = g_param_bool_ops" | "ops_of_kind K_string = g_param_string_ops"

text \<open>The values of a variable of the type.\<close>

fun has_kind :: "kind \<Rightarrow> param_value \<Rightarrow> bool" where
  "has_kind K_i8 (Val_i8 v) = True" | "has_kind K_u8 (Val_u8 v) = True"
| "has_kind K_i16 (Val_i16 v) = True" | "has_kind K_u16 (Val_u16 v) = True"
| "has_kind K_i32 (Val_i32 v) = True" | "has_kind K_u32 (Val_u32 v) = True"
| "has_kind K_i64 (Val_i64 v) = True" | "has_kind K_u64 (Val_u64 v) = True"
| "has_kind K_bool (Val_bool v) = True" | "has_kind K_string (Val_string s) = wf_str s"
| "has_kind _ _ = False"

fun_cases has_kindE: "has_kind k v"

datatype plain = Number int | Flag bool | Text "char list"

fun plain_of :: "param_value \<Rightarrow> plain" where
  "plain_of (Val_i8 v) = Number (sint v)" | "plain_of (Val_u8 v) = Number (uint v)"
| "plain_of (Val_i16 v) = Number (sint v)" | "plain_of (Val_u16 v) = Number (uint v)"
| "plain_of (Val_i32 v) = Number (sint v)" | "plain_of (Val_u32 v) = Number (uint v)"
| "plain_of (Val_i64 v) = Number (sint v)" | "plain_of (Val_u64 v) = Number (uint v)"
| "plain_of (Val_bool v) = Flag v" | "plain_of (Val_string v) = Text (bytes v)"

definition read_int :: "nat \<Rightarrow> char list \<Rightarrow> errno + plain" where
  "read_int w cs = map_sum id Number (fits (\<lambda>v. - (2 ^ (w - 1)) \<le> v \<and> v < 2 ^ (w - 1)) (read_signed 0 cs))"

definition read_nat :: "nat \<Rightarrow> char list \<Rightarrow> errno + plain" where
  "read_nat w cs = map_sum id (\<lambda>n. Number (int n)) (fits (\<lambda>v. v < 2 ^ w) (read_unsigned 0 cs))"

definition read_flag :: "char list \<Rightarrow> errno + plain" where
  "read_flag cs =
     (if cs = [] \<or> map tolower cs \<in> {''y'', ''t'', ''on'', ''1''} then Inr (Flag True)
      else if map tolower cs \<in> {''n'', ''f'', ''off'', ''0''} then Inr (Flag False) else Inl EINVAL)"

fun read_kind :: "kind \<Rightarrow> char list \<Rightarrow> errno + plain" where
  "read_kind K_i8 cs = read_int 8 cs" | "read_kind K_u8 cs = read_nat 8 cs"
| "read_kind K_i16 cs = read_int 16 cs" | "read_kind K_u16 cs = read_nat 16 cs"
| "read_kind K_i32 cs = read_int 32 cs" | "read_kind K_u32 cs = read_nat 32 cs"
| "read_kind K_i64 cs = read_int 64 cs" | "read_kind K_u64 cs = read_nat 64 cs"
| "read_kind K_bool cs = read_flag cs" | "read_kind K_string cs = Inr (Text cs)"

lemma to_i_number:
  assumes "LENGTH('a::len) = w"
  shows "map_sum id (\<lambda>v. Number (sint v)) (to_i (fits (\<lambda>v. - (2 ^ (w - 1)) \<le> v \<and> v < 2 ^ (w - 1)) r) :: errno + 'a word) =
    map_sum id Number (fits (\<lambda>v. - (2 ^ (w - 1)) \<le> v \<and> v < 2 ^ (w - 1)) r)"
proof (cases r)
  case (Inr v)
  moreover have "- (2 ^ (w - 1)) \<le> v \<Longrightarrow> v < 2 ^ (w - 1) \<Longrightarrow> sint (word_of_int v :: 'a word) = v"
    using assms by (subst signed_of_int) (simp add: signed_take_bit_int_eq_self)
  ultimately show ?thesis
    by (simp add: fits_def)
qed (simp add: fits_def)

lemma of_nat_number:
  assumes "LENGTH('a::len) = w"
  shows "map_sum id (\<lambda>v. Number (uint v)) (map_sum id of_nat (fits (\<lambda>v. v < 2 ^ w) r) :: errno + 'a word) =
    map_sum id (\<lambda>n. Number (int n)) (fits (\<lambda>v. v < 2 ^ w) r)"
proof (cases r)
  case (Inr v)
  moreover have "v < 2 ^ w \<Longrightarrow> uint (of_nat v :: 'a word) = int v"
    using assms by (simp add: unsigned_of_nat take_bit_nat_eq_self)
  ultimately show ?thesis
    by (simp add: fits_def)
qed (simp add: fits_def)

lemma fits_bounds_signed: "fits (\<lambda>v. - (2 ^ 63) \<le> v \<and> v < 2 ^ 63) (read_signed b cs) = read_signed b cs"
  using read_signed_bounds [of b cs] by (cases "read_signed b cs") (simp_all add: fits_def)

lemma fits_bounds_unsigned: "fits (\<lambda>n. n < 2 ^ 64) (read_unsigned b cs) = read_unsigned b cs"
  using read_unsigned_bound [of b cs] by (cases "read_unsigned b cs") (simp_all add: fits_def)

lemma map_sum_comp: "map_sum id f (map_sum id g r) = map_sum id (\<lambda>x. f (g x)) r"
  by (cases r) simp_all

lemma op_set_read_kind:
  assumes "wf_str s"
  shows "\<exists>r. op_set (ops_of_kind k) s = Inr r \<and> map_sum id plain_of r = read_kind k (bytes s)"
  using assms to_i_number [where ?'a = 8 and w = 8] to_i_number [where ?'a = 16 and w = 16]
    to_i_number [where ?'a = 32 and w = 32] to_i_number [where ?'a = 64 and w = 64 and r = "read_signed 0 (bytes s)"]
    of_nat_number [where ?'a = 8 and w = 8] of_nat_number [where ?'a = 16 and w = 16]
    of_nat_number [where ?'a = 32 and w = 32] of_nat_number [where ?'a = 64 and w = 64 and r = "read_unsigned 0 (bytes s)"]
  by (cases k)
     (simp_all add: g_param_i8_ops_def g_param_u8_ops_def g_param_i16_ops_def g_param_u16_ops_def
       g_param_i32_ops_def g_param_u32_ops_def g_param_i64_ops_def g_param_u64_ops_def g_param_bool_ops_def
       g_param_string_ops_def MAKE_PARAM_OPS_WITH_FMT_def PARAM_SET_OPS_TEMPLATE_def narrow_parser_eqs
       str_to_i64_with_base_eq str_to_u64_with_base_eq map_sum_comp read_int_def read_nat_def
       fits_bounds_signed [simplified] fits_bounds_unsigned [simplified] param_set_bool_def param_set_string_def read_flag_def
       str_to_bool_eq str_empty_iff to_u64_def)

lemma allows_empty_kind: "allows_empty_value (ops_of_kind k) \<longleftrightarrow> k = K_bool"
  by (cases k)
     (simp_all add: g_param_i8_ops_def g_param_u8_ops_def g_param_i16_ops_def g_param_u16_ops_def
       g_param_i32_ops_def g_param_u32_ops_def g_param_i64_ops_def g_param_u64_ops_def g_param_bool_ops_def
       g_param_string_ops_def MAKE_PARAM_OPS_WITH_FMT_def)

lemmas kind_ops_defs = g_param_i8_ops_def g_param_u8_ops_def g_param_i16_ops_def g_param_u16_ops_def
  g_param_i32_ops_def g_param_u32_ops_def g_param_i64_ops_def g_param_u64_ops_def g_param_bool_ops_def
  g_param_string_ops_def MAKE_PARAM_OPS_WITH_FMT_def

lemma map_sum_Inr_iff: "map_sum f g r = Inr y \<longleftrightarrow> (\<exists>x. r = Inr x \<and> y = g x)"
  by (cases r) auto

lemma set_has_kind: "op_set (ops_of_kind k) s = Inr (Inr v) \<Longrightarrow> wf_str s \<Longrightarrow> has_kind k v"
  by (cases k)
     (auto simp: kind_ops_defs PARAM_SET_OPS_TEMPLATE_def param_set_bool_def param_set_string_def bind_res_Inr_iff
       map_sum_Inr_iff split: if_splits)

section \<open>The effect of a command line\<close>

fun position :: "('a \<Rightarrow> bool) \<Rightarrow> 'a list \<Rightarrow> nat option" where
  "position P [] = None"
| "position P (x # xs) = (if P x then Some 0 else map_option Suc (position P xs))"

datatype plain_event = Unknown "char list" "char list" | Bad "char list" "char list" errno

type_synonym plain_params = "(char list \<times> kind \<times> plain) list"

definition same_name :: "char list \<Rightarrow> char list \<times> kind \<times> plain \<Rightarrow> bool" where
  "same_name key q \<longleftrightarrow> map dash_to_underscore (fst q) = map dash_to_underscore key"

definition assign ::
  "bool \<Rightarrow> char list \<times> char list \<Rightarrow> plain_params \<times> plain_event list \<Rightarrow> plain_params \<times> plain_event list" where
  "assign cb kv st = (case kv of (key, v) \<Rightarrow> case st of (qs, events) \<Rightarrow>
     (case position (same_name key) qs of
        None \<Rightarrow> (qs, if cb then events @ [Unknown key v] else events)
      | Some i \<Rightarrow> (case qs ! i of (n, k, x) \<Rightarrow>
          (case if v \<noteq> [] \<or> k = K_bool then read_kind k v else Inl EINVAL of
             Inl e \<Rightarrow> (qs, events @ [Bad key v e])
           | Inr y \<Rightarrow> (qs[i := (n, k, y)], events)))))"

definition param_denotes :: "param \<Rightarrow> char list \<times> kind \<times> plain \<Rightarrow> bool" where
  "param_denotes p q \<longleftrightarrow> wf_str (p_name p) \<and> bytes (p_name p) = fst q \<and>
     p_ops p = ops_of_kind (fst (snd q)) \<and> has_kind (fst (snd q)) (p_value p) \<and>
     plain_of (p_value p) = snd (snd q)"

fun plain_event_of :: "cmdline_event \<Rightarrow> plain_event" where
  "plain_event_of (Unknown_Param key v) = Unknown (bytes key) (bytes v)"
| "plain_event_of (Bad_Value key v e) = Bad (bytes key) (bytes v) e"

fun state_denotes :: "param list \<times> cmdline_event list \<Rightarrow> plain_params \<times> plain_event list \<Rightarrow> bool" where
  "state_denotes (ps, evs) (qs, plain_evs) \<longleftrightarrow> list_all2 param_denotes ps qs \<and> map plain_event_of evs = plain_evs"

lemma cmdline_name_compare_fun:
  "cmdline_name_compare = (\<lambda>l r. dash_to_underscore l = dash_to_underscore r)"
  by (simp add: fun_eq_iff cmdline_name_compare_def)

lemma find_param_eq:
  "wf_str key \<Longrightarrow> list_all2 param_denotes ps qs \<Longrightarrow>
     find_param key ps = Inr (position (same_name (bytes key)) qs)"
proof (induction qs arbitrary: ps)
  case (Cons q qs)
  then obtain p ps' where "ps = p # ps'" "param_denotes p q" "list_all2 param_denotes ps' qs"
    by (auto simp: list_all2_Cons2)
  with Cons show ?case
    by (simp add: param_denotes_def same_name_def cmdline_name_compare_fun list_all2_map_eq)
qed simp

lemma position_less: "position P xs = Some i \<Longrightarrow> i < length xs \<and> P (xs ! i)"
  by (induction xs arbitrary: i) (auto split: if_splits)

lemma process_param_denotes:
  assumes "wf_str key" "wf_str v" "state_denotes st qst"
  shows "\<exists>st'. process_param cb (key, v) st = Inr st' \<and> state_denotes st' (assign cb (bytes key, bytes v) qst)"
proof -
  obtain ps evs qs qevs where st: "st = (ps, evs)" "qst = (qs, qevs)"
    by (cases st, cases qst)
  with assms have ps: "list_all2 param_denotes ps qs" and evs: "map plain_event_of evs = qevs"
    by simp_all
  note find = find_param_eq [OF assms(1) ps]
  show ?thesis
  proof (cases "position (same_name (bytes key)) qs")
    case None
    with find st ps evs show ?thesis
      by (simp add: process_param_def assign_def)
  next
    case (Some i)
    obtain n k x where q: "qs ! i = (n, k, x)" by (cases "qs ! i")
    from position_less [OF Some] ps q have p: "i < length ps" "param_denotes (ps ! i) (n, k, x)"
      by (auto simp: list_all2_conv_all_nth)
    obtain r where r: "op_set (ops_of_kind k) v = Inr r" "map_sum id plain_of r = read_kind k (bytes v)"
      using op_set_read_kind [OF assms(2)] by blast
    from p have ops: "p_ops (ps ! i) = ops_of_kind k" by (simp add: param_denotes_def)
    have upd: "list_all2 param_denotes (ps[i := (ps ! i)\<lparr>p_value := y\<rparr>]) (qs[i := (n, k, plain_of y)])" if "r = Inr y" for y
      using ps p r(1) that set_has_kind [OF _ assms(2)] by (intro list_all2_update_cong) (simp_all add: param_denotes_def)
    show ?thesis
    proof (cases "bytes v \<noteq> [] \<or> k = K_bool")
      case True
      then show ?thesis
        using r(1) find Some st q ps evs upd assms(2) r(2) [symmetric]
        by (cases r) (auto simp: process_param_def assign_def Let_def ops allows_empty_kind str_empty_iff)
    next
      case False
      then show ?thesis
        using find Some st q ps evs assms(2)
        by (auto simp: process_param_def assign_def Let_def ops allows_empty_kind str_empty_iff)
    qed
  qed
qed

lemma trim_trim [simp]: "trim (trim xs) = trim xs"
  by (induction xs) (simp_all add: trim_def)

lemma trim_fixed: "trim xs = ys \<Longrightarrow> trim ys = ys"
  using trim_trim by blast

lemma parsed_key_Stop:
  assumes "parsed_key s 0 (split_key (bytes s)) r" "next_token (bytes s) = Stop rest"
  shows "\<exists>n. (r = Init_Args (str_advance s n) \<or> (\<exists>v. r = Key_Value (s\<lparr>str_size := 0\<rparr>) v (str_advance s n))) \<and>
    drop n (bytes s) = rest"
  using assms
  by (cases "split_key (bytes s)") (auto simp: parsed_key_def next_token_def split: if_splits)

lemma parsed_key_Pair:
  assumes "parsed_key s 0 (split_key (bytes s)) r" "next_token (bytes s) = Pair key v rest" "wf_str s"
  shows "\<exists>k w n. r = Key_Value k w (str_advance s n) \<and> wf_str k \<and> wf_str w \<and> bytes k = key \<and> key \<noteq> [] \<and>
    bytes w = v \<and> 0 < n \<and> n \<le> str_size s \<and> trim (drop n (bytes s)) = rest"
proof -
  obtain k after where sp: "split_key (bytes s) = (k, after)" by (cases "split_key (bytes s)")
  then have cat: "bytes s = k @ after"
    using split_key_append [of "bytes s"] by simp
  then have "length k \<le> str_size s"
    using assms(3) by (simp add: size_eq_length del: length_bytes)
  then have "wf_str (s\<lparr>str_size := length k\<rparr>)" "bytes (s\<lparr>str_size := length k\<rparr>) = k"
    using assms(3) cat by (simp_all add: wf_str_take bytes_take)
  moreover obtain w n where "r = Key_Value (s\<lparr>str_size := length k\<rparr>) w (str_advance s n)" "wf_str w" "length k \<le> n"
    "n \<le> str_size s" "bytes w = v" "k = key" "key \<noteq> []" "trim (drop n (bytes s)) = rest"
    using assms(1,2) sp
    by (cases "after \<noteq> [] \<and> hd after = CHR ''=''")
       (auto simp: parsed_key_def next_token_def dest: trim_fixed split: if_splits)
  moreover from this have "0 < n"
    by (cases n) auto
  ultimately show ?thesis
    by auto
qed

lemma cmdline_loop_eq:
  assumes "wf_str s" "state_denotes st qst" "str_size s < fuel"
  shows "\<exists>rest st'. cmdline_loop fuel cb s st = Inr (rest, st') \<and> bytes rest = snd (tokens (bytes s)) \<and>
    state_denotes st' (fold (assign cb) (fst (tokens (bytes s))) qst)"
  using assms
proof (induction fuel arbitrary: s st qst)
  case (Suc fuel)
  obtain r where r: "parse_key s \<lparr>str_text = str_text s, str_size = 0\<rparr> = Inr r"
    "parsed_key s 0 (split_key (bytes s)) r"
    using parse_key_eq [OF Suc.prems(1), of 0] by (cases s) auto
  show ?case
  proof (cases "next_token (bytes s)")
    case (Stop rest)
    with parsed_key_Stop [OF r(2) Stop] r(1) Suc.prems(2) show ?thesis
      by (cases st) (auto simp: tokens.simps [of "bytes s"] str_empty_def)
  next
    case (Pair key v rest)
    obtain k w n where k: "r = Key_Value k w (str_advance s n)" "wf_str k" "wf_str w" "bytes k = key" "key \<noteq> []"
      "bytes w = v" "0 < n" "n \<le> str_size s" "trim (drop n (bytes s)) = rest"
      using parsed_key_Pair [OF r(2) Pair Suc.prems(1)] by blast
    obtain st' where st': "process_param cb (k, w) st = Inr st'" "state_denotes st' (assign cb (key, v) qst)"
      using process_param_denotes [OF k(2,3) Suc.prems(2)] k(4,6) by blast
    obtain n' where n': "n \<le> n'" "n' \<le> str_size s" "cmdline_trim (str_advance s n) = Inr (str_advance s n')"
      "drop n' (bytes s) = rest"
      using cmdline_trim_from [OF Suc.prems(1) k(8)] k(9) by metis
    with k(7) have "str_size (str_advance s n') < fuel"
      using Suc.prems(3) by simp
    from Suc.IH [OF _ st'(2) this] obtain rest' st'' where
      "cmdline_loop fuel cb (str_advance s n') st' = Inr (rest', st'')" "bytes rest' = snd (tokens rest)"
      "state_denotes st'' (fold (assign cb) (fst (tokens rest)) (assign cb (key, v) qst))"
      using Suc.prems(1) n'(4) by auto
    with r(1) k st'(1) n' Pair show ?thesis
      by (simp add: tokens.simps [of "bytes s"] str_empty_iff)
  qed
qed simp

lemma cmdline_parse_denotes:
  assumes "wf_str cmdline" "list_all2 param_denotes params qs"
  shows "\<exists>rest params' events. cmdline_parse cmdline params cb = Inr (rest, params', events) \<and>
    bytes rest = snd (tokens (trim (bytes cmdline))) \<and>
    state_denotes (params', events) (fold (assign cb) (fst (tokens (trim (bytes cmdline)))) (qs, []))"
proof -
  obtain n where n: "n \<le> str_size cmdline" "cmdline_trim cmdline = Inr (str_advance cmdline n)"
    "drop n (bytes cmdline) = trim (bytes cmdline)"
    using cmdline_trim_eq [OF assms(1)] by blast
  with assms show ?thesis
    using cmdline_loop_eq [of "str_advance cmdline n" "(params, [])" "(qs, [])"]
    by (auto simp: cmdline_parse_def simp del: cmdline_loop.simps)
qed

text \<open>
  C22: Parsing a command line always returns. It assigns to each parameter, in the order of the text,
  the value that its type reads (the first parameter whose name agrees up to \<^verbatim>\<open>-\<close> and \<^verbatim>\<open>_\<close>), reports
  a value that does not parse and leaves the parameter as it was, calls \<^verbatim>\<open>unknown_cb\<close> for the other
  names, and returns what follows \<^verbatim>\<open>--\<close>.
\<close>

theorem cmdline_parse_exact:
  assumes "wf_str cmdline" "list_all2 param_denotes params qs"
  shows "\<exists>rest params' events. cmdline_parse cmdline params cb = Inr (rest, params', events) \<and>
    bytes rest = snd (tokens (trim (bytes cmdline))) \<and>
    state_denotes (params', events) (fold (assign cb) (fst (tokens (trim (bytes cmdline)))) (qs, []))"
  using assms by (rule cmdline_parse_denotes)

theorem cmdline_parse_exact_witness:
  "\<exists>rest params' events. cmdline_parse (STR_CONSTEXPR '' a-b=7 x=1 -- rest'')
      [\<lparr>p_name = STR_CONSTEXPR ''a_b'', p_ops = g_param_u8_ops, p_value = Val_u8 0\<rparr>] True = Inr (rest, params', events) \<and>
    bytes rest = ''rest'' \<and>
    state_denotes (params', events) ([(''a_b'', K_u8, Number 7)], [Unknown ''x'' ''1''])"
proof -
  let ?params = "[\<lparr>p_name = STR_CONSTEXPR ''a_b'', p_ops = g_param_u8_ops, p_value = Val_u8 0\<rparr>]"
  have params: "list_all2 param_denotes ?params [(''a_b'', K_u8, Number 0)]"
    by (simp add: param_denotes_def)
  have t: "tokens (trim '' a-b=7 x=1 -- rest'') = ([(''a-b'', ''7''), (''x'', ''1'')], ''rest'')"
    by code_simp
  have "read_kind K_u8 ''7'' = Inr (Number 7)"
    by (simp add: read_nat_def fits_def read_unsigned_def read_number_def split_base_def
        valid_digit_def isxdigit_iff digit_nat_def isdigit_iff)
  moreover have "same_name ''a-b'' (''a_b'', q)" "\<not> same_name ''x'' (''a_b'', q)" for q
    by (simp_all add: same_name_def dash_to_underscore_def)
  ultimately have a: "fold (assign True) [(''a-b'', ''7''), (''x'', ''1'')] ([(''a_b'', K_u8, Number 0)], []) =
     ([(''a_b'', K_u8, Number 7)], [Unknown ''x'' ''1''])"
    by (simp add: assign_def)
  show ?thesis
    using cmdline_parse_exact [of "STR_CONSTEXPR '' a-b=7 x=1 -- rest''" _ _ True, OF wf_STR_CONSTEXPR params]
    unfolding bytes_STR_CONSTEXPR t fst_conv snd_conv a .
qed

section \<open>Findings\<close>

text \<open>
  The closing quote of a quoted value stays on the command line and is parsed as a parameter of
  its own, which the callback gets with an empty value.
\<close>

lemma closing_quote_is_a_parameter:
  "map_sum id (\<lambda>(rest, params, events). map plain_event_of events)
     (cmdline_parse (STR_CONSTEXPR ''a=\"b c\" d'') [] True)
   = Inr [Unknown ''a'' ''b c'', Unknown ''\"'' [], Unknown ''d'' []]"
  by code_simp

text \<open>
  Two dashes end the parsing also inside a name: the name read so far is dropped without a
  message, and what follows the dashes is returned as the arguments for init.
\<close>

lemma dashes_inside_a_key_end_parsing:
  "map_sum id (\<lambda>(rest, params, events). (bytes rest, map plain_event_of events))
     (cmdline_parse (STR_CONSTEXPR ''ab--cd=1 x=5'') [] True)
   = Inr (''cd=1 x=5'', [])"
  by code_simp

end
