(* ===== verification/ParamTypes.thy ===== *)
theory ParamTypes
  imports ParamTheorems FormatTheorems
begin

text \<open>
  The types of kernel parameters. A parameter is a \<^verbatim>\<open>void *\<close> with operations that take it for a variable of
  one type. \<open>param_type\<close> is the contract of the operations for a type; it is shown for the ten types of
  \<^verbatim>\<open>include/param.h\<close>. The command line keeps every parameter within its type, and what \<^verbatim>\<open>get\<close> shows of a value
  \<^verbatim>\<open>set\<close> reads back.
\<close>

section \<open>The contract\<close>

locale param_type =
  fixes ops :: param_ops and has_type :: "param_value \<Rightarrow> bool" and shown :: "param_value \<Rightarrow> char list"
  assumes set_typed: "wf_str s \<Longrightarrow> \<exists>r. op_set ops s = Inr r \<and> (\<forall>v. r = Inr v \<longrightarrow> has_type v)"
    and get_shown: "has_type v \<Longrightarrow> length (shown v) < cap \<Longrightarrow> cap \<le> length buf \<Longrightarrow>
      \<exists>buf'. op_get ops v buf cap = Inr (buf', length (shown v), length (shown v)) \<and> take (length (shown v)) buf' = shown v \<and>
        length buf' = length buf"
    and set_shown: "has_type v \<Longrightarrow> wf_str s \<Longrightarrow> bytes s = shown v \<Longrightarrow> \<exists>v'. op_set ops s = Inr (Inr v') \<and> plain_of v' = plain_of v"
begin

lemma set_has_type: "wf_str s \<Longrightarrow> op_set ops s = Inr (Inr v) \<Longrightarrow> has_type v"
  using set_typed by fastforce

lemma get_set:
  assumes "has_type v" "length (shown v) < cap" "cap \<le> length buf"
  shows "\<exists>buf' n v'. op_get ops v buf cap = Inr (buf', n, n) \<and> op_set ops \<lparr>str_text = Ptr buf', str_size = n\<rparr> = Inr (Inr v') \<and>
    plain_of v' = plain_of v"
proof -
  obtain buf' where buf': "op_get ops v buf cap = Inr (buf', length (shown v), length (shown v))"
      "take (length (shown v)) buf' = shown v" "length buf' = length buf"
    using get_shown [OF assms] by blast
  with assms have "wf_str \<lparr>str_text = Ptr buf', str_size = length (shown v)\<rparr>"
      "bytes \<lparr>str_text = Ptr buf', str_size = length (shown v)\<rparr> = shown v"
    by (simp_all add: wf_str_def bytes_def)
  with set_shown [OF assms(1)] buf'(1) show ?thesis
    by blast
qed

end

section \<open>The texts of numbers\<close>

text \<open>A format that is one directive.\<close>

lemma print_directive:
  assumes "NUL \<notin> set f" "f \<noteq> []" "cap \<le> length buf"
    and step: "\<And>fb. sink_ok fb \<Longrightarrow> vsnprintf_step fb (STR_CONSTEXPR f) args = Inr (Continue (emit fb out) (str_advance (STR_CONSTEXPR f) (length f)) [])"
  shows "vsnprintf buf cap (Ptr (f @ [NUL])) args = Inr (printed buf cap out None)"
proof -
  let ?fb = "\<lparr>buffer = buf, capacity = cap, bytes_written = 0\<rparr>"
  have ok: "sink_ok ?fb"
    using assms by (simp add: sink_ok_def)
  obtain k where k: "length f = Suc k"
    using assms(2) by (cases f) auto
  have "vsnprintf_loop (Suc (Suc k)) ?fb (STR_CONSTEXPR f) args = Inr (emit ?fb out, None)"
    using step [OF ok] by (simp add: k str_empty_def)
  then show ?thesis
    by (intro vsnprintf_run [OF str_runtime_literal [OF assms(1)] assms(3)]) (simp add: k del: vsnprintf_loop.simps)
qed

lemma step_lld:
  assumes "sink_ok fb"
  shows "vsnprintf_step fb (STR_CONSTEXPR ''%lld'') [Va_long x]
    = Inr (Continue (emit fb (integer_text (initial_spec\<lparr>is_signed := True\<rparr>) x)) (str_advance (STR_CONSTEXPR ''%lld'') 4) [])"
proof -
  let ?f1 = "str_advance (STR_CONSTEXPR ''%lld'') (Suc 0)"
  have flags: "parse_flags ?f1 initial_spec = Inr (?f1, initial_spec)"
    by (subst parse_flags.simps) (simp add: consume_one_of_eq)
  have digits: "consume_digits ?f1 = Inr (?f1, \<lparr>str_text = str_text ?f1, str_size = 0\<rparr>)"
    by (rule consume_digits_none) (simp_all, code_simp)
  have base: "base_ok (initial_spec\<lparr>is_signed := True\<rparr>)"
    by (simp add: base_ok_def initial_spec_def)
  show ?thesis
    using assms
    by (simp add: run_format flags digits str_empty_def base eval_nat_numeral)
qed

lemma step_llu:
  assumes "sink_ok fb"
  shows "vsnprintf_step fb (STR_CONSTEXPR ''%llu'') [Va_long x]
    = Inr (Continue (emit fb (integer_text initial_spec x)) (str_advance (STR_CONSTEXPR ''%llu'') 4) [])"
proof -
  let ?f1 = "str_advance (STR_CONSTEXPR ''%llu'') (Suc 0)"
  have flags: "parse_flags ?f1 initial_spec = Inr (?f1, initial_spec)"
    by (subst parse_flags.simps) (simp add: consume_one_of_eq)
  have digits: "consume_digits ?f1 = Inr (?f1, \<lparr>str_text = str_text ?f1, str_size = 0\<rparr>)"
    by (rule consume_digits_none) (simp_all, code_simp)
  have base: "base_ok initial_spec"
    by (simp add: base_ok_def initial_spec_def)
  have spec: "initial_spec\<lparr>base := base_from_specifier (CHR ''u''), uppercase := is_uppercase_specifier (CHR ''u'')\<rparr> = initial_spec"
    by code_simp
  have "CHR ''u'' \<noteq> NUL"
    by code_simp
  then show ?thesis
    using assms
    by (simp add: run_format flags digits str_empty_def base eval_nat_numeral Let_def spec)
qed

definition signed_text :: "int \<Rightarrow> char list" where
  "signed_text v = (if v < 0 then ''-'' else []) @ decimal (nat \<bar>v\<bar>)"

lemmas number_texts = integer_text_decimal [folded signed_text_def] integer_text_unsigned

text \<open>Numbers print as their digits, and the parsers find base ten by themselves.\<close>

lemma print_number:
  assumes "cap \<le> length buf"
  shows "vsnprintf buf cap (Ptr (''%d'' @ [NUL])) [Va_int x] = Inr (printed buf cap (signed_text (sint x)) None)"
    and "vsnprintf buf cap (Ptr (''%u'' @ [NUL])) [Va_int x] = Inr (printed buf cap (decimal (unat x)) None)"
    and "vsnprintf buf cap (Ptr (''%lld'' @ [NUL])) [Va_long y] = Inr (printed buf cap (signed_text (sint y)) None)"
    and "vsnprintf buf cap (Ptr (''%llu'' @ [NUL])) [Va_long y] = Inr (printed buf cap (decimal (unat y)) None)"
proof -
  have s: "sint (scast x :: 64 word) = sint x" and u: "unat (ucast x :: 64 word) = unat x"
    using sint_greater_eq [of x] sint_less [of x] unsigned_less [of x, where ?'a = nat]
    by (simp_all add: signed_scast_eq signed_take_bit_int_eq_self unsigned_ucast_eq take_bit_nat_eq_self)
  have nul: "NUL \<notin> set ''%d''" "NUL \<notin> set ''%u''" "NUL \<notin> set ''%lld''" "NUL \<notin> set ''%llu''"
    by code_simp+
  show "vsnprintf buf cap (Ptr (''%d'' @ [NUL])) [Va_int x] = Inr (printed buf cap (signed_text (sint x)) None)"
    using step_d [of _ x] by (intro print_directive [OF nul(1) _ assms]) (simp_all add: number_texts s eval_nat_numeral)
  show "vsnprintf buf cap (Ptr (''%u'' @ [NUL])) [Va_int x] = Inr (printed buf cap (decimal (unat x)) None)"
    using step_u [of _ "STR_CONSTEXPR ''%u''" "[]" "[]" x "[]"]
    by (intro print_directive [OF nul(2) _ assms]) (simp_all add: number_texts u eval_nat_numeral)
  show "vsnprintf buf cap (Ptr (''%lld'' @ [NUL])) [Va_long y] = Inr (printed buf cap (signed_text (sint y)) None)"
    using step_lld [of _ y] by (intro print_directive [OF nul(3) _ assms]) (simp_all add: number_texts eval_nat_numeral)
  show "vsnprintf buf cap (Ptr (''%llu'' @ [NUL])) [Va_long y] = Inr (printed buf cap (decimal (unat y)) None)"
    using step_llu [of _ y] by (intro print_directive [OF nul(4) _ assms]) (simp_all add: number_texts eval_nat_numeral)
qed

lemma read_number_base0: "n < 2 ^ 64 \<Longrightarrow> read_number 0 (decimal n) = Inr n"
proof (cases "n = 0")
  case False
  assume n: "n < 2 ^ 64"
  obtain k ks where k: "digits_msb 10 n = k # ks" "0 < k"
    using digits_msb_first [of 10 n] False by auto
  with digits_msb_bound [of 10 k n] have "k < 10"
    by simp
  have "list_all (\<lambda>d. isdigit (digit_char False d) \<and> digit_char False d \<noteq> CHR ''0'') [1..<10]"
    by code_simp
  with k(2) \<open>k < 10\<close> have c: "isdigit (digit_char False k)" "digit_char False k \<noteq> CHR ''0''"
    by (auto simp: list_all_iff)
  with k False have "split_base (decimal n) = (10, decimal n)"
    by (auto simp: split_base_def decimal_def)
  with read_number_decimal [OF n] show ?thesis
    by (simp add: read_number_def)
qed (simp add: decimal_def read_number_def split_base_def)

lemma read_signed_base0:
  assumes "- (2 ^ 63) \<le> v" "v < 2 ^ 63"
  shows "read_signed 0 (signed_text v) = Inr v"
proof -
  have n: "nat \<bar>v\<bar> < 2 ^ 64"
    using assms by simp
  obtain c cs where c: "decimal (nat \<bar>v\<bar>) = c # cs" "isxdigit c"
    using decimal_first by blast
  have "\<not> isxdigit (CHR ''-'')" "\<not> isxdigit (CHR ''+'')"
    by code_simp+
  with c(2) have "c \<noteq> CHR ''-''" "c \<noteq> CHR ''+''"
    by auto
  with read_number_base0 [OF n] c(1) assms show ?thesis
    by (auto simp: read_signed_def signed_text_def)
qed

lemma read_unsigned_base0:
  assumes "n < 2 ^ 64"
  shows "read_unsigned 0 (decimal n) = Inr n"
proof -
  obtain c cs where c: "decimal n = c # cs" "isxdigit c"
    using decimal_first by blast
  have "\<not> isxdigit (CHR ''-'')" "\<not> isxdigit (CHR ''+'')"
    by code_simp+
  with c(2) have "c \<noteq> CHR ''-''" "c \<noteq> CHR ''+''"
    by auto
  with read_number_base0 [OF assms] c(1) show ?thesis
    by (auto simp: read_unsigned_def)
qed

section \<open>The types of the kernel\<close>

text \<open>What \<^verbatim>\<open>get\<close> writes for a value.\<close>

fun shown_value :: "param_value \<Rightarrow> char list" where
  "shown_value (Val_i8 v) = signed_text (sint v)" | "shown_value (Val_u8 v) = decimal (unat v)"
| "shown_value (Val_i16 v) = signed_text (sint v)" | "shown_value (Val_u16 v) = decimal (unat v)"
| "shown_value (Val_i32 v) = signed_text (sint v)" | "shown_value (Val_u32 v) = decimal (unat v)"
| "shown_value (Val_i64 v) = signed_text (sint v)" | "shown_value (Val_u64 v) = decimal (unat v)"
| "shown_value (Val_bool v) = (if v then ''1'' else ''0'')"
| "shown_value (Val_string s) = bytes s"

text \<open>What a type reads of the text of a value is the value.\<close>

lemma fits_Inr: "P v \<Longrightarrow> fits P (Inr v) = Inr v"
  by (simp add: fits_def)

lemma word_fits: "unat v < 2 ^ 64" "- (2 ^ 63) \<le> sint v" "sint v < 2 ^ 63" "unat v < 2 ^ LENGTH('a)" "- (2 ^ (LENGTH('a) - 1)) \<le> sint v"
    "sint v < 2 ^ (LENGTH('a) - 1)" if "LENGTH('a) \<le> 64" for v :: "'a::len word"
proof -
  show *: "unat v < 2 ^ LENGTH('a)" "- (2 ^ (LENGTH('a) - 1)) \<le> sint v" "sint v < 2 ^ (LENGTH('a) - 1)"
    using sint_greater_eq [of v] sint_less [of v] by simp_all
  have "(2 :: nat) ^ LENGTH('a) \<le> 2 ^ 64" "(2 :: int) ^ (LENGTH('a) - 1) \<le> 2 ^ 63"
    using that by (intro power_increasing; simp)+
  with * show "unat v < 2 ^ 64" "- (2 ^ 63) \<le> sint v" "sint v < 2 ^ 63"
    by linarith+
qed

lemma read_int_shown:
  assumes "LENGTH('a::len) = w" "w \<le> 64"
  shows "read_int w (signed_text (sint (v :: 'a word))) = Inr (Number (sint v))"
  using word_fits [of v] assms by (simp add: read_int_def read_signed_base0 fits_Inr)

lemma read_nat_shown:
  assumes "LENGTH('a::len) = w" "w \<le> 64"
  shows "read_nat w (decimal (unat (v :: 'a word))) = Inr (Number (uint v))"
  using word_fits [of v] assms by (simp add: read_nat_def read_unsigned_base0 fits_Inr)

lemma read_flag_shown: "read_flag (if b then ''1'' else ''0'') = Inr (Flag b)"
proof -
  have "read_flag ''1'' = Inr (Flag True)" "read_flag ''0'' = Inr (Flag False)"
    by code_simp+
  then show ?thesis
    by simp
qed

lemma read_kind_shown: "has_kind k v \<Longrightarrow> read_kind k (shown_value v) = Inr (plain_of v)"
  by (erule has_kindE) (simp_all add: read_int_shown read_nat_shown read_flag_shown)

lemma get_template:
  assumes "promote v = Some a" "vsnprintf buf cap (Ptr (fmt @ [NUL])) [a] = Inr (printed buf cap out None)"
    and "length out \<le> 25" "length out < cap" "cap \<le> length buf"
  shows "\<exists>buf'. PARAM_GET_OPS_TEMPLATE fmt promote v buf cap = Inr (buf', length out, length out) \<and>
    take (length out) buf' = out \<and> length buf' = length buf"
proof -
  have "sint (of_nat (length out) :: 32 word) = int (length out)"
    using assms(3) by (simp add: signed_of_nat signed_take_bit_int_eq_self)
  moreover have "unat (word_of_int (int (length out)) :: 64 word) = length out"
    using assms(3) by (simp add: unsigned_of_nat take_bit_nat_eq_self)
  ultimately show ?thesis
    using assms by (simp add: PARAM_GET_OPS_TEMPLATE_def snprintf_def printed_def Let_def)
qed

lemma decimal_nat_length: "n < 2 ^ 64 \<Longrightarrow> length (decimal n) \<le> 24"
  using decimal_length [of "of_nat n"] by (simp add: unsigned_of_nat take_bit_nat_eq_self)

lemma signed_text_length: "- (2 ^ 63) \<le> v \<Longrightarrow> v < 2 ^ 63 \<Longrightarrow> length (signed_text v) \<le> 25"
proof -
  assume "- (2 ^ 63) \<le> v" "v < 2 ^ 63"
  then have "length (decimal (nat \<bar>v\<bar>)) \<le> 24"
    by (intro decimal_nat_length) simp
  then show ?thesis
    by (cases "v < 0") (simp_all add: signed_text_def)
qed

text \<open>The integer promotions keep the number.\<close>

lemma promotions:
  "LENGTH('a::len) < 32 \<Longrightarrow> sint (scast (v :: 'a word) :: 32 word) = sint v"
  "LENGTH('a) < 32 \<Longrightarrow> unat (ucast v :: 32 word) = unat v"
proof -
  assume len: "LENGTH('a) < 32"
  then have "(2 :: int) ^ (LENGTH('a) - 1) \<le> 2 ^ 31"
    by (intro power_increasing) simp_all
  with sint_greater_eq [of v] sint_less [of v] show "sint (scast v :: 32 word) = sint v"
    by (simp add: signed_scast_eq signed_take_bit_int_eq_self)
  have "(2 :: nat) ^ LENGTH('a) \<le> 2 ^ 32"
    using len by (intro power_increasing) simp_all
  with unsigned_less [of v, where ?'a = nat] have "unat v < 2 ^ 32"
    by linarith
  then show "unat (ucast v :: 32 word) = unat v"
    by (simp add: unsigned_ucast_eq take_bit_nat_eq_self)
qed

text \<open>Showing \<open>out\<close>, with room for the terminator.\<close>

definition shows_text :: "(char list \<Rightarrow> nat \<Rightarrow> (char list \<times> nat \<times> nat) res) \<Rightarrow> char list \<Rightarrow> bool" where
  "shows_text get out \<longleftrightarrow> (\<forall>cap buf. length out < cap \<longrightarrow> cap \<le> length buf \<longrightarrow>
     (\<exists>buf'. get buf cap = Inr (buf', length out, length out) \<and> take (length out) buf' = out \<and> length buf' = length buf))"

lemma shows_numbers:
  "promote v = Some (Va_int x) \<Longrightarrow> shows_text (PARAM_GET_OPS_TEMPLATE ''%d'' promote v) (signed_text (sint x))"
  "promote v = Some (Va_int x) \<Longrightarrow> shows_text (PARAM_GET_OPS_TEMPLATE ''%u'' promote v) (decimal (unat x))"
  "promote v = Some (Va_long y) \<Longrightarrow> shows_text (PARAM_GET_OPS_TEMPLATE ''%lld'' promote v) (signed_text (sint y))"
  "promote v = Some (Va_long y) \<Longrightarrow> shows_text (PARAM_GET_OPS_TEMPLATE ''%llu'' promote v) (decimal (unat y))"
proof -
  have len: "length (signed_text (sint x)) \<le> 25" "length (decimal (unat x)) \<le> 25"
      "length (signed_text (sint y)) \<le> 25" "length (decimal (unat y)) \<le> 25"
    using decimal_nat_length [of "unat x"] decimal_nat_length [of "unat y"] word_fits [of x] word_fits [of y]
    by (simp_all add: signed_text_length)
  show "promote v = Some (Va_int x) \<Longrightarrow> shows_text (PARAM_GET_OPS_TEMPLATE ''%d'' promote v) (signed_text (sint x))"
    unfolding shows_text_def using get_template [OF _ print_number(1) len(1)] by blast
  show "promote v = Some (Va_int x) \<Longrightarrow> shows_text (PARAM_GET_OPS_TEMPLATE ''%u'' promote v) (decimal (unat x))"
    unfolding shows_text_def using get_template [OF _ print_number(2) len(2)] by blast
  show "promote v = Some (Va_long y) \<Longrightarrow> shows_text (PARAM_GET_OPS_TEMPLATE ''%lld'' promote v) (signed_text (sint y))"
    unfolding shows_text_def using get_template [OF _ print_number(3) len(3)] by blast
  show "promote v = Some (Va_long y) \<Longrightarrow> shows_text (PARAM_GET_OPS_TEMPLATE ''%llu'' promote v) (decimal (unat y))"
    unfolding shows_text_def using get_template [OF _ print_number(4) len(4)] by blast
qed

lemma shows_string: "wf_str s \<Longrightarrow> shows_text (param_get_string (Val_string s)) (bytes s)"
proof -
  assume wf: "wf_str s"
  then have "str_size s \<le> length (ptr_chars (str_text s))" "bytes s = take (str_size s) (ptr_chars (str_text s))"
    by (auto simp: wf_str_def bytes_def)
  with wf show ?thesis
    by (auto simp: shows_text_def Let_def min_absorb1 list_update_append)
qed

lemma promoted_bool: "signed_text (sint (if b then 1 else 0 :: 32 word)) = (if b then ''1'' else ''0'')"
proof -
  have "signed_text 1 = ''1''" "signed_text 0 = ''0''"
    by code_simp+
  then show ?thesis
    by simp
qed

lemmas shows_kinds =
  shows_numbers(1) [where promote = promote_i8 and v = "Val_i8 v" for v, OF promote_i8.simps(1)]
  shows_numbers(2) [where promote = promote_u8 and v = "Val_u8 v" for v, OF promote_u8.simps(1)]
  shows_numbers(1) [where promote = promote_i16 and v = "Val_i16 v" for v, OF promote_i16.simps(1)]
  shows_numbers(2) [where promote = promote_u16 and v = "Val_u16 v" for v, OF promote_u16.simps(1)]
  shows_numbers(1) [where promote = promote_i32 and v = "Val_i32 v" for v, OF promote_i32.simps(1)]
  shows_numbers(2) [where promote = promote_u32 and v = "Val_u32 v" for v, OF promote_u32.simps(1)]
  shows_numbers(3) [where promote = promote_i64 and v = "Val_i64 v" for v, OF promote_i64.simps(1)]
  shows_numbers(4) [where promote = promote_u64 and v = "Val_u64 v" for v, OF promote_u64.simps(1)]
  shows_numbers(1) [where promote = promote_bool and v = "Val_bool v" for v, OF promote_bool.simps(1), unfolded promoted_bool]

lemma get_shown: "has_kind k v \<Longrightarrow> shows_text (op_get (ops_of_kind k) v) (shown_value v)"
  by (erule has_kindE) (use shows_kinds in \<open>simp_all add: kind_ops_defs shows_string promotions\<close>)

interpretation kind: param_type "ops_of_kind k" "has_kind k" shown_value for k
proof
  fix s
  assume s: "wf_str s"
  then show "\<exists>r. op_set (ops_of_kind k) s = Inr r \<and> (\<forall>v. r = Inr v \<longrightarrow> has_kind k v)"
    using op_set_read_kind [OF s] set_has_kind s by metis
  fix v
  assume v: "has_kind k v" and "bytes s = shown_value v"
  obtain r where "op_set (ops_of_kind k) s = Inr r" "map_sum id plain_of r = read_kind k (bytes s)"
    using op_set_read_kind [OF s] by blast
  with v \<open>bytes s = shown_value v\<close> show "\<exists>v'. op_set (ops_of_kind k) s = Inr (Inr v') \<and> plain_of v' = plain_of v"
    by (auto simp: read_kind_shown map_sum_Inr_iff)
next
  fix v cap and buf :: "char list"
  assume "has_kind k v" "length (shown_value v) < cap" "cap \<le> length buf"
  then show "\<exists>buf'. op_get (ops_of_kind k) v buf cap = Inr (buf', length (shown_value v), length (shown_value v)) \<and>
      take (length (shown_value v)) buf' = shown_value v \<and> length buf' = length buf"
    using get_shown unfolding shows_text_def by blast
qed

section \<open>The parameters of the command line\<close>

text \<open>A parameter whose operations are those of the type of its variable.\<close>

definition well_typed :: "param \<Rightarrow> bool" where
  "well_typed p \<longleftrightarrow> wf_str (p_name p) \<and> (\<exists>k. p_ops p = ops_of_kind k \<and> has_kind k (p_value p))"

lemma well_typedE:
  assumes "well_typed p"
  obtains k where "param_denotes p (bytes (p_name p), k, plain_of (p_value p))" "p_ops p = ops_of_kind k" "has_kind k (p_value p)"
  using assms by (auto simp: well_typed_def param_denotes_def)

lemma denotes_well_typed: "param_denotes p q \<Longrightarrow> well_typed p"
  by (auto simp: well_typed_def param_denotes_def)

lemma all_denote:
  assumes "\<forall>p \<in> set ps. well_typed p"
  shows "\<exists>qs. list_all2 param_denotes ps qs"
  using assms
proof (induction ps)
  case Nil
  have "list_all2 param_denotes [] []"
    by simp
  then show ?case ..
next
  case (Cons p ps)
  then obtain qs where "list_all2 param_denotes ps qs" "well_typed p"
    by auto
  moreover obtain q where "param_denotes p q"
    using \<open>well_typed p\<close> by (rule well_typedE)
  ultimately have "list_all2 param_denotes (p # ps) (q # qs)"
    by simp
  then show ?case ..
qed

text \<open>An assignment changes values only.\<close>

lemma assign_names: "map (\<lambda>(n, k, x). (n, k)) (fst (fold (assign cb) kvs st)) = map (\<lambda>(n, k, x). (n, k)) (fst st)"
proof (induction kvs arbitrary: st)
  case (Cons kv kvs)
  have "map (\<lambda>(n, k, x). (n, k)) (fst (assign cb kv st)) = map (\<lambda>(n, k, x). (n, k)) (fst st)"
    by (cases kv; cases st)
       (auto simp: assign_def map_update split: option.splits sum.splits prod.splits intro!: list_update_same_conv [THEN iffD2]
         dest!: position_less)
  with Cons show ?case
    by simp
qed simp

lemma denotes_same:
  assumes "list_all2 param_denotes ps qs" "list_all2 param_denotes ps' qs'"
    and "map (\<lambda>(n, k, x). (n, k)) qs' = map (\<lambda>(n, k, x). (n, k)) qs"
  shows "list_all2 (\<lambda>p p'. bytes (p_name p') = bytes (p_name p) \<and> p_ops p' = p_ops p \<and> well_typed p') ps ps'"
proof (rule list_all2_all_nthI)
  show len: "length ps = length ps'"
    using assms by (metis length_map list_all2_lengthD)
  fix i
  assume i: "i < length ps"
  with assms(1,2) len have lens: "i < length qs" "i < length qs'" "param_denotes (ps ! i) (qs ! i)" "param_denotes (ps' ! i) (qs' ! i)"
    by (auto simp: list_all2_conv_all_nth)
  then have "(\<lambda>(n, k, x). (n, k)) (qs' ! i) = (\<lambda>(n, k, x). (n, k)) (qs ! i)"
    using arg_cong [OF assms(3), of "\<lambda>xs. xs ! i"] by simp
  then have "fst (qs' ! i) = fst (qs ! i)" "fst (snd (qs' ! i)) = fst (snd (qs ! i))"
    by (simp_all split: prod.splits)
  with lens show "bytes (p_name (ps' ! i)) = bytes (p_name (ps ! i)) \<and> p_ops (ps' ! i) = p_ops (ps ! i) \<and> well_typed (ps' ! i)"
    by (simp add: param_denotes_def denotes_well_typed [OF lens(4)])
qed

lemma cmdline_parse_types:
  assumes "wf_str cmdline" "\<forall>p \<in> set params. well_typed p"
  shows "\<exists>rest params' events. cmdline_parse cmdline params cb = Inr (rest, params', events) \<and>
    list_all2 (\<lambda>p p'. bytes (p_name p') = bytes (p_name p) \<and> p_ops p' = p_ops p \<and> well_typed p') params params'"
proof -
  obtain qs where qs: "list_all2 param_denotes params qs"
    using all_denote [OF assms(2)] by blast
  let ?fin = "fold (assign cb) (fst (tokens (trim (bytes cmdline)))) (qs, [])"
  obtain rest params' events where run: "cmdline_parse cmdline params cb = Inr (rest, params', events)"
      "state_denotes (params', events) ?fin"
    using cmdline_parse_denotes [OF assms(1) qs] by blast
  then have "list_all2 param_denotes params' (fst ?fin)"
    by (cases ?fin) simp
  from denotes_same [OF qs this] assign_names [of cb _ "(qs, [])"] run(1) show ?thesis
    by simp
qed

text \<open>
  C24: Parsing a command line keeps every parameter within its type: the operations of a parameter stay those of the type of
  its variable, and the variable holds a value of that type. So reading any of them afterwards, with room for the text and
  its terminator, succeeds and gives the text of the value.
\<close>

theorem parameters_keep_their_types:
  assumes "wf_str cmdline" "\<forall>p \<in> set params. well_typed p"
  shows "\<exists>rest params' events. cmdline_parse cmdline params cb = Inr (rest, params', events) \<and>
    list_all2 (\<lambda>p p'. bytes (p_name p') = bytes (p_name p) \<and> p_ops p' = p_ops p \<and> well_typed p') params params' \<and>
    (\<forall>p' \<in> set params'. \<forall>cap buf. length (shown_value (p_value p')) < cap \<and> cap \<le> length buf \<longrightarrow>
      (\<exists>buf' n. op_get (p_ops p') (p_value p') buf cap = Inr (buf', n, n) \<and> take n buf' = shown_value (p_value p')))"
proof -
  obtain rest params' events where run: "cmdline_parse cmdline params cb = Inr (rest, params', events)"
      "list_all2 (\<lambda>p p'. bytes (p_name p') = bytes (p_name p) \<and> p_ops p' = p_ops p \<and> well_typed p') params params'"
    using cmdline_parse_types [OF assms] by blast
  have "\<exists>buf' n. op_get (p_ops p') (p_value p') buf cap = Inr (buf', n, n) \<and> take n buf' = shown_value (p_value p')"
    if p': "p' \<in> set params'" and room: "length (shown_value (p_value p')) < cap" "cap \<le> length buf" for p' cap buf
  proof -
    from run(2) p' have "well_typed p'"
      by (auto simp: list_all2_conv_all_nth in_set_conv_nth)
    then obtain k where "p_ops p' = ops_of_kind k" "has_kind k (p_value p')"
      by (auto simp: well_typed_def)
    with kind.get_shown [OF this(2) room] show ?thesis
      by auto
  qed
  with run show ?thesis
    by blast
qed

text \<open>
  C25: What a parameter shows can be given back to it: with a buffer that holds the text and its terminator, \<^verbatim>\<open>get\<close>
  followed by \<^verbatim>\<open>set\<close> on the text leaves the value, for every type; the base of a number is found from its text.
\<close>

theorem param_get_set_roundtrip:
  assumes "has_kind k v" "length (shown_value v) < cap" "cap \<le> length buf"
  shows "\<exists>buf' n v'. op_get (ops_of_kind k) v buf cap = Inr (buf', n, n) \<and>
    op_set (ops_of_kind k) \<lparr>str_text = Ptr buf', str_size = n\<rparr> = Inr (Inr v') \<and> plain_of v' = plain_of v"
  using assms by (rule kind.get_set)

text \<open>A flag that is named without a value, and a number given in hexadecimal.\<close>

theorem parameters_keep_their_types_witness:
  "\<exists>rest params' events. cmdline_parse (STR_CONSTEXPR ''quiet level=0x1f'')
      [\<lparr>p_name = STR_CONSTEXPR ''quiet'', p_ops = g_param_bool_ops, p_value = Val_bool False\<rparr>,
       \<lparr>p_name = STR_CONSTEXPR ''level'', p_ops = g_param_u8_ops, p_value = Val_u8 0\<rparr>] True = Inr (rest, params', events) \<and>
    map p_value params' = [Val_bool True, Val_u8 31] \<and> map p_ops params' = [g_param_bool_ops, g_param_u8_ops] \<and>
    (\<exists>buf' n. op_get g_param_u8_ops (Val_u8 31) ''.....'' 5 = Inr (buf', n, n) \<and> take n buf' = ''31'')"
proof -
  let ?params = "[\<lparr>p_name = STR_CONSTEXPR ''quiet'', p_ops = g_param_bool_ops, p_value = Val_bool False\<rparr>,
       \<lparr>p_name = STR_CONSTEXPR ''level'', p_ops = g_param_u8_ops, p_value = Val_u8 0\<rparr>]"
  have "ops_of_kind K_bool = g_param_bool_ops" "ops_of_kind K_u8 = g_param_u8_ops" "has_kind K_bool (Val_bool False)" "has_kind K_u8 (Val_u8 0)"
    by simp_all
  then have "\<forall>p \<in> set ?params. well_typed p"
    unfolding well_typed_def by (simp, metis)
  from parameters_keep_their_types [OF wf_STR_CONSTEXPR this, of "''quiet level=0x1f''" True]
  obtain rest params' events where run: "cmdline_parse (STR_CONSTEXPR ''quiet level=0x1f'') ?params True = Inr (rest, params', events)"
      "list_all2 (\<lambda>p p'. bytes (p_name p') = bytes (p_name p) \<and> p_ops p' = p_ops p \<and> well_typed p') ?params params'"
      and get: "\<forall>p' \<in> set params'. \<forall>cap buf. length (shown_value (p_value p')) < cap \<and> cap \<le> length buf \<longrightarrow>
        (\<exists>buf' n. op_get (p_ops p') (p_value p') buf cap = Inr (buf', n, n) \<and> take n buf' = shown_value (p_value p'))"
    by blast
  have "map_sum id (\<lambda>(rest, params, events). map p_value params) (cmdline_parse (STR_CONSTEXPR ''quiet level=0x1f'') ?params True)
      = Inr [Val_bool True, Val_u8 31]"
    by code_simp
  with run(1) have vals: "map p_value params' = [Val_bool True, Val_u8 31]"
    by simp
  moreover from run(2) have ops: "map p_ops params' = [g_param_bool_ops, g_param_u8_ops]"
    by (auto simp: list_all2_Cons1)
  moreover have "shown_value (Val_u8 31) = ''31''"
    by code_simp
  moreover obtain p' where "p' \<in> set params'" "p_value p' = Val_u8 31" "p_ops p' = g_param_u8_ops"
    using vals ops by (cases params'; cases "tl params'") auto
  ultimately have "\<exists>buf' n. op_get g_param_u8_ops (Val_u8 31) ''.....'' 5 = Inr (buf', n, n) \<and> take n buf' = ''31''"
    using get [rule_format, of p' 5 "''.....''"] by simp
  with run(1) vals ops show ?thesis
    by (intro exI [of _ rest] exI [of _ params'] exI [of _ events] conjI)
qed

theorem param_get_set_roundtrip_witness:
  "\<exists>buf' n v'. op_get g_param_i8_ops (Val_i8 (- 5)) ''....'' 4 = Inr (buf', n, n) \<and>
    op_set g_param_i8_ops \<lparr>str_text = Ptr buf', str_size = n\<rparr> = Inr (Inr v') \<and> plain_of v' = Number (- 5)"
proof -
  have "shown_value (Val_i8 (- 5)) = ''-5''"
    by code_simp
  then show ?thesis
    using param_get_set_roundtrip [of K_i8 "Val_i8 (- 5)" 4 "''....''"] by simp
qed

section \<open>Findings\<close>

text \<open>
  When the text of a number does not fit, \<^verbatim>\<open>get\<close> counts the terminator that cuts it as a character of the string: the size is
  that of the whole buffer, and its last character is the zero.
\<close>

lemma cut_number_ends_in_zero:
  "op_get g_param_i32_ops (Val_i32 12345) ''...'' 3 = Inr (''12'' @ [NUL], 3, 5)"
  by code_simp

end
