(* ===== verification/Memory.thy ===== *)
theory Memory
  imports Prelude
begin

text \<open>
  Memory as the kernel's byte accesses see it: a partial map from addresses to bytes, undefined
  where no object is. \<^verbatim>\<open>kernel/common/string.c\<close> is modelled on it, and reading a little-endian
  value, which the unwinder does with \<^verbatim>\<open>memcpy\<close> into an integer.
\<close>

type_synonym memory = "64 word \<Rightarrow> 8 word option"

definition load8 :: "memory \<Rightarrow> 64 word \<Rightarrow> 8 word res" where
  "load8 m a = (case m a of None \<Rightarrow> Inl Wild | Some b \<Rightarrow> Inr b)"

definition store8 :: "memory \<Rightarrow> 64 word \<Rightarrow> 8 word \<Rightarrow> memory res" where
  "store8 m a b = (case m a of None \<Rightarrow> Inl Wild | Some _ \<Rightarrow> Inr (m(a \<mapsto> b)))"

section \<open>Copying, filling and comparing\<close>

fun memcpy :: "memory \<Rightarrow> 64 word \<Rightarrow> 64 word \<Rightarrow> nat \<Rightarrow> memory res" where
  "memcpy m cd cs 0 = Inr m"
| "memcpy m cd cs (Suc count) =
     bind_res (load8 m cs) (\<lambda>b. bind_res (store8 m cd b) (\<lambda>m'. memcpy m' (cd + 1) (cs + 1) count))"

text \<open>The loop of \<^verbatim>\<open>memmove\<close> that runs from the end.\<close>

fun memmove_down :: "memory \<Rightarrow> 64 word \<Rightarrow> 64 word \<Rightarrow> nat \<Rightarrow> memory res" where
  "memmove_down m cd cs 0 = Inr m"
| "memmove_down m cd cs (Suc count) =
     bind_res (load8 m (cs - 1)) (\<lambda>b. bind_res (store8 m (cd - 1) b) (\<lambda>m'. memmove_down m' (cd - 1) (cs - 1) count))"

definition memmove :: "memory \<Rightarrow> 64 word \<Rightarrow> 64 word \<Rightarrow> nat \<Rightarrow> memory res" where
  "memmove m dest src count =
     (if src < dest then memmove_down m (dest + of_nat count) (src + of_nat count) count
      else memcpy m dest src count)"

fun memset_loop :: "memory \<Rightarrow> 64 word \<Rightarrow> 8 word \<Rightarrow> nat \<Rightarrow> memory res" where
  "memset_loop m cdest fill 0 = Inr m"
| "memset_loop m cdest fill (Suc count) = bind_res (store8 m cdest fill) (\<lambda>m'. memset_loop m' (cdest + 1) fill count)"

definition memset :: "memory \<Rightarrow> 64 word \<Rightarrow> 32 word \<Rightarrow> nat \<Rightarrow> memory res" where
  "memset m dest ch count = memset_loop m dest (ucast ch) count"

definition memzero :: "memory \<Rightarrow> 64 word \<Rightarrow> nat \<Rightarrow> memory res" where
  "memzero m dest count = memset m dest 0 count"

fun memcmp :: "memory \<Rightarrow> 64 word \<Rightarrow> 64 word \<Rightarrow> nat \<Rightarrow> int res" where
  "memcmp m lhs rhs 0 = Inr 0"
| "memcmp m lhs rhs (Suc count) =
     bind_res (load8 m lhs) (\<lambda>l. bind_res (load8 m rhs) (\<lambda>r.
       if l \<noteq> r then Inr (uint l - uint r) else memcmp m (lhs + 1) (rhs + 1) count))"

section \<open>Regions\<close>

text \<open>\<open>region a n\<close>: the \<open>n\<close> addresses from \<open>a\<close> on; \<open>fits_memory\<close>: it does not wrap around.\<close>

definition region :: "64 word \<Rightarrow> nat \<Rightarrow> 64 word set" where
  "region a n = {x. unat (x - a) < n}"

definition fits_memory :: "64 word \<Rightarrow> nat \<Rightarrow> bool" where
  "fits_memory a n \<longleftrightarrow> unat a + n \<le> 2 ^ 64"

definition mapped :: "memory \<Rightarrow> 64 word \<Rightarrow> nat \<Rightarrow> bool" where
  "mapped m a n \<longleftrightarrow> region a n \<subseteq> dom m"

lemma unat_diff_Suc:
  fixes x a :: "64 word"
  assumes "x \<noteq> a"
  shows "unat (x - a) = Suc (unat (x - (a + 1)))"
proof -
  from assms have "x - a \<noteq> 0" by simp
  then have "unat (x - a - 1) = unat (x - a) - 1"
    by (simp add: unat_minus_one)
  moreover from \<open>x - a \<noteq> 0\<close> have "0 < unat (x - a)"
    by (simp add: unat_gt_0)
  ultimately show ?thesis
    by (simp add: diff_diff_add)
qed

lemma unat_minus_1: "unat (- 1 :: 64 word) = 2 ^ 64 - 1"
  by (simp add: unsigned_minus_1_eq_mask mask_eq_exp_minus_1)

lemma start_not_in_rest: "n < 2 ^ 64 \<Longrightarrow> a \<notin> region (a + 1) n"
  using unat_minus_1 by (simp add: region_def)

lemma region_0 [simp]: "region a 0 = {}"
  by (simp add: region_def)

lemma region_Suc:
  assumes "n < 2 ^ 64"
  shows "region a (Suc n) = insert a (region (a + 1) n)"
proof (rule set_eqI)
  fix x
  show "x \<in> region a (Suc n) \<longleftrightarrow> x \<in> insert a (region (a + 1) n)"
    using unat_diff_Suc [of x a] by (cases "x = a") (simp_all add: region_def)
qed

lemma unat_offset:
  fixes x a :: "64 word"
  assumes "n < 2 ^ 64"
  shows "unat (x - a) = n \<longleftrightarrow> x = a + of_nat n"
proof
  assume "unat (x - a) = n"
  then have "x - a = of_nat n" by auto
  then show "x = a + of_nat n" by (simp add: algebra_simps)
qed (use assms in \<open>simp add: unsigned_of_nat take_bit_nat_eq_self\<close>)

lemma region_last: "n < 2 ^ 64 \<Longrightarrow> region a (Suc n) = insert (a + of_nat n) (region a n)"
  by (auto simp: region_def less_Suc_eq unat_offset)

lemma mapped_Suc: "n < 2 ^ 64 \<Longrightarrow> mapped m a (Suc n) \<longleftrightarrow> a \<in> dom m \<and> mapped m (a + 1) n"
  by (simp add: mapped_def region_Suc)

lemma mapped_last: "n < 2 ^ 64 \<Longrightarrow> mapped m a (Suc n) \<longleftrightarrow> a + of_nat n \<in> dom m \<and> mapped m a n"
  by (simp add: mapped_def region_last)

lemma mapped_update [simp]: "d \<in> dom m \<Longrightarrow> mapped (m(d \<mapsto> b)) a n \<longleftrightarrow> mapped m a n"
  by (simp add: mapped_def insert_absorb)

section \<open>What the loops do\<close>

text \<open>\<open>copied m d s n\<close>: the memory in which \<open>n\<close> bytes at \<open>d\<close> are those \<open>m\<close> has at \<open>s\<close>.\<close>

definition copied :: "memory \<Rightarrow> 64 word \<Rightarrow> 64 word \<Rightarrow> nat \<Rightarrow> memory" where
  "copied m d s n = (\<lambda>x. if x \<in> region d n then m (s + (x - d)) else m x)"

lemma memcpy_eq:
  assumes "n \<le> 2 ^ 64" "mapped m s n" "mapped m d n"
    and "\<And>i j. j < i \<Longrightarrow> i < n \<Longrightarrow> s + of_nat i \<noteq> d + of_nat j"
  shows "memcpy m d s n = Inr (copied m d s n)"
  using assms
proof (induction n arbitrary: m d s)
  case (Suc n)
  then have n: "n < 2 ^ 64" by simp
  from Suc.prems obtain b where b: "m s = Some b" and d: "d \<in> dom m"
    by (auto simp: mapped_Suc [OF n])
  let ?m = "m(d \<mapsto> b)"
  have "memcpy ?m (d + 1) (s + 1) n = Inr (copied ?m (d + 1) (s + 1) n)"
  proof (rule Suc.IH)
    show "mapped ?m (s + 1) n" "mapped ?m (d + 1) n"
      using Suc.prems(2,3) d by (simp_all add: mapped_Suc [OF n])
    show "s + 1 + of_nat i \<noteq> d + 1 + of_nat j" if "j < i" "i < n" for i j
      using Suc.prems(4) [of "Suc j" "Suc i"] that by (simp add: algebra_simps)
  qed (use n in simp)
  moreover have "copied ?m (d + 1) (s + 1) n = copied m d s (Suc n)"
  proof
    fix x
    have "s + (x - d) \<noteq> d" if "x \<noteq> d" "x \<in> region (d + 1) n"
    proof -
      define k where "k = unat (x - (d + 1))"
      from that have k: "k < n" "x = d + 1 + of_nat k"
        using unat_offset [of k x "d + 1"] n by (auto simp: region_def k_def)
      with Suc.prems(4) [of 0 "Suc k"] show ?thesis
        by (simp add: algebra_simps)
    qed
    with b n show "copied ?m (d + 1) (s + 1) n x = copied m d s (Suc n) x"
      using start_not_in_rest [OF n, of d] by (auto simp: copied_def region_Suc algebra_simps)
  qed
  ultimately show ?case
    using b d by (auto simp: load8_def store8_def split: option.splits)
qed (simp add: copied_def)

lemma memmove_down_eq:
  assumes "n \<le> 2 ^ 64" "mapped m s n" "mapped m d n"
    and "\<And>i j. i < j \<Longrightarrow> j < n \<Longrightarrow> s + of_nat i \<noteq> d + of_nat j"
  shows "memmove_down m (d + of_nat n) (s + of_nat n) n = Inr (copied m d s n)"
  using assms
proof (induction n arbitrary: m)
  case (Suc n)
  then have n: "n < 2 ^ 64" by simp
  from Suc.prems obtain b where b: "m (s + of_nat n) = Some b" and d: "d + of_nat n \<in> dom m"
    by (auto simp: mapped_last [OF n])
  let ?m = "m(d + of_nat n \<mapsto> b)"
  have "memmove_down ?m (d + of_nat n) (s + of_nat n) n = Inr (copied ?m d s n)"
  proof (rule Suc.IH)
    show "mapped ?m s n" "mapped ?m d n"
      using Suc.prems(2,3) d by (simp_all add: mapped_last [OF n])
  qed (use n Suc.prems(4) in auto)
  moreover have "copied ?m d s n = copied m d s (Suc n)"
  proof
    fix x
    have "s + (x - d) \<noteq> d + of_nat n" if "x \<in> region d n"
    proof -
      define k where "k = unat (x - d)"
      from that have k: "k < n" "x = d + of_nat k"
        using unat_offset [of k x d] n by (auto simp: region_def k_def)
      with Suc.prems(4) [of k n] show ?thesis
        by simp
    qed
    moreover have "d + of_nat n \<notin> region d n"
      using n by (simp add: region_def unsigned_of_nat take_bit_nat_eq_self)
    ultimately show "copied ?m d s n x = copied m d s (Suc n) x"
      using b n by (auto simp: copied_def region_last)
  qed
  ultimately show ?case
    using b d by (auto simp: load8_def store8_def algebra_simps split: option.splits)
qed (simp add: copied_def)

lemma offsets_no_wrap:
  fixes a :: "64 word"
  assumes "fits_memory a n" "i < n"
  shows "unat (a + of_nat i) = unat a + i"
  using assms by (simp add: fits_memory_def unat_word_ariths unsigned_of_nat take_bit_nat_eq_self)

text \<open>
  C37: \<^verbatim>\<open>memmove\<close> copies \<open>count\<close> bytes also when the two regions overlap: afterwards the destination
  holds the bytes the source held before, and nothing else has changed.
\<close>

theorem memmove_exact:
  assumes "fits_memory src n" "fits_memory dest n" "mapped m src n" "mapped m dest n"
  shows "memmove m dest src n = Inr (copied m dest src n)"
proof -
  have n: "n \<le> 2 ^ 64" using assms(1) by (simp add: fits_memory_def)
  have eq: "src + of_nat i = dest + of_nat j \<longleftrightarrow> unat src + i = unat dest + j" if "i < n" "j < n" for i j
    using offsets_no_wrap [OF assms(1) that(1)] offsets_no_wrap [OF assms(2) that(2)]
    by (simp add: word_unat_eq_iff)
  show ?thesis
  proof (cases "src < dest")
    case True
    then have "unat src < unat dest" by (simp add: word_less_nat_alt)
    with True n assms(3,4) show ?thesis
      unfolding memmove_def by (auto simp: eq intro!: memmove_down_eq)
  next
    case False
    then have "unat dest \<le> unat src" by (simp add: word_less_nat_alt)
    with False n assms(3,4) show ?thesis
      unfolding memmove_def by (auto simp: eq intro!: memcpy_eq)
  qed
qed

theorem memmove_exact_witness:
  "memmove (\<lambda>x. if x < 4 then Some (ucast x) else None) 1 0 3 =
    Inr (copied (\<lambda>x. if x < 4 then Some (ucast x) else None) 1 0 3)"
  by (rule memmove_exact)
     (auto simp: fits_memory_def mapped_def region_def word_less_nat_alt dom_def unat_sub_if' split: if_splits)

section \<open>Reading little-endian values\<close>

fun load_bytes :: "memory \<Rightarrow> 64 word \<Rightarrow> nat \<Rightarrow> 8 word list res" where
  "load_bytes m a 0 = Inr []"
| "load_bytes m a (Suc n) = bind_res (load8 m a) (\<lambda>b. bind_res (load_bytes m (a + 1) n) (\<lambda>bs. Inr (b # bs)))"

fun le_nat :: "8 word list \<Rightarrow> nat" where
  "le_nat [] = 0"
| "le_nat (b # bs) = unat b + 256 * le_nat bs"

definition load_le :: "memory \<Rightarrow> 64 word \<Rightarrow> nat \<Rightarrow> 64 word res" where
  "load_le m a n = bind_res (load_bytes m a n) (\<lambda>bs. Inr (of_nat (le_nat bs)))"

fun le_bytes :: "nat \<Rightarrow> nat \<Rightarrow> 8 word list" where
  "le_bytes 0 v = []"
| "le_bytes (Suc n) v = of_nat (v mod 256) # le_bytes n (v div 256)"

fun holds_bytes :: "memory \<Rightarrow> 64 word \<Rightarrow> 8 word list \<Rightarrow> bool" where
  "holds_bytes m a [] = True"
| "holds_bytes m a (b # bs) \<longleftrightarrow> m a = Some b \<and> holds_bytes m (a + 1) bs"

lemma length_le_bytes [simp]: "length (le_bytes n v) = n"
  by (induction n arbitrary: v) simp_all

lemma le_nat_le_bytes [simp]: "le_nat (le_bytes n v) = v mod 256 ^ n"
proof (induction n arbitrary: v)
  case (Suc n)
  have "v mod 256 + 256 * (v div 256 mod 256 ^ n) = v mod (256 * 256 ^ n)"
    by (simp add: mod_mult2_eq)
  with Suc show ?case
    by (simp add: unsigned_of_nat take_bit_eq_mod)
qed simp

lemma holds_bytes_append:
  "holds_bytes m a (bs @ cs) \<longleftrightarrow> holds_bytes m a bs \<and> holds_bytes m (a + of_nat (length bs)) cs"
  by (induction bs arbitrary: a) (auto simp: algebra_simps)

lemma load_bytes_holds: "holds_bytes m a bs \<Longrightarrow> load_bytes m a (length bs) = Inr bs"
  by (induction bs arbitrary: a) (simp_all add: load8_def)

lemma load_le_holds: "holds_bytes m a bs \<Longrightarrow> length bs = n \<Longrightarrow> load_le m a n = Inr (of_nat (le_nat bs))"
  using load_bytes_holds by (fastforce simp: load_le_def)

text \<open>A memory with one object.\<close>

definition bytes_at :: "64 word \<Rightarrow> 8 word list \<Rightarrow> memory" where
  "bytes_at base bs = (\<lambda>a. if unat (a - base) < length bs then Some (bs ! unat (a - base)) else None)"

lemma holds_bytes_at_offset:
  "length bs < 2 ^ 64 \<Longrightarrow> ys = drop i bs \<Longrightarrow> i \<le> length bs \<Longrightarrow> holds_bytes (bytes_at a bs) (a + of_nat i) ys"
proof (induction ys arbitrary: i)
  case (Cons y ys)
  have len: "i < length bs"
    by (rule ccontr) (use Cons.prems in simp)
  with Cons.prems have i: "i < length bs" "y = bs ! i" "ys = drop (Suc i) bs"
    by (simp_all add: drop_eq_Cons_nth)
  have "unat (of_nat i :: 64 word) = i"
    using i(1) Cons.prems(1) by (simp add: unsigned_of_nat take_bit_nat_eq_self)
  moreover have "holds_bytes (bytes_at a bs) (a + of_nat (Suc i)) ys"
    using Cons.IH [of "Suc i"] Cons.prems(1) i by simp
  ultimately show ?case
    using i(1,2) by (simp add: bytes_at_def algebra_simps)
qed simp

lemma holds_bytes_at: "length bs < 2 ^ 64 \<Longrightarrow> holds_bytes (bytes_at a bs) a bs"
  using holds_bytes_at_offset [of bs bs 0 a] by simp

end
