(* ===== verification/Search.thy ===== *)
theory Search
  imports Prelude
begin

text \<open>
  The binary search that \<^verbatim>\<open>symbol_lookup_by_address\<close> and \<^verbatim>\<open>find_fde\<close> share: over an ascending
  table, halve an interval until it holds one entry, the last one that is not above the value.
  \<open>bisection\<close> states what a loop of the code has to do in one round, and its lemma \<open>search\<close> what
  such a loop finds; the loops of the two components are its interpretations.
\<close>

section \<open>The midpoint of an interval of machine integers\<close>

lemma unat_half:
  assumes "1 < LENGTH('a::len)"
  shows "unat ((x::'a word) div 2) = unat x div 2"
proof -
  from assms have "unat (2::'a word) = 2"
    using power_strict_increasing [of 1 "LENGTH('a)" "2::nat"]
    by (simp add: unsigned_numeral take_bit_eq_mod)
  then show ?thesis by (simp add: unat_div)
qed

lemma midpoint:
  fixes lo hi :: "'a::len word"
  assumes "1 < LENGTH('a)"
  shows "unat (lo + (hi - lo) div 2 - lo) = unat (hi - lo) div 2"
    and "unat (hi - (lo + (hi - lo) div 2)) = unat (hi - lo) - unat (hi - lo) div 2"
proof -
  have sub: "unat (d - d div 2) = unat d - unat d div 2" for d :: "'a word"
    using unat_half [OF assms, of d] by (simp add: unat_sub_if_size)
  have "hi - (lo + (hi - lo) div 2) = (hi - lo) - (hi - lo) div 2"
    by simp
  then show "unat (hi - (lo + (hi - lo) div 2)) = unat (hi - lo) - unat (hi - lo) div 2"
    by (simp only: sub)
qed (use unat_half [OF assms, of "hi - lo"] in simp)

text \<open>The same for an interval read as naturals.\<close>

lemma midpoint_of_nat:
  assumes "1 < LENGTH('a::len)" "lo \<le> hi" "hi < 2 ^ LENGTH('a)"
  shows "of_nat lo + (of_nat hi - of_nat lo) div 2 = (of_nat (lo + (hi - lo) div 2) :: 'a word)"
    and "(1 :: 'a word) < of_nat hi - of_nat lo \<longleftrightarrow> lo + 1 < hi"
proof -
  have d: "of_nat hi - of_nat lo = (of_nat (hi - lo) :: 'a word)"
    using assms(2) by (simp add: of_nat_diff)
  have "unat (of_nat (hi - lo) div 2 :: 'a word) = unat (of_nat ((hi - lo) div 2) :: 'a word)"
    using assms by (simp add: unat_half unsigned_of_nat take_bit_nat_eq_self del: of_nat_diff)
  then show "of_nat lo + (of_nat hi - of_nat lo) div 2 = (of_nat (lo + (hi - lo) div 2) :: 'a word)"
    by (simp add: d word_unat_eq_iff [symmetric])
  have "(2::nat) ^ 0 < 2 ^ LENGTH('a)"
    using assms(1) by (intro power_strict_increasing) auto
  then show "(1 :: 'a word) < of_nat hi - of_nat lo \<longleftrightarrow> lo + 1 < hi"
    using assms by (simp add: d word_less_nat_alt unsigned_of_nat take_bit_nat_eq_self less_diff_conv del: of_nat_diff)
qed

section \<open>The search\<close>

locale bisection =
  fixes loop :: "nat \<Rightarrow> nat \<Rightarrow> 'r"
    and readable :: "nat \<Rightarrow> bool"
    and not_above :: "nat \<Rightarrow> bool"
    and found :: "nat \<Rightarrow> 'r"
    and limit :: nat
  assumes step: "lo + 1 < hi \<Longrightarrow> hi < limit \<Longrightarrow> readable (lo + (hi - lo) div 2) \<Longrightarrow>
      loop lo hi = (if not_above (lo + (hi - lo) div 2) then loop (lo + (hi - lo) div 2) hi
                    else loop lo (lo + (hi - lo) div 2))"
    and done_: "lo \<le> hi \<Longrightarrow> hi \<le> lo + 1 \<Longrightarrow> hi < limit \<Longrightarrow> loop lo hi = found lo"
begin

text \<open>The entry found in an ascending table: every later one is above, and it is not, unless it is
  the first.\<close>

definition last_not_above :: "nat \<Rightarrow> nat \<Rightarrow> bool" where
  "last_not_above n i \<longleftrightarrow> i < n \<and> (not_above i \<or> i = 0) \<and> (\<forall>j. i < j \<and> j < n \<longrightarrow> \<not> not_above j)"

lemma search_between:
  assumes "hi < limit" "lo < hi" "hi \<le> n" "\<And>i. i < n \<Longrightarrow> readable i"
    and "\<And>i j. i < j \<Longrightarrow> j < n \<Longrightarrow> not_above j \<Longrightarrow> not_above i"
    and "not_above lo \<or> lo = 0" "\<And>j. hi \<le> j \<Longrightarrow> j < n \<Longrightarrow> \<not> not_above j"
  shows "\<exists>i. loop lo hi = found i \<and> last_not_above n i"
  using assms
proof (induction "hi - lo" arbitrary: lo hi rule: less_induct)
  case less
  let ?mid = "lo + (hi - lo) div 2"
  show ?case
  proof (cases "lo + 1 < hi")
    case False
    with less.prems have "hi = lo + 1" by simp
    with less.prems show ?thesis
      by (auto simp: done_ last_not_above_def)
  next
    case True
    then have mid: "lo < ?mid" "?mid < hi" by (auto simp: less_diff_conv)
    have eq: "loop lo hi = (if not_above ?mid then loop ?mid hi else loop lo ?mid)"
      using less.prems True mid by (intro step) auto
    show ?thesis
    proof (cases "not_above ?mid")
      case nb: True
      show ?thesis
        using less.hyps [of hi ?mid] less.prems mid nb eq by auto
    next
      case above: False
      have "\<not> not_above j" if "?mid \<le> j" "j < n" for j
        using less.prems(5) [of ?mid j] that above by (cases "j = ?mid") auto
      then show ?thesis
        using less.hyps [of ?mid lo] less.prems mid above eq by auto
    qed
  qed
qed

lemma search:
  assumes "n < limit" "0 < n" "\<And>i. i < n \<Longrightarrow> readable i"
    and "\<And>i j. i < j \<Longrightarrow> j < n \<Longrightarrow> not_above j \<Longrightarrow> not_above i"
  obtains i where "loop 0 n = found i" "last_not_above n i"
  using search_between [of n 0 n] assms by auto

end

end
