(* ===== verification/Unwind.thy ===== *)
theory Unwind
  imports Memory Search
begin

text \<open>
  The stack unwinder, \<^verbatim>\<open>kernel/unwind.c\<close>: it reads the DWARF call frame information that the
  linker puts into the image, finds the entry of the function a return address lies in, runs the
  entry's instructions up to that address, and recovers the registers of the caller. Memory is
  only read. The model is the one for x86-64: 17 registers, little-endian, 64-bit pointers.

  An \<^verbatim>\<open>error_t\<close> is its number, 0 (\<^verbatim>\<open>EOK\<close>) when there is none, because the code also makes error
  numbers out of addresses. A function that may fail half-way and leaves its data changed is a
  \<open>run\<close>: it returns the error or its result with the state it has reached.
\<close>

section \<open>Sequencing with early returns\<close>

type_synonym error_t = "32 word"

definition E :: "errno \<Rightarrow> error_t" where
  "E e = of_nat (errno_code e)"

type_synonym ('s, 'a) run = "'s \<Rightarrow> ((error_t + 'a) \<times> 's) res"

definition ok :: "'a \<Rightarrow> ('s, 'a) run" where
  "ok x s = Inr (Inr x, s)"

definition fail :: "error_t \<Rightarrow> ('s, 'a) run" where
  "fail e s = Inr (Inl e, s)"

definition run_bind :: "('s, 'a) run \<Rightarrow> ('a \<Rightarrow> ('s, 'b) run) \<Rightarrow> ('s, 'b) run" where
  "run_bind m f s = bind_res (m s) (\<lambda>(r, s'). case r of Inl e \<Rightarrow> Inr (Inl e, s') | Inr x \<Rightarrow> f x s')"

definition run_seq :: "('s, unit) run \<Rightarrow> ('s, 'b) run \<Rightarrow> ('s, 'b) run" where
  "run_seq m n = run_bind m (\<lambda>_. n)"

text \<open>\<^verbatim>\<open>if (unlikely(!cond)) return e;\<close>\<close>

definition check :: "bool \<Rightarrow> errno \<Rightarrow> ('s, unit) run" where
  "check cond e = (if cond then ok () else fail (E e))"

lemma case_sum_eq_iff:
  "(case r of Inl e \<Rightarrow> f e | Inr x \<Rightarrow> g x) = y \<longleftrightarrow> (\<exists>e. r = Inl e \<and> f e = y) \<or> (\<exists>x. r = Inr x \<and> g x = y)"
  by (cases r) auto

lemma run_bind_InrE:
  assumes "run_bind m f s = Inr (r, s')"
  obtains (early) e where "m s = Inr (Inl e, s')" "r = Inl e"
  | (go) x s1 where "m s = Inr (Inr x, s1)" "f x s1 = Inr (r, s')"
  using assms by (auto simp: run_bind_def bind_res_Inr_iff case_sum_eq_iff)

section \<open>The data\<close>

record eh_data =
  cursor :: "64 word"
  bytes_left :: "64 word"

text \<open>What the unwinder reads: memory, and the addresses the linker script defines.\<close>

record eh_image =
  image_mem :: memory
  text_begin :: "64 word"
  eh_frame_hdr_begin :: "64 word"
  eh_frame_hdr_end :: "64 word"
  eh_frame_begin :: "64 word"

definition ARCH_NUM_DWARF_REGISTERS :: nat where "ARCH_NUM_DWARF_REGISTERS = 17"
definition ARCH_DWARF_PC_REG :: nat where "ARCH_DWARF_PC_REG = 16"
definition DWARF_SP_REG :: nat where "DWARF_SP_REG = 7"

record unwind_state =
  frame :: "64 word list"
  code_alignment_factor :: "64 word"
  data_alignment_factor :: "64 word"
  cfa_offset :: "64 word"
  pc :: "64 word"
  pc_end :: "64 word"
  ret_reg_idx :: "8 word"
  cfa_reg_idx :: "8 word"
  at_end :: bool
  signal_frame :: bool
  fde_encoding :: "8 word"
  cie_code :: eh_data
  fde_code :: eh_data

text \<open>The variables of \<^verbatim>\<open>unwind.c\<close> that \<^verbatim>\<open>unwind_init\<close> sets.\<close>

record unwinder =
  g_unwinder_available :: bool
  g_fde_binary_search_table :: "64 word"
  g_fde_table_encoding :: "8 word"
  g_fde_table_entry_width :: "8 word"
  g_num_fdes :: "64 word"

section \<open>Consuming bytes\<close>

definition EH_CONSUME_RAW_UNACCOUNTED :: "memory \<Rightarrow> eh_data \<Rightarrow> nat \<Rightarrow> (64 word \<times> eh_data) res" where
  "EH_CONSUME_RAW_UNACCOUNTED m eh num_bytes =
     bind_res (load_le m (cursor eh) num_bytes) (\<lambda>v. Inr (v, eh\<lparr>cursor := cursor eh + of_nat num_bytes\<rparr>))"

definition EH_CONSUME_RAW_UNSAFE :: "memory \<Rightarrow> eh_data \<Rightarrow> nat \<Rightarrow> (64 word \<times> eh_data) res" where
  "EH_CONSUME_RAW_UNSAFE m eh num_bytes =
     bind_res (EH_CONSUME_RAW_UNACCOUNTED m eh num_bytes) (\<lambda>(v, eh').
       Inr (v, eh'\<lparr>bytes_left := bytes_left eh' - of_nat num_bytes\<rparr>))"

definition eh_consume :: "memory \<Rightarrow> nat \<Rightarrow> (eh_data, 64 word) run" where
  "eh_consume m size_dst eh =
     (if of_nat size_dst \<le> bytes_left eh
      then bind_res (EH_CONSUME_RAW_UNSAFE m eh size_dst) (\<lambda>(v, eh'). ok v eh')
      else fail (E ERANGE) eh)"

definition eh_data_init :: "memory \<Rightarrow> 64 word \<Rightarrow> eh_data res" where
  "eh_data_init m start =
     bind_res (EH_CONSUME_RAW_UNACCOUNTED m \<lparr>cursor = start, bytes_left = 0\<rparr> 4) (\<lambda>(len, eh).
       if len = 0xFFFFFFFF
       then bind_res (EH_CONSUME_RAW_UNACCOUNTED m eh 8) (\<lambda>(len', eh'). Inr (eh'\<lparr>bytes_left := len'\<rparr>))
       else Inr (eh\<lparr>bytes_left := len\<rparr>))"

lemma eh_consume_less:
  assumes "eh_consume m n eh = Inr (Inr v, eh')" "0 < n" "n < 2 ^ 64"
  shows "unat (bytes_left eh') < unat (bytes_left eh)"
proof -
  from assms have "of_nat n \<le> bytes_left eh" and left: "bytes_left eh' = bytes_left eh - of_nat n"
    by (auto simp: eh_consume_def EH_CONSUME_RAW_UNSAFE_def EH_CONSUME_RAW_UNACCOUNTED_def ok_def
        fail_def bind_res_Inr_iff split: if_splits)
  then have "n \<le> unat (bytes_left eh)"
    using assms(3) by (simp add: word_le_nat_alt unsigned_of_nat take_bit_nat_eq_self)
  with assms(2,3) left show ?thesis
    by (simp add: unat_sub_if_size unsigned_of_nat take_bit_nat_eq_self)
qed

section \<open>Decoding values\<close>

definition DW_EH_PE_SIGNED_DATA :: "8 word" where "DW_EH_PE_SIGNED_DATA = 0x08"
definition DW_EH_PE_absptr :: "8 word" where "DW_EH_PE_absptr = 0x00"
definition DW_EH_PE_uleb128 :: "8 word" where "DW_EH_PE_uleb128 = 0x01"
definition DW_EH_PE_udata2 :: "8 word" where "DW_EH_PE_udata2 = 0x02"
definition DW_EH_PE_udata4 :: "8 word" where "DW_EH_PE_udata4 = 0x03"
definition DW_EH_PE_udata8 :: "8 word" where "DW_EH_PE_udata8 = 0x04"
definition DW_EH_PE_sleb128 :: "8 word" where "DW_EH_PE_sleb128 = DW_EH_PE_SIGNED_DATA OR DW_EH_PE_uleb128"
definition DW_EH_PE_sdata2 :: "8 word" where "DW_EH_PE_sdata2 = DW_EH_PE_SIGNED_DATA OR DW_EH_PE_udata2"
definition DW_EH_PE_sdata4 :: "8 word" where "DW_EH_PE_sdata4 = DW_EH_PE_SIGNED_DATA OR DW_EH_PE_udata4"
definition DW_EH_PE_sdata8 :: "8 word" where "DW_EH_PE_sdata8 = DW_EH_PE_SIGNED_DATA OR DW_EH_PE_udata8"
definition DW_EH_PE_pcrel :: "8 word" where "DW_EH_PE_pcrel = 0x10"
definition DW_EH_PE_textrel :: "8 word" where "DW_EH_PE_textrel = 0x20"
definition DW_EH_PE_datarel :: "8 word" where "DW_EH_PE_datarel = 0x30"

lemmas DW_EH_PE_defs = DW_EH_PE_SIGNED_DATA_def DW_EH_PE_absptr_def DW_EH_PE_uleb128_def DW_EH_PE_udata2_def
  DW_EH_PE_udata4_def DW_EH_PE_udata8_def DW_EH_PE_sleb128_def DW_EH_PE_sdata2_def DW_EH_PE_sdata4_def
  DW_EH_PE_sdata8_def DW_EH_PE_pcrel_def DW_EH_PE_textrel_def DW_EH_PE_datarel_def

text \<open>\<^verbatim>\<open>(byte & LEB128_MAX_PER_BYTE) << num_bits\<close> is an \<^verbatim>\<open>int\<close>, which \<open>|=\<close> then sign-extends to 64
  bits; a shift by 32 or more is undefined.\<close>

definition leb_bits :: "8 word \<Rightarrow> 8 word \<Rightarrow> 64 word res" where
  "leb_bits byte num_bits =
     (if 32 \<le> num_bits then Inl Wild
      else Inr (scast (push_bit (unat num_bits) (ucast (byte AND LEB128_MAX_PER_BYTE) :: 32 word))))"

function leb_loop :: "memory \<Rightarrow> eh_data \<Rightarrow> 64 word \<Rightarrow> 8 word \<Rightarrow> ((error_t + 64 word \<times> 8 word) \<times> eh_data) res" where
  "leb_loop m data val num_bits =
     bind_res (eh_consume m 1 data) (\<lambda>(r, data'). case r of
         Inl e \<Rightarrow> Inr (Inl e, data')
       | Inr b \<Rightarrow>
           bind_res (leb_bits (ucast b) num_bits) (\<lambda>bits.
             if ucast b AND LEB128_HAS_NEXT_BYTE \<noteq> 0
             then leb_loop m data' (val OR bits) (num_bits + LEB128_BITS_PER_BYTE)
             else Inr (Inr (val OR bits, num_bits + LEB128_BITS_PER_BYTE), data')))"
  by pat_completeness auto
termination
  by (relation "measure (\<lambda>(m, data, val, num_bits). unat (bytes_left data))") (auto intro: eh_consume_less)

declare leb_loop.simps [simp del]

definition sign_extend :: "8 word \<Rightarrow> 64 word \<Rightarrow> 8 word \<Rightarrow> 64 word" where
  "sign_extend format val num_bits =
     (if format AND DW_EH_PE_SIGNED_DATA \<noteq> 0
      then let top = unat (num_bits - 1)
           in if val AND push_bit top 1 \<noteq> 0 then val OR push_bit top (- 1) else val
      else val)"

definition copy_data :: "memory \<Rightarrow> eh_data \<Rightarrow> 8 word \<Rightarrow> nat \<Rightarrow> ((error_t + 64 word) \<times> eh_data) res" where
  "copy_data m data format num_bytes =
     (if bytes_left data < of_nat num_bytes then fail (E EINVAL) data
      else bind_res (EH_CONSUME_RAW_UNSAFE m data num_bytes) (\<lambda>(val, data').
             ok (sign_extend format val (of_nat (num_bytes * 8))) data'))"

text \<open>\<^verbatim>\<open>decode_format\<close> gives the value that is added to \<^verbatim>\<open>*out_value\<close>.\<close>

definition decode_format :: "memory \<Rightarrow> 8 word \<Rightarrow> (eh_data, 64 word) run" where
  "decode_format m format data =
     (if format = DW_EH_PE_absptr then copy_data m data format 8
      else if format = DW_EH_PE_sleb128 \<or> format = DW_EH_PE_uleb128
      then run_bind (\<lambda>data. leb_loop m data 0 0) (\<lambda>(val, num_bits). ok (sign_extend format val num_bits)) data
      else if format = DW_EH_PE_udata8 \<or> format = DW_EH_PE_sdata8 then copy_data m data format 8
      else if format = DW_EH_PE_udata4 \<or> format = DW_EH_PE_sdata4 then copy_data m data format 4
      else if format = DW_EH_PE_udata2 \<or> format = DW_EH_PE_sdata2 then copy_data m data format 2
      else fail (E ENOSYS) data)"

text \<open>\<^verbatim>\<open>decode_value\<close>, with \<^verbatim>\<open>*out_value\<close> before and after: a format that cannot be decoded leaves
  the base the value is relative to in it.\<close>

definition decode_value ::
  "eh_image \<Rightarrow> eh_data \<Rightarrow> 8 word \<Rightarrow> 64 word \<Rightarrow> ((error_t + unit) \<times> 64 word \<times> eh_data) res"
where
  "decode_value im data encoding out =
     (let scaling = encoding AND 0xF0;
          decode = (\<lambda>base. bind_res (decode_format (image_mem im) (encoding AND 0xF) data) (\<lambda>(r, data').
            case r of Inl e \<Rightarrow> Inr (Inl e, base, data') | Inr v \<Rightarrow> Inr (Inr (), base + v, data')))
      in if scaling = DW_EH_PE_absptr then decode 0
         else if scaling = DW_EH_PE_pcrel then decode (cursor data)
         else if scaling = DW_EH_PE_textrel then decode (text_begin im)
         else if scaling = DW_EH_PE_datarel then decode (eh_frame_hdr_begin im)
         else Inr (Inl (E ENOSYS), out, data))"

text \<open>These two on a pair of the caller's state and the data it consumes, with the destination a
  field of that state (\<open>decode_into\<close>) or a local variable.\<close>

definition eh_read :: "eh_image \<Rightarrow> nat \<Rightarrow> ('s \<times> eh_data, 64 word) run" where
  "eh_read im n = (\<lambda>(s, data). bind_res (eh_consume (image_mem im) n data) (\<lambda>(r, data'). Inr (r, (s, data'))))"

definition decode_into ::
  "eh_image \<Rightarrow> ('s \<Rightarrow> 8 word) \<Rightarrow> ('s \<Rightarrow> 64 word) \<Rightarrow> (64 word \<Rightarrow> 's \<Rightarrow> 's) \<Rightarrow> ('s \<times> eh_data, unit) run"
where
  "decode_into im encoding get put = (\<lambda>(s, data).
     bind_res (decode_value im data (encoding s) (get s)) (\<lambda>(r, out, data'). Inr (r, (put out s, data'))))"

definition decode_local :: "eh_image \<Rightarrow> ('s \<Rightarrow> 8 word) \<Rightarrow> ('s \<times> eh_data, 64 word) run" where
  "decode_local im encoding = (\<lambda>(s, data).
     bind_res (decode_value im data (encoding s) 0) (\<lambda>(r, out, data').
       Inr (case r of Inl e \<Rightarrow> Inl e | Inr _ \<Rightarrow> Inr out, (s, data'))))"

definition update :: "('s \<Rightarrow> eh_data \<Rightarrow> 's) \<Rightarrow> ('s \<times> eh_data, unit) run" where
  "update f = (\<lambda>(s, data). ok () (f s data, data))"

definition inspect :: "('s \<Rightarrow> eh_data \<Rightarrow> 'a res) \<Rightarrow> ('s \<times> eh_data, 'a) run" where
  "inspect f = (\<lambda>(s, data). bind_res (f s data) (\<lambda>x. ok x (s, data)))"

section \<open>Setting up\<close>

definition unwind_init :: "eh_image \<Rightarrow> unwinder \<Rightarrow> (error_t \<times> unwinder) res" where
  "unwind_init im u =
     bind_res
       ((run_bind (eh_read im 1) (\<lambda>version.
         run_seq (check (version = 1) EINVAL) (
         run_bind (eh_read im 1) (\<lambda>eh_frame_ptr_encoding.
         run_bind (eh_read im 1) (\<lambda>fde_count_encoding.
         run_bind (eh_read im 1) (\<lambda>table_encoding.
         run_seq (update (\<lambda>u data. u\<lparr>g_fde_table_encoding := ucast table_encoding\<rparr>)) (
         run_bind (decode_local im (\<lambda>u. ucast eh_frame_ptr_encoding)) (\<lambda>val.
         run_seq (check (eh_frame_begin im = val) EINVAL) (
         run_seq (decode_into im (\<lambda>u. ucast fde_count_encoding) g_num_fdes (\<lambda>out u. u\<lparr>g_num_fdes := out\<rparr>)) (
         run_seq (update (\<lambda>u data. u\<lparr>g_fde_binary_search_table := cursor data\<rparr>)) (
         run_bind (decode_local im g_fde_table_encoding) (\<lambda>val.
         run_seq (update (\<lambda>u data. u\<lparr>g_fde_table_entry_width :=
                    2 * ucast (cursor data - g_fde_binary_search_table u)\<rparr>)) (
         update (\<lambda>u data. u\<lparr>g_unwinder_available := True\<rparr>))))))))))))))
        (u, \<lparr>cursor = eh_frame_hdr_begin im, bytes_left = eh_frame_hdr_end im - eh_frame_hdr_begin im\<rparr>))
       (\<lambda>(r, (u', data)). Inr (case r of Inl e \<Rightarrow> e | Inr _ \<Rightarrow> 0, u'))"

text \<open>\<^verbatim>\<open>parse_cie\<close>. The characters of \<^verbatim>\<open>EXPECTED_AUG_STRING\<close> include its terminator.\<close>

definition EXPECTED_AUG_STRING :: "64 word list" where
  "EXPECTED_AUG_STRING = [0x7A, 0x52, 0]"

function parse_augmentation :: "eh_image \<Rightarrow> nat \<Rightarrow> (unwind_state \<times> eh_data, unit) run" where
  "parse_augmentation im aug_idx s =
     (if aug_idx < length EXPECTED_AUG_STRING
      then bind_res (eh_consume (image_mem im) 1 (snd s)) (\<lambda>(r, data'). case r of
           Inl e \<Rightarrow> Inr (Inl e, (fst s, data'))
         | Inr aug_ch \<Rightarrow>
             if aug_ch \<noteq> EXPECTED_AUG_STRING ! aug_idx
             then if aug_ch = 0x53
                  then parse_augmentation im aug_idx ((fst s)\<lparr>signal_frame := True\<rparr>, data')
                  else fail (E ENOSYS) (fst s, data')
             else parse_augmentation im (aug_idx + 1) (fst s, data'))
      else ok () s)"
  by pat_completeness auto
termination
  by (relation "measure (\<lambda>(im, aug_idx, s). unat (bytes_left (snd s)))") (auto intro: eh_consume_less)

declare parse_augmentation.simps [simp del]

definition parse_cie :: "eh_image \<Rightarrow> (unwind_state \<times> eh_data, unit) run" where
  "parse_cie im =
     run_bind (eh_read im 4) (\<lambda>id.
     run_seq (check (id = 0) EINVAL) (
     run_bind (eh_read im 1) (\<lambda>version.
     run_seq (check (version = 1) EINVAL) (
     run_seq (parse_augmentation im 0) (
     run_seq (decode_into im (\<lambda>_. DW_EH_PE_uleb128) code_alignment_factor
                (\<lambda>out st. st\<lparr>code_alignment_factor := out\<rparr>)) (
     run_seq (decode_into im (\<lambda>_. DW_EH_PE_sleb128) data_alignment_factor
                (\<lambda>out st. st\<lparr>data_alignment_factor := out\<rparr>)) (
     run_bind (decode_local im (\<lambda>_. DW_EH_PE_uleb128)) (\<lambda>ret_reg.
     run_seq (check (ret_reg < of_nat ARCH_NUM_DWARF_REGISTERS) EINVAL) (
     run_seq (update (\<lambda>st data. st\<lparr>ret_reg_idx := ucast ret_reg\<rparr>)) (
     run_bind (decode_local im (\<lambda>_. DW_EH_PE_uleb128)) (\<lambda>aug_length.
     run_seq (check (aug_length = 1) EINVAL) (
     run_bind (eh_read im 1) (\<lambda>enc.
     update (\<lambda>st data. st\<lparr>fde_encoding := ucast enc, cie_code := data\<rparr>))))))))))))))"

text \<open>A register of the frame, within the array.\<close>

definition frame_reg :: "unwind_state \<Rightarrow> nat \<Rightarrow> 64 word res" where
  "frame_reg st i = (if i < length (frame st) then Inr (frame st ! i) else Inl Wild)"

definition unwind_get_return_address :: "unwind_state \<Rightarrow> 64 word res" where
  "unwind_get_return_address st = (if at_end st then Inr 0 else frame_reg st (unat (ret_reg_idx st)))"

definition get_reliable_pc :: "unwind_state \<Rightarrow> 64 word res" where
  "get_reliable_pc st =
     bind_res (unwind_get_return_address st) (\<lambda>ra. Inr (if \<not> signal_frame st then ra - 1 else ra))"

definition parse_fde :: "eh_image \<Rightarrow> (unwind_state \<times> eh_data, unit) run" where
  "parse_fde im =
     run_bind (eh_read im 4) (\<lambda>cie_offset.
     run_seq (check (cie_offset \<noteq> 0) EINVAL) (
     run_seq (\<lambda>(st, fde).
        bind_res (eh_data_init (image_mem im) (cursor fde - cie_offset - 4)) (\<lambda>cie.
        bind_res (parse_cie im (st, cie)) (\<lambda>(r, (st', _)). Inr (r, (st', fde))))) (
     run_seq (decode_into im fde_encoding pc (\<lambda>out st. st\<lparr>pc := out\<rparr>)) (
     run_bind (decode_local im (\<lambda>st. fde_encoding st AND 0x0F)) (\<lambda>pc_size.
     run_bind (inspect (\<lambda>st _. get_reliable_pc st)) (\<lambda>current_pc.
     run_bind (inspect (\<lambda>st _. Inr (pc st))) (\<lambda>pc_begin.
     run_seq (check (\<not> (current_pc < pc_begin \<or> current_pc \<ge> pc_begin + pc_size)) EINVAL) (
     run_bind (eh_read im 1) (\<lambda>aug_length.
     run_seq (check (aug_length = 0) ENOSYS) (
     update (\<lambda>st data. st\<lparr>fde_code := data\<rparr>)))))))))))"

text \<open>\<^verbatim>\<open>find_fde\<close>: the binary search over the table of the header, whose entries are a code address and
  the address of its entry. An error is returned as an address.\<close>

definition table_entry :: "unwinder \<Rightarrow> 64 word \<Rightarrow> 64 word" where
  "table_entry u i = g_fde_binary_search_table u + i * ucast (g_fde_table_entry_width u)"

function find_fde_loop :: "eh_image \<Rightarrow> unwinder \<Rightarrow> 64 word \<Rightarrow> 64 word \<Rightarrow> 64 word \<Rightarrow> (error_t + 64 word) res" where
  "find_fde_loop im u addr lo hi =
     (if 1 < hi - lo
      then let i = lo + (hi - lo) div 2
           in bind_res (decode_value im \<lparr>cursor = table_entry u i, bytes_left = ucast (g_fde_table_entry_width u)\<rparr>
                          (g_fde_table_encoding u) 0) (\<lambda>(r, sym_addr, _). case r of
                Inl e \<Rightarrow> Inr (Inl e)
              | Inr _ \<Rightarrow> if sym_addr \<le> addr then find_fde_loop im u addr i hi
                         else find_fde_loop im u addr lo i)
      else Inr (Inr lo))"
  by pat_completeness auto
termination
proof (relation "measure (\<lambda>(im, u, addr, lo, hi). unat (hi - lo))", goal_cases)
  case (2 im u addr lo hi)
  then show ?case
    using midpoint [where ?'a = 64, of hi lo] by (simp add: word_less_nat_alt del: diff_diff_add)
next
  case (3 im u addr lo hi)
  then show ?case
    using midpoint [where ?'a = 64, of lo hi] by (simp add: word_less_nat_alt)
qed simp

declare find_fde_loop.simps [simp del]

definition find_fde :: "eh_image \<Rightarrow> unwinder \<Rightarrow> 64 word \<Rightarrow> 64 word res" where
  "find_fde im u addr =
     bind_res (find_fde_loop im u addr 0 (g_num_fdes u)) (\<lambda>found. case found of
       Inl e \<Rightarrow> Inr (ucast e)
     | Inr lo \<Rightarrow>
         let half = ucast (g_fde_table_entry_width u) div 2
         in bind_res (decode_value im \<lparr>cursor = table_entry u lo + half, bytes_left = half\<rparr>
                        (g_fde_table_encoding u) 0) (\<lambda>(r, fde_addr, _).
              Inr (case r of Inl e \<Rightarrow> ucast e | Inr _ \<Rightarrow> fde_addr)))"

definition prepare_unwind_state :: "eh_image \<Rightarrow> unwinder \<Rightarrow> unwind_state \<Rightarrow> (error_t \<times> unwind_state) res" where
  "prepare_unwind_state im u st =
     bind_res (get_reliable_pc st) (\<lambda>addr.
     bind_res (find_fde im u addr) (\<lambda>pret.
       if pret \<le> of_nat MAX_ERRNO then Inr (ucast pret, st)
       else bind_res (eh_data_init (image_mem im) pret) (\<lambda>fde.
            bind_res (parse_fde im (st, fde)) (\<lambda>(r, (st', _)).
              Inr (case r of Inl e \<Rightarrow> e | Inr _ \<Rightarrow> 0, st')))))"

section \<open>Running call frame instructions\<close>

definition DW_CFA_nop :: "8 word" where "DW_CFA_nop = 0x00"
definition DW_CFA_advance_loc1 :: "8 word" where "DW_CFA_advance_loc1 = 0x02"
definition DW_CFA_advance_loc2 :: "8 word" where "DW_CFA_advance_loc2 = 0x03"
definition DW_CFA_advance_loc4 :: "8 word" where "DW_CFA_advance_loc4 = 0x04"
definition DW_CFA_same_value :: "8 word" where "DW_CFA_same_value = 0x08"
definition DW_CFA_def_cfa :: "8 word" where "DW_CFA_def_cfa = 0x0C"
definition DW_CFA_def_cfa_register :: "8 word" where "DW_CFA_def_cfa_register = 0x0D"
definition DW_CFA_def_cfa_offset :: "8 word" where "DW_CFA_def_cfa_offset = 0x0E"
definition HIGH_2_BITS_OP :: "8 word \<Rightarrow> 8 word" where "HIGH_2_BITS_OP x = push_bit 6 x"
definition LOW_6_BITS :: "8 word \<Rightarrow> 8 word" where "LOW_6_BITS x = x AND (push_bit 6 1 - 1)"
definition AS_HIGH_2_BITS_OP :: "8 word \<Rightarrow> 8 word" where "AS_HIGH_2_BITS_OP x = x AND NOT (push_bit 6 1 - 1)"
definition DW_CFA_advance_loc :: "8 word" where "DW_CFA_advance_loc = HIGH_2_BITS_OP 0x01"
definition DW_CFA_offset :: "8 word" where "DW_CFA_offset = HIGH_2_BITS_OP 0x02"
definition DW_CFA_restore :: "8 word" where "DW_CFA_restore = HIGH_2_BITS_OP 0x03"

record register_rule =
  rule :: "8 word"
  rule_offset :: "64 word"

text \<open>One instruction. The state of the \<open>run\<close> is the unwinder's, the rules, and the data the
  instructions are read from.\<close>

type_synonym cfa_state = "unwind_state \<times> register_rule list"

definition map_state :: "(unwind_state \<Rightarrow> unwind_state) \<Rightarrow> cfa_state \<Rightarrow> cfa_state" where
  "map_state f = (\<lambda>(st, rules). (f st, rules))"

definition set_rule :: "8 word \<Rightarrow> 8 word \<Rightarrow> 64 word \<Rightarrow> (cfa_state \<times> eh_data, unit) run" where
  "set_rule reg r val =
     update (\<lambda>(st, rules) data.
       if reg < of_nat ARCH_NUM_DWARF_REGISTERS
       then (st, rules[unat reg := \<lparr>rule = r, rule_offset = val\<rparr>]) else (st, rules))"

definition exec_high_2_bits_op :: "eh_image \<Rightarrow> 8 word \<Rightarrow> (cfa_state \<times> eh_data, unit) run" where
  "exec_high_2_bits_op im opcode =
     (if AS_HIGH_2_BITS_OP opcode = DW_CFA_advance_loc
      then update (\<lambda>s data. map_state (\<lambda>st. st\<lparr>pc := pc st + ucast (LOW_6_BITS opcode) * code_alignment_factor st\<rparr>) s)
      else if AS_HIGH_2_BITS_OP opcode = DW_CFA_offset
      then run_bind (decode_local im (\<lambda>_. DW_EH_PE_uleb128)) (\<lambda>val. set_rule (LOW_6_BITS opcode) DW_CFA_offset val)
      else set_rule (LOW_6_BITS opcode) DW_CFA_same_value 0)"

definition exec_advance_loc :: "eh_image \<Rightarrow> nat \<Rightarrow> (cfa_state \<times> eh_data, unit) run" where
  "exec_advance_loc im bytes_needed = (\<lambda>(s, data).
     if bytes_left data < of_nat bytes_needed then fail (E EINVAL) (s, data)
     else bind_res (EH_CONSUME_RAW_UNSAFE (image_mem im) data bytes_needed) (\<lambda>(delta, data').
       ok () (map_state (\<lambda>st. st\<lparr>pc := pc st + delta * code_alignment_factor st\<rparr>) s, data')))"

definition exec_def_cfa_offset :: "eh_image \<Rightarrow> (cfa_state \<times> eh_data, unit) run" where
  "exec_def_cfa_offset im =
     decode_into im (\<lambda>_. DW_EH_PE_uleb128) (\<lambda>s. cfa_offset (fst s)) (\<lambda>out. map_state (\<lambda>st. st\<lparr>cfa_offset := out\<rparr>))"

definition exec_opcode :: "eh_image \<Rightarrow> 8 word \<Rightarrow> (cfa_state \<times> eh_data, unit) run" where
  "exec_opcode im opcode =
     (if AS_HIGH_2_BITS_OP opcode \<noteq> 0 then exec_high_2_bits_op im opcode
      else if opcode = DW_CFA_nop then ok ()
      else if opcode = DW_CFA_advance_loc4 then exec_advance_loc im 4
      else if opcode = DW_CFA_advance_loc2 then exec_advance_loc im 2
      else if opcode = DW_CFA_advance_loc1 then exec_advance_loc im 1
      else if opcode = DW_CFA_def_cfa \<or> opcode = DW_CFA_def_cfa_register
      then run_bind (decode_local im (\<lambda>_. DW_EH_PE_uleb128)) (\<lambda>val.
           run_seq (check (val < of_nat ARCH_NUM_DWARF_REGISTERS) EINVAL) (
           run_seq (update (\<lambda>s data. map_state (\<lambda>st. st\<lparr>cfa_reg_idx := ucast val\<rparr>) s)) (
           if opcode = DW_CFA_def_cfa then exec_def_cfa_offset im else ok ())))
      else if opcode = DW_CFA_def_cfa_offset then exec_def_cfa_offset im
      else fail (E ENOSYS))"

definition dwarf_step :: "eh_image \<Rightarrow> (cfa_state \<times> eh_data, unit) run" where
  "dwarf_step im = run_bind (eh_read im 1) (\<lambda>opcode. exec_opcode im (ucast opcode))"

text \<open>Every operation leaves at most the bytes it found, and an instruction takes at least its
  opcode: so the loop over the instructions ends.\<close>

abbreviation left :: "eh_data \<Rightarrow> nat" where
  "left d \<equiv> unat (bytes_left d)"

lemma raw_unsafe_left:
  assumes "EH_CONSUME_RAW_UNSAFE m d n = Inr (v, d')" "\<not> bytes_left d < of_nat n"
  shows "left d' \<le> left d"
  using assms
  by (auto simp: EH_CONSUME_RAW_UNSAFE_def EH_CONSUME_RAW_UNACCOUNTED_def bind_res_Inr_iff
      word_less_nat_alt unat_sub_if_size)

lemma eh_consume_left: "eh_consume m n d = Inr (r, d') \<Longrightarrow> left d' \<le> left d"
  by (auto simp: eh_consume_def ok_def fail_def bind_res_Inr_iff not_less
      intro: raw_unsafe_left split: if_splits)

lemma copy_data_left: "copy_data m d f n = Inr (r, d') \<Longrightarrow> left d' \<le> left d"
  by (auto simp: copy_data_def ok_def fail_def bind_res_Inr_iff intro: raw_unsafe_left split: if_splits)

lemma leb_loop_left: "leb_loop m d v k = Inr (r, d') \<Longrightarrow> left d' \<le> left d"
proof (induction m d v k arbitrary: r rule: leb_loop.induct)
  case (1 m d v k)
  from "1.prems" obtain x d1 where x: "eh_consume m 1 d = Inr (x, d1)"
    by (subst (asm) leb_loop.simps) (auto simp: bind_res_Inr_iff)
  note d1 = eh_consume_left [OF x]
  show ?case
  proof (cases x)
    case (Inl e)
    with "1.prems" x d1 show ?thesis
      by (subst (asm) leb_loop.simps) simp
  next
    case (Inr b)
    with "1.prems" x obtain bits where bits: "leb_bits (ucast b) k = Inr bits"
      by (subst (asm) leb_loop.simps) (auto simp: bind_res_Inr_iff)
    show ?thesis
    proof (cases "ucast b AND LEB128_HAS_NEXT_BYTE = 0")
      case True
      with "1.prems" x Inr bits d1 show ?thesis
        by (subst (asm) leb_loop.simps) simp
    next
      case False
      with "1.prems" x Inr bits have "leb_loop m d1 (v OR bits) (k + LEB128_BITS_PER_BYTE) = Inr (r, d')"
        by (subst (asm) leb_loop.simps) simp
      with "1.IH" [OF x refl Inr bits] False d1 show ?thesis
        by fastforce
    qed
  qed
qed

lemma decode_format_left: "decode_format m f d = Inr (r, d') \<Longrightarrow> left d' \<le> left d"
  by (auto simp: decode_format_def run_bind_def ok_def fail_def bind_res_Inr_iff case_sum_eq_iff
      intro: copy_data_left leb_loop_left split: if_split_asm)

lemma decode_value_left: "decode_value im d enc out = Inr (r, out', d') \<Longrightarrow> left d' \<le> left d"
  by (auto simp: decode_value_def Let_def bind_res_Inr_iff case_sum_eq_iff intro: decode_format_left
      split: if_split_asm)

definition advances :: "('s \<times> eh_data, 'a) run \<Rightarrow> bool" where
  "advances m \<longleftrightarrow> (\<forall>s r s'. m s = Inr (r, s') \<longrightarrow> left (snd s') \<le> left (snd s))"

named_theorems advances_intros

lemma advances_ok [advances_intros]: "advances (ok x)"
  and advances_fail [advances_intros]: "advances (fail e)"
  and advances_check [advances_intros]: "advances (check c e')"
  by (auto simp: advances_def check_def ok_def fail_def)

lemma advances_update [advances_intros]: "advances (update f)"
  by (auto simp: advances_def update_def ok_def)

lemma advances_eh_read [advances_intros]: "advances (eh_read im n)"
  by (auto simp: advances_def eh_read_def bind_res_Inr_iff intro: eh_consume_left)

lemma advances_decode_local [advances_intros]: "advances (decode_local im enc)"
  by (auto simp: advances_def decode_local_def bind_res_Inr_iff intro: decode_value_left)

lemma advances_decode_into [advances_intros]: "advances (decode_into im enc get put)"
  by (auto simp: advances_def decode_into_def bind_res_Inr_iff intro: decode_value_left)

lemma advances_bind [advances_intros]:
  assumes "advances m" "\<And>x. advances (f x)"
  shows "advances (run_bind m f)"
  unfolding advances_def
proof (intro allI impI)
  fix s r s'
  assume "run_bind m f s = Inr (r, s')"
  then show "left (snd s') \<le> left (snd s)"
  proof (cases rule: run_bind_InrE)
    case (go x s1)
    then have "left (snd s1) \<le> left (snd s)" "left (snd s') \<le> left (snd s1)"
      using assms(1) assms(2) [of x] unfolding advances_def by blast+
    then show ?thesis by simp
  next
    case early
    with assms(1) show ?thesis
      unfolding advances_def by blast
  qed
qed

lemma advances_seq [advances_intros]: "advances m \<Longrightarrow> advances n \<Longrightarrow> advances (run_seq m n)"
  unfolding run_seq_def by (intro advances_intros)

lemma advances_advance [advances_intros]: "advances (exec_advance_loc im n)"
  by (auto simp: advances_def exec_advance_loc_def ok_def fail_def bind_res_Inr_iff
      intro: raw_unsafe_left split: if_splits)

lemma advances_if [advances_intros]: "advances m \<Longrightarrow> advances n \<Longrightarrow> advances (if c then m else n)"
  by simp

lemma advances_exec_opcode: "advances (exec_opcode im opcode)"
  unfolding exec_opcode_def exec_high_2_bits_op_def set_rule_def exec_def_cfa_offset_def
  by (intro advances_intros)

lemma dwarf_step_less:
  assumes "dwarf_step im s = Inr (Inr x, s')"
  shows "left (snd s') < left (snd s)"
proof -
  obtain st d where s: "s = (st, d)" by (cases s)
  from assms [unfolded dwarf_step_def] obtain v s1 where v: "eh_read im 1 s = Inr (Inr v, s1)"
    and x: "exec_opcode im (ucast v) s1 = Inr (Inr x, s')"
    by (cases rule: run_bind_InrE) auto
  from v s obtain d1 where v: "eh_consume (image_mem im) 1 d = Inr (Inr v, d1)" "s1 = (st, d1)"
    by (auto simp: eh_read_def bind_res_Inr_iff)
  have "left (snd s') \<le> left (snd s1)"
    using advances_exec_opcode [of im "ucast v", unfolded advances_def] x by blast
  with eh_consume_less [OF v(1)] v(2) s show ?thesis by simp
qed

function dwarf_exec :: "eh_image \<Rightarrow> (cfa_state \<times> eh_data, unit) run" where
  "dwarf_exec im s =
     (if bytes_left (snd s) = 0 then ok () s
      else bind_res (unwind_get_return_address (fst (fst s))) (\<lambda>ret_addr.
        if pc (fst (fst s)) > ret_addr then ok () s
        else bind_res (dwarf_step im s) (\<lambda>(r, s'). case r of
               Inl e \<Rightarrow> Inr (Inl e, s')
             | Inr _ \<Rightarrow> dwarf_exec im s')))"
  by pat_completeness auto
termination
  by (relation "measure (\<lambda>(im, s). left (snd s))") (auto dest: dwarf_step_less)

declare dwarf_exec.simps [simp del]

section \<open>The registers of the caller\<close>

text \<open>The eight bytes at an address.\<close>

definition load_ptr :: "eh_image \<Rightarrow> 64 word \<Rightarrow> 64 word res" where
  "load_ptr im a = load_le (image_mem im) a 8"

definition rule_value :: "eh_image \<Rightarrow> unwind_state \<Rightarrow> register_rule \<Rightarrow> nat \<Rightarrow> (error_t + 64 word) res" where
  "rule_value im st r i =
     (if rule r = DW_CFA_same_value then bind_res (frame_reg st i) (\<lambda>v. Inr (Inr v))
      else if rule r = DW_CFA_offset
      then bind_res (frame_reg st (unat (cfa_reg_idx st))) (\<lambda>v.
           bind_res (load_ptr im (v + cfa_offset st + rule_offset r * data_alignment_factor st)) (\<lambda>x. Inr (Inr x)))
      else if rule r = DW_CFA_def_cfa
      then bind_res (frame_reg st (unat (cfa_reg_idx st))) (\<lambda>v. Inr (Inr (v + cfa_offset st)))
      else Inr (Inl (E ENOSYS)))"

text \<open>The loop of \<^verbatim>\<open>apply_reg_rules\<close>, from register \<open>i\<close> on.\<close>

fun new_registers :: "eh_image \<Rightarrow> unwind_state \<Rightarrow> nat \<Rightarrow> register_rule list \<Rightarrow> (error_t + 64 word list) res" where
  "new_registers im st i [] = Inr (Inr [])"
| "new_registers im st i (r # rs) =
     bind_res (rule_value im st r i) (\<lambda>v. case v of
         Inl e \<Rightarrow> Inr (Inl e)
       | Inr x \<Rightarrow> bind_res (new_registers im st (Suc i) rs) (\<lambda>xs. Inr (map_sum id ((#) x) xs)))"

definition apply_reg_rules ::
  "eh_image \<Rightarrow> unwind_state \<Rightarrow> register_rule list \<Rightarrow> ((error_t + 64 word list) \<times> unwind_state) res" where
  "apply_reg_rules im st rules =
     bind_res (new_registers im st 0 rules) (\<lambda>v. Inr (case v of
         Inl e \<Rightarrow> (Inl e, st)
       | Inr new_frame \<Rightarrow> (Inr new_frame, st\<lparr>cfa_reg_idx := of_nat DWARF_SP_REG, cfa_offset := 0\<rparr>)))"

definition initial_rules :: "register_rule list" where
  "initial_rules = map (\<lambda>i. \<lparr>rule = if i = DWARF_SP_REG then DW_CFA_def_cfa else DW_CFA_same_value, rule_offset = 0\<rparr>)
     [0..<ARCH_NUM_DWARF_REGISTERS]"

text \<open>\<^verbatim>\<open>dwarf_exec(state, reg_rules, &state->cie_code)\<close> moves the cursor that is kept in the state.\<close>

definition exec_cie :: "eh_image \<Rightarrow> (cfa_state, unit) run" where
  "exec_cie im s =
     bind_res (dwarf_exec im (s, cie_code (fst s))) (\<lambda>(r, (s', data)).
       Inr (r, map_state (\<lambda>st. st\<lparr>cie_code := data\<rparr>) s'))"

definition exec_fde :: "eh_image \<Rightarrow> (cfa_state, unit) run" where
  "exec_fde im s =
     bind_res (dwarf_exec im (s, fde_code (fst s))) (\<lambda>(r, (s', data)).
       Inr (r, map_state (\<lambda>st. st\<lparr>fde_code := data\<rparr>) s'))"

definition unwind_next_frame :: "eh_image \<Rightarrow> unwinder \<Rightarrow> unwind_state \<Rightarrow> (error_t \<times> unwind_state) res" where
  "unwind_next_frame im u st =
     (if at_end st then Inr (E EINVAL, st)
      else bind_res (prepare_unwind_state im u st) (\<lambda>(ret, st1).
        if ret \<noteq> 0 then Inr (ret, st1\<lparr>at_end := True\<rparr>)
        else bind_res (run_seq (exec_cie im) (exec_fde im) (st1\<lparr>signal_frame := False\<rparr>, initial_rules))
          (\<lambda>(r, (st2, rules)). case r of
             Inl e \<Rightarrow> Inr (e, st2\<lparr>at_end := True\<rparr>)
           | Inr _ \<Rightarrow> bind_res (apply_reg_rules im st2 rules) (\<lambda>(r, st3). case r of
               Inl e \<Rightarrow> Inr (e, st3\<lparr>at_end := True\<rparr>)
             | Inr new_frame \<Rightarrow>
                 let st4 = st3\<lparr>frame := new_frame\<rparr>
                 in bind_res (unwind_get_return_address st4) (\<lambda>ra. Inr (0, st4\<lparr>at_end := (ra = 0)\<rparr>))))))"

section \<open>Walking a stack\<close>

text \<open>\<^verbatim>\<open>struct registers\<close>; the union holds its 64-bit member.\<close>

record registers =
  r15 :: "64 word"
  r14 :: "64 word"
  r13 :: "64 word"
  r12 :: "64 word"
  rbp :: "64 word"
  rbx :: "64 word"
  r11 :: "64 word"
  r10 :: "64 word"
  r9 :: "64 word"
  r8 :: "64 word"
  rax :: "64 word"
  rcx :: "64 word"
  rdx :: "64 word"
  rsi :: "64 word"
  rdi :: "64 word"
  error_code :: "64 word"
  rip :: "64 word"
  cs :: "64 word"
  flags :: "64 word"
  rsp :: "64 word"
  ss :: "64 word"

definition arch_registers_to_dwarf_registers :: "registers \<Rightarrow> 64 word list" where
  "arch_registers_to_dwarf_registers regs =
     [rax regs, rdx regs, rcx regs, rbx regs, rsi regs, rdi regs, rbp regs, rsp regs,
      r8 regs, r9 regs, r10 regs, r11 regs, r12 regs, r13 regs, r14 regs, r15 regs, rip regs]"

definition unwind_is_done :: "unwind_state \<Rightarrow> bool" where
  "unwind_is_done st = at_end st"

text \<open>The \<^verbatim>\<open>do\<close> loop of \<^verbatim>\<open>unwind_current_begin\<close>. A stack whose frames form a cycle makes it run
  forever, so it has fuel.\<close>

fun unwind_current_begin ::
  "nat \<Rightarrow> eh_image \<Rightarrow> unwinder \<Rightarrow> unwind_state \<Rightarrow> 64 word \<Rightarrow> (error_t \<times> unwind_state) res"
where
  "unwind_current_begin 0 im u st starting_pc = Inl Hang"
| "unwind_current_begin (Suc fuel) im u st starting_pc =
     bind_res (unwind_next_frame im u st) (\<lambda>(ret, st').
     bind_res (unwind_get_return_address st') (\<lambda>ra.
       if \<not> unwind_is_done st' \<and> ra \<noteq> starting_pc
       then unwind_current_begin fuel im u st' starting_pc
       else Inr (ret, st')))"

text \<open>The assembly stub \<^verbatim>\<open>arch_unwind_current_begin\<close>, on the registers the processor has when it is
  called: it stores them as they are after it returns.\<close>

definition arch_unwind_current_begin ::
  "nat \<Rightarrow> eh_image \<Rightarrow> unwinder \<Rightarrow> registers \<Rightarrow> unwind_state \<Rightarrow> 64 word \<Rightarrow> (error_t \<times> unwind_state) res"
where
  "arch_unwind_current_begin fuel im u cpu st starting_pc =
     bind_res (load_ptr im (rsp cpu)) (\<lambda>ra.
       unwind_current_begin fuel im u
         (st\<lparr>frame := arch_registers_to_dwarf_registers (cpu\<lparr>rsp := rsp cpu + 8, rip := ra\<rparr>)\<rparr>) starting_pc)"

definition zero_state :: unwind_state where
  "zero_state =
     \<lparr>frame = replicate ARCH_NUM_DWARF_REGISTERS 0, code_alignment_factor = 0, data_alignment_factor = 0,
      cfa_offset = 0, pc = 0, pc_end = 0, ret_reg_idx = 0, cfa_reg_idx = 0, at_end = False, signal_frame = False,
      fde_encoding = 0, cie_code = \<lparr>cursor = 0, bytes_left = 0\<rparr>, fde_code = \<lparr>cursor = 0, bytes_left = 0\<rparr>\<rparr>"

definition unwind_begin ::
  "nat \<Rightarrow> eh_image \<Rightarrow> unwinder \<Rightarrow> registers \<Rightarrow> unwind_state \<Rightarrow> registers option \<Rightarrow> 64 word \<Rightarrow> (error_t \<times> unwind_state) res"
where
  "unwind_begin fuel im u cpu st regs starting_pc =
     (if \<not> g_unwinder_available u then Inr (E ENODEV, st)
      else let st0 = zero_state\<lparr>ret_reg_idx := of_nat ARCH_DWARF_PC_REG\<rparr>
           in case regs of
                None \<Rightarrow> arch_unwind_current_begin fuel im u cpu st0 starting_pc
              | Some r \<Rightarrow> Inr (0, st0\<lparr>frame := arch_registers_to_dwarf_registers r, signal_frame := True\<rparr>))"

text \<open>The callback takes its own state \<^verbatim>\<open>user\<close> and returns it with whether to go on.\<close>

fun unwind_walk_loop ::
  "nat \<Rightarrow> eh_image \<Rightarrow> unwinder \<Rightarrow> ('u \<Rightarrow> 64 word \<Rightarrow> bool \<Rightarrow> bool \<times> 'u) \<Rightarrow> 'u \<Rightarrow> error_t \<Rightarrow> unwind_state \<Rightarrow> (error_t \<times> 'u) res"
where
  "unwind_walk_loop 0 im u callback user ret st = Inl Hang"
| "unwind_walk_loop (Suc fuel) im u callback user ret st =
     bind_res (unwind_get_return_address st) (\<lambda>ret_addr.
       case callback user ret_addr (\<not> signal_frame st) of (go_on, user') \<Rightarrow>
         if \<not> go_on then Inr (ret, user')
         else bind_res (unwind_next_frame im u st) (\<lambda>(ret', st').
           if \<not> unwind_is_done st' then unwind_walk_loop fuel im u callback user' ret' st'
           else Inr (ret', user')))"

definition unwind_walk ::
  "nat \<Rightarrow> eh_image \<Rightarrow> unwinder \<Rightarrow> registers \<Rightarrow> unwind_state \<Rightarrow> registers option \<Rightarrow> 64 word \<Rightarrow>
   ('u \<Rightarrow> 64 word \<Rightarrow> bool \<Rightarrow> bool \<times> 'u) \<Rightarrow> 'u \<Rightarrow> (error_t \<times> 'u) res"
where
  "unwind_walk fuel im u cpu st regs return_address callback user =
     (let starting_pc = (if regs = None then return_address else 0)
      in bind_res (unwind_begin fuel im u cpu st regs starting_pc) (\<lambda>(ret, st').
           if ret \<noteq> 0 then Inr (ret, user)
           else unwind_walk_loop fuel im u callback user ret st'))"

end
