(* ===== verification/UnwindDecode.thy ===== *)
theory UnwindDecode
  imports Unwind
begin

text \<open>
  What the decoding functions of the unwinder read: \<open>holds_data\<close> says that encoded bytes are next in
  the data, \<open>uleb\<close> and \<open>sleb\<close> are reference encoders of LEB128, and the lemmas give the value each
  format decodes to (\<open>decode_uleb\<close>, \<open>decode_sleb\<close>, \<open>decode_fixed\<close>) and what \<open>find_fde\<close> finds.
\<close>

section \<open>Data that memory holds\<close>

definition skip :: "eh_data \<Rightarrow> nat \<Rightarrow> eh_data" where
  "skip d n = d\<lparr>cursor := cursor d + of_nat n, bytes_left := bytes_left d - of_nat n\<rparr>"

text \<open>\<open>holds_data m d bs\<close>: the next bytes of \<open>d\<close> are \<open>bs\<close>, and they are within it.\<close>

definition holds_data :: "memory \<Rightarrow> eh_data \<Rightarrow> 8 word list \<Rightarrow> bool" where
  "holds_data m d bs \<longleftrightarrow> holds_bytes m (cursor d) bs \<and> length bs \<le> left d"

lemma skip_simps [simp]:
  "cursor (skip d n) = cursor d + of_nat n"
  "bytes_left (skip d n) = bytes_left d - of_nat n"
  "skip d 0 = d"
  by (simp_all add: skip_def)

lemma skip_skip [simp]: "skip (skip d n) k = skip d (n + k)"
  by (simp add: skip_def)

lemma unat_of_nat_left: "n \<le> left d \<Longrightarrow> unat (of_nat n :: 64 word) = n"
  using order.strict_trans1 [OF _ unat_lt_64 [of "bytes_left d"]]
  by (simp add: unsigned_of_nat take_bit_nat_eq_self)

lemma left_skip: "n \<le> left d \<Longrightarrow> unat (bytes_left d - of_nat n) = left d - n"
  by (simp add: unat_sub_if_size unat_of_nat_left)

lemma holds_data_append:
  "holds_data m d (bs @ ys) \<longleftrightarrow> holds_data m d bs \<and> holds_data m (skip d (length bs)) ys"
  by (auto simp: holds_data_def holds_bytes_append left_skip)

lemma holds_data_Cons:
  "holds_data m d (b # bs) \<longleftrightarrow> holds_data m d [b] \<and> holds_data m (skip d 1) bs"
  using holds_data_append [of m d "[b]" bs] by simp

lemma of_nat_le_left: "n \<le> left d \<Longrightarrow> of_nat n \<le> bytes_left d"
  by (simp add: word_le_nat_alt unat_of_nat_left)

lemma raw_unsafe_holds:
  "holds_data m d bs \<Longrightarrow> n = length bs \<Longrightarrow>
     EH_CONSUME_RAW_UNSAFE m d n = Inr (of_nat (le_nat bs), skip d n)"
  using load_le_holds [of m "cursor d" bs n]
  by (simp add: EH_CONSUME_RAW_UNSAFE_def EH_CONSUME_RAW_UNACCOUNTED_def holds_data_def skip_def)

lemma eh_consume_holds:
  "holds_data m d bs \<Longrightarrow> n = length bs \<Longrightarrow> eh_consume m n d = Inr (Inr (of_nat (le_nat bs)), skip d n)"
  by (simp add: eh_consume_def raw_unsafe_holds ok_def) (simp add: holds_data_def of_nat_le_left)

section \<open>LEB128\<close>

text \<open>A reference encoder of each kind, and the value of the seven-bit groups.\<close>

fun uleb :: "nat \<Rightarrow> 8 word list" where
  "uleb n = (if n < 128 then [of_nat n] else of_nat (n mod 128 + 128) # uleb (n div 128))"

function sleb :: "int \<Rightarrow> 8 word list" where
  "sleb v = (if - 64 \<le> v \<and> v < 64 then [of_int (v mod 128)] else of_int (v mod 128 + 128) # sleb (v div 128))"
  by pat_completeness auto
termination
  by (relation "measure (\<lambda>v. nat \<bar>v\<bar>)") auto

declare uleb.simps [simp del] sleb.simps [simp del]

fun leb_groups :: "8 word list \<Rightarrow> nat" where
  "leb_groups [] = 0"
| "leb_groups (b # bs) = unat b mod 128 + 128 * leb_groups bs"

fun leb_shape :: "8 word list \<Rightarrow> bool" where
  "leb_shape [] = False"
| "leb_shape (b # bs) \<longleftrightarrow> (if bs = [] then unat b < 128 else 128 \<le> unat b \<and> leb_shape bs)"

lemma scast_small: "x < 2 ^ 31 \<Longrightarrow> scast (of_nat x :: 32 word) = (of_nat x :: 64 word)"
  by (simp add: signed_scast_eq signed_of_nat signed_take_bit_int_eq_self)

lemma leb_bits_eq:
  assumes "k < 32" "unat b mod 128 * 2 ^ k < 2 ^ 31"
  shows "leb_bits b (of_nat k) = Inr (of_nat (unat b mod 128 * 2 ^ k))"
proof -
  let ?x = "unat b mod 128 * 2 ^ k"
  have "(ucast (b AND LEB128_MAX_PER_BYTE) :: 32 word) = of_nat (unat b mod 128)"
    by (simp flip: unat_low7)
  then have "push_bit k (ucast (b AND LEB128_MAX_PER_BYTE) :: 32 word) = of_nat ?x"
    by (simp add: push_bit_eq_mult)
  moreover have "scast (of_nat ?x :: 32 word) = (of_nat ?x :: 64 word)"
    by (rule scast_small [OF assms(2)])
  moreover have "unat (of_nat k :: 8 word) = k"
    using assms(1) by (simp add: unsigned_of_nat take_bit_nat_eq_self)
  ultimately show ?thesis
    using assms(1) by (simp add: leb_bits_def word_le_nat_alt)
qed

lemma byte_64: "(ucast (ucast (b::8 word) :: 64 word) :: 8 word) = b"
  by transfer simp

lemma leb_loop_shape:
  assumes "leb_shape bs" "holds_data m d bs" "v < 2 ^ k" "v + leb_groups bs * 2 ^ k < 2 ^ 31"
    "k + 7 * length bs \<le> 38"
  shows "leb_loop m d (of_nat v) (of_nat k) =
    Inr (Inr (of_nat (v + leb_groups bs * 2 ^ k), of_nat (k + 7 * length bs)), skip d (length bs))"
  using assms
proof (induction bs arbitrary: d v k)
  case (Cons b bs)
  let ?x = "unat b mod 128"
  from Cons.prems(2) have one: "holds_data m d [b]" and rest: "holds_data m (skip d 1) bs"
    by (simp_all add: holds_data_Cons [of m d b bs])
  have eat: "eh_consume m 1 d = Inr (Inr (ucast b), skip d 1)"
    using eh_consume_holds [OF one, of 1] by simp
  have x: "?x * 2 ^ k \<le> leb_groups (b # bs) * 2 ^ k"
    by (intro mult_right_mono) simp_all
  have k: "k < 32" using Cons.prems(5) by simp
  have bits: "leb_bits b (of_nat k) = Inr (of_nat (?x * 2 ^ k))"
    using x Cons.prems(4) by (intro leb_bits_eq k) linarith
  have sum: "(of_nat v :: 64 word) OR of_nat (?x * 2 ^ k) = of_nat (v + ?x * 2 ^ k)"
    by (rule or_shifted [OF Cons.prems(3)])
  have step: "leb_loop m d (of_nat v) (of_nat k) =
      (if bs \<noteq> [] then leb_loop m (skip d 1) (of_nat (v + ?x * 2 ^ k)) (of_nat (k + 7))
       else Inr (Inr (of_nat (v + ?x * 2 ^ k), of_nat (k + 7)), skip d 1))"
    using Cons.prems(1) bits sum
    by (subst leb_loop.simps, subst eat)
       (simp add: byte_64 has_next_iff LEB128_BITS_PER_BYTE_def not_less [symmetric] split: if_split_asm)
  show ?case
  proof (cases "bs = []")
    case True
    with step show ?thesis by simp
  next
    case False
    have total: "v + ?x * 2 ^ k + leb_groups bs * 2 ^ (k + 7) = v + leb_groups (b # bs) * 2 ^ k"
      by (simp add: power_add algebra_simps)
    have "v + ?x * 2 ^ k < (1 + ?x) * 2 ^ k"
      using Cons.prems(3) by (simp add: algebra_simps)
    also have "\<dots> \<le> 128 * 2 ^ k"
      by (intro mult_right_mono) simp_all
    finally have small: "v + ?x * 2 ^ k < 2 ^ (k + 7)"
      by (simp add: power_add)
    have len: "k + 7 + 7 * length bs = k + 7 * length (b # bs)" "k + 7 * length (b # bs) \<le> 38"
      using Cons.prems(5) by simp_all
    have shape: "leb_shape bs"
      using Cons.prems(1) False by simp
    have "leb_loop m (skip d 1) (of_nat (v + ?x * 2 ^ k)) (of_nat (k + 7)) =
        Inr (Inr (of_nat (v + leb_groups (b # bs) * 2 ^ k), of_nat (k + 7 * length (b # bs))), skip (skip d 1) (length bs))"
      using Cons.IH [OF shape rest small] Cons.prems(4) len unfolding total len(1) by blast
    moreover have "skip (skip d 1) (length bs) = skip d (length (b # bs))"
      by simp
    ultimately show ?thesis
      using step False by (simp only: if_True not_False_eq_True)
  qed
qed simp

lemma uleb_shape: "leb_shape (uleb n)" and uleb_groups: "leb_groups (uleb n) = n"
proof (induction n rule: uleb.induct)
  case (1 n)
  note IH = 1
  have ne: "uleb (n div 128) \<noteq> []"
    by (subst uleb.simps) simp
  {
    case 1
    show ?case
      using IH(1) ne by (subst uleb.simps) (simp add: unat_byte del: of_nat_add)
  next
    case 2
    show ?case
      using IH(2) by (subst uleb.simps) (simp add: unat_byte mod_add_eq del: of_nat_add)
  }
qed

section \<open>Sign extension\<close>

lemma bit_of_int_sign:
  fixes v :: int
  assumes "- (2 ^ n) \<le> v" "v < 2 ^ n" "n \<le> i"
  shows "bit v i \<longleftrightarrow> v < 0"
proof -
  have "(2::int) ^ n \<le> 2 ^ i" using assms(3) by (intro power_increasing) auto
  with assms(1,2) have "- (2 ^ i) \<le> v" "v < 2 ^ i" by linarith+
  then have "v div 2 ^ i = (if v < 0 then - 1 else 0)"
    by (auto simp: div_pos_pos_trivial intro: int_div_pos_eq [where r = "v + 2 ^ i"])
  then show ?thesis
    by (auto simp: bit_iff_odd)
qed

lemma sign_extend_eq:
  assumes "format AND DW_EH_PE_SIGNED_DATA \<noteq> 0" "n < 64"
    and "- (2 ^ n) \<le> v" "v < 2 ^ n"
  shows "sign_extend format (of_int (v mod 2 ^ Suc n)) (of_nat (Suc n)) = of_int v"
proof -
  have top: "unat (of_nat (Suc n) - 1 :: 8 word) = n"
    using assms(2) by (simp add: unsigned_of_nat take_bit_nat_eq_self)
  define W where "W = (of_int (v mod 2 ^ Suc n) :: 64 word)"
  have w: "bit W i \<longleftrightarrow> i < 64 \<and> i \<le> n \<and> bit v i" for i
    unfolding W_def take_bit_eq_mod [symmetric]
    by (auto simp: bit_of_int_iff bit_take_bit_iff less_Suc_eq_le)
  have ones: "bit (push_bit n (- 1) :: 64 word) i \<longleftrightarrow> n \<le> i \<and> i < 64" for i
    unfolding bit_push_bit_iff by auto
  have v: "bit (of_int v :: 64 word) i \<longleftrightarrow> i < 64 \<and> bit v i" for i
    by (simp add: bit_of_int_iff)
  note sign = bit_of_int_sign [OF assms(3,4)]
  have "W = of_int v" if "\<not> v < 0"
    using that assms(4) by (simp add: W_def)
  moreover have "W OR push_bit n (- 1) = of_int v" if "v < 0"
  proof (rule bit_eqI)
    fix i
    show "bit (W OR push_bit n (- 1)) i \<longleftrightarrow> bit (of_int v :: 64 word) i"
      unfolding bit_or_iff w ones v using sign [of i] that by auto
  qed
  moreover have "W AND push_bit n 1 \<noteq> 0 \<longleftrightarrow> v < 0"
    unfolding bit_iff_and_push_bit_not_eq_0 [symmetric] using sign [of n] assms(2) w [of n] by simp
  moreover have "sign_extend format W (of_nat (Suc n)) =
      (if W AND push_bit n 1 \<noteq> 0 then W OR push_bit n (- 1) else W)"
    unfolding sign_extend_def Let_def top using assms(1) by (simp only: if_True not_False_eq_True)
  ultimately show ?thesis
    unfolding W_def [symmetric] by (cases "v < 0") (simp_all only: if_True if_False not_False_eq_True)
qed

lemma sign_extend_unsigned: "format AND DW_EH_PE_SIGNED_DATA = 0 \<Longrightarrow> sign_extend format v n = v"
  by (simp add: sign_extend_def)

section \<open>The two LEB128 formats\<close>

lemma uleb_not_Nil [simp]: "uleb n \<noteq> []"
  by (subst uleb.simps) simp

lemma length_uleb: "n < 2 ^ (7 * Suc k) \<Longrightarrow> length (uleb n) \<le> Suc k"
proof (induction k arbitrary: n)
  case (Suc k)
  have "n div 128 < 2 ^ (7 * Suc k)"
    using Suc.prems by (simp add: less_mult_imp_div_less power_add mult.commute)
  with Suc.IH show ?case
    by (subst uleb.simps) simp
qed (subst uleb.simps, simp)

lemma sleb_not_Nil [simp]: "sleb v \<noteq> []"
  by (subst sleb.simps) simp

lemma sleb_facts:
  "leb_shape (sleb v) \<and> int (leb_groups (sleb v)) = v mod 2 ^ (7 * length (sleb v)) \<and>
   - (2 ^ (7 * length (sleb v) - 1)) \<le> v \<and> v < 2 ^ (7 * length (sleb v) - 1)"
proof (induction v rule: sleb.induct)
  case (1 v)
  show ?case
  proof (cases "- 64 \<le> v \<and> v < 64")
    case True
    have "of_int (v mod 128) = (of_nat (nat (v mod 128)) :: 8 word)"
      by simp
    then have "unat (of_int (v mod 128) :: 8 word) = nat (v mod 128)"
      using unat_byte [of "nat (v mod 128)"] by simp
    with True show ?thesis
      by (subst (1 2 3 4 5) sleb.simps) simp
  next
    case False
    let ?n = "length (sleb (v div 128))"
    have n: "0 < ?n" by simp
    then obtain p where p: "7 * ?n = Suc p"
      by (metis Suc_pred mult_pos_pos zero_less_numeral)
    from 1 [OF False] have IH: "leb_shape (sleb (v div 128))"
      "int (leb_groups (sleb (v div 128))) = v div 128 mod 2 ^ (7 * ?n)"
      "- (2 ^ (7 * ?n - 1)) \<le> v div 128" "v div 128 < 2 ^ (7 * ?n - 1)"
      by blast+
    have "of_int (v mod 128 + 128) = (of_nat (nat (v mod 128 + 128)) :: 8 word)"
      by simp
    then have b: "unat (of_int (v mod 128 + 128) :: 8 word) = nat (v mod 128 + 128)"
      using unat_byte [of "nat (v mod 128 + 128)"] by simp
    have s: "sleb v = of_int (v mod 128 + 128) # sleb (v div 128)"
      using False by (subst sleb.simps) auto
    have "int (leb_groups (sleb v)) = v mod 128 + 128 * (v div 128 mod 2 ^ (7 * ?n))"
      using b IH(2) by (simp add: s nat_add_distrib mod_add_eq del: of_int_add) 
    also have "\<dots> = v mod (128 * 2 ^ (7 * ?n))"
      by (simp add: zmod_zmult2_eq)
    also have "128 * 2 ^ (7 * ?n) = (2::int) ^ (7 * length (sleb v))"
      by (simp add: s power_add)
    finally have g: "int (leb_groups (sleb v)) = v mod 2 ^ (7 * length (sleb v))" .
    have "(2::int) ^ (7 * length (sleb v) - 1) = 128 * 2 ^ (7 * ?n - 1)"
      by (simp add: s p power_add)
    moreover have "- (128 * 2 ^ (7 * ?n - 1)) \<le> v" "v < 128 * 2 ^ (7 * ?n - 1)"
      using IH(3,4) by linarith+
    moreover have "leb_shape (sleb v)"
      using IH(1) b by (simp add: s)
    ultimately show ?thesis
      using g by simp
  qed
qed

lemma length_sleb: "- (2 ^ (7 * k + 6)) \<le> v \<Longrightarrow> v < 2 ^ (7 * k + 6) \<Longrightarrow> length (sleb v) \<le> Suc k"
proof (induction k arbitrary: v)
  case (Suc k)
  have "- (2 ^ (7 * k + 6)) \<le> v div 128" "v div 128 < 2 ^ (7 * k + 6)"
    using Suc.prems by (simp_all add: power_add)
  with Suc.IH show ?case
    by (subst sleb.simps) simp
qed (subst sleb.simps, simp)

lemma decode_uleb:
  assumes "holds_data m d (uleb n)" "n < 2 ^ 31"
  shows "decode_format m DW_EH_PE_uleb128 d = Inr (Inr (of_nat n), skip d (length (uleb n)))"
proof -
  have "length (uleb n) \<le> 5"
    using length_uleb [of n 4] assms(2) by simp
  then have "leb_loop m d (of_nat 0) (of_nat 0) =
      Inr (Inr (of_nat n, of_nat (7 * length (uleb n))), skip d (length (uleb n)))"
    using leb_loop_shape [OF uleb_shape assms(1), of 0 0] assms(2) by (simp add: uleb_groups)
  then show ?thesis
    by (simp add: decode_format_def run_bind_def ok_def sign_extend_def DW_EH_PE_defs)
qed

lemma decode_sleb:
  assumes "holds_data m d (sleb v)" "- (2 ^ 27) \<le> v" "v < 2 ^ 27"
  shows "decode_format m DW_EH_PE_sleb128 d = Inr (Inr (of_int v), skip d (length (sleb v)))"
proof -
  let ?n = "7 * length (sleb v) - 1"
  have len: "length (sleb v) \<le> 4"
    using length_sleb [of 3 v] assms(2,3) by simp
  have n: "7 * length (sleb v) = Suc ?n"
    by (simp add: Suc_leI)
  note f = sleb_facts [of v]
  have "v mod 2 ^ (7 * length (sleb v)) < 2 ^ (7 * length (sleb v))"
    by simp
  also have "\<dots> \<le> (2::int) ^ 28"
    using len by (intro power_increasing) auto
  finally have small: "leb_groups (sleb v) < 2 ^ 31"
    using f by simp
  have "leb_loop m d (of_nat 0) (of_nat 0) =
      Inr (Inr (of_nat (leb_groups (sleb v)), of_nat (7 * length (sleb v))), skip d (length (sleb v)))"
    using leb_loop_shape [OF _ assms(1), of 0 0] f small len by simp
  moreover have "(of_nat (leb_groups (sleb v)) :: 64 word) = of_int (v mod 2 ^ Suc ?n)"
    using f n by (metis of_int_of_nat_eq)
  moreover have "sign_extend DW_EH_PE_sleb128 (of_int (v mod 2 ^ Suc ?n)) (of_nat (Suc ?n)) = of_int v"
    using f len by (intro sign_extend_eq) (auto simp: DW_EH_PE_defs)
  ultimately show ?thesis
    using n by (simp add: decode_format_def run_bind_def ok_def DW_EH_PE_defs)
qed

section \<open>Values relative to a base\<close>

definition base_of :: "eh_image \<Rightarrow> eh_data \<Rightarrow> 8 word \<Rightarrow> 64 word" where
  "base_of im d encoding =
     (if encoding AND 0xF0 = DW_EH_PE_pcrel then cursor d
      else if encoding AND 0xF0 = DW_EH_PE_textrel then text_begin im
      else if encoding AND 0xF0 = DW_EH_PE_datarel then eh_frame_hdr_begin im else 0)"

definition known_scaling :: "8 word \<Rightarrow> bool" where
  "known_scaling encoding \<longleftrightarrow>
     encoding AND 0xF0 \<in> {DW_EH_PE_absptr, DW_EH_PE_pcrel, DW_EH_PE_textrel, DW_EH_PE_datarel}"

lemma decode_value_eq:
  "known_scaling encoding \<Longrightarrow> decode_format (image_mem im) (encoding AND 0xF) d = Inr (Inr v, d') \<Longrightarrow>
     decode_value im d encoding out = Inr (Inr (), base_of im d encoding + v, d')"
  by (auto simp: known_scaling_def decode_value_def base_of_def Let_def DW_EH_PE_defs)

lemma decode_value_uleb:
  "holds_data (image_mem im) d (uleb n) \<Longrightarrow> n < 2 ^ 31 \<Longrightarrow>
     decode_value im d DW_EH_PE_uleb128 out = Inr (Inr (), of_nat n, skip d (length (uleb n)))"
  using decode_value_eq [of DW_EH_PE_uleb128 im d "of_nat n" "skip d (length (uleb n))" out] decode_uleb [of "image_mem im" d n]
  by (simp add: known_scaling_def base_of_def DW_EH_PE_defs)

lemma decode_value_sleb:
  "holds_data (image_mem im) d (sleb v) \<Longrightarrow> - (2 ^ 27) \<le> v \<Longrightarrow> v < 2 ^ 27 \<Longrightarrow>
     decode_value im d DW_EH_PE_sleb128 out = Inr (Inr (), of_int v, skip d (length (sleb v)))"
  using decode_value_eq [of DW_EH_PE_sleb128 im d "of_int v" "skip d (length (sleb v))" out] decode_sleb [of "image_mem im" d v]
  by (simp add: known_scaling_def base_of_def DW_EH_PE_defs)

text \<open>Four-byte signed offsets, the format linkers use.\<close>

lemma decode_sdata4:
  assumes "holds_data m d (le_bytes 4 (nat (v mod 2 ^ 32)))" "- (2 ^ 31) \<le> v" "v < 2 ^ 31"
  shows "decode_format m DW_EH_PE_sdata4 d = Inr (Inr (of_int v), skip d 4)"
proof -
  have raw: "EH_CONSUME_RAW_UNSAFE m d 4 = Inr (of_int (v mod 2 ^ 32), skip d 4)"
    using raw_unsafe_holds [OF assms(1), of 4] by (simp add: nat_less_iff)
  have "\<not> bytes_left d < 4"
    using of_nat_le_left [of 4 d] assms(1) by (auto simp: holds_data_def not_less)
  moreover have "sign_extend DW_EH_PE_sdata4 (of_int (v mod 2 ^ Suc 31)) (of_nat (Suc 31)) = of_int v"
    using assms(2,3) by (intro sign_extend_eq) (simp_all add: DW_EH_PE_defs)
  ultimately show ?thesis
    by (simp add: decode_format_def copy_data_def ok_def raw DW_EH_PE_defs)
qed

text \<open>
  C36: LEB128 numbers decode to the numbers that were encoded: unsigned ones below \<open>2 ^ 31\<close> and
  signed ones of up to 28 bits, in the bytes of the reference encoders, which are consumed exactly.
\<close>

theorem leb128_roundtrip:
  assumes "n < 2 ^ 31" "holds_data (image_mem im) d (uleb n)"
    and "- (2 ^ 27) \<le> v" "v < 2 ^ 27" "holds_data (image_mem im) d' (sleb v)"
  shows "decode_value im d DW_EH_PE_uleb128 out = Inr (Inr (), of_nat n, skip d (length (uleb n))) \<and>
         decode_value im d' DW_EH_PE_sleb128 out = Inr (Inr (), of_int v, skip d' (length (sleb v)))"
  using assms by (simp add: decode_value_uleb decode_value_sleb)

definition example_image :: "8 word list \<Rightarrow> eh_image" where
  "example_image bs =
     \<lparr>image_mem = bytes_at 0x1000 bs, text_begin = 0, eh_frame_hdr_begin = 0, eh_frame_hdr_end = 0, eh_frame_begin = 0\<rparr>"

theorem leb128_roundtrip_witness:
  "decode_value (example_image (uleb 300 @ sleb (- 8))) \<lparr>cursor = 0x1000, bytes_left = 3\<rparr> DW_EH_PE_uleb128 0 =
     Inr (Inr (), 300, \<lparr>cursor = 0x1002, bytes_left = 1\<rparr>) \<and>
   decode_value (example_image (uleb 300 @ sleb (- 8))) \<lparr>cursor = 0x1002, bytes_left = 1\<rparr> DW_EH_PE_sleb128 0 =
     Inr (Inr (), - 8, \<lparr>cursor = 0x1003, bytes_left = 0\<rparr>)"
proof -
  have "uleb 300 = [0xAC, 0x02]" "sleb (- 8) = [0x78]"
    by (simp_all add: uleb.simps sleb.simps)
  then show ?thesis
    using leb128_roundtrip [of 300 "example_image (uleb 300 @ sleb (- 8))" "\<lparr>cursor = 0x1000, bytes_left = 3\<rparr>" "- 8"
        "\<lparr>cursor = 0x1002, bytes_left = 1\<rparr>" 0]
    by (simp add: holds_data_def example_image_def bytes_at_def skip_def)
qed

text \<open>
  The groups of a LEB128 number are shifted as 32-bit \<^verbatim>\<open>int\<close>s: the five bytes of the unsigned
  number \<open>2 ^ 31\<close> decode to its sign extension.
\<close>

theorem uleb128_sign_extends:
  "uleb (2 ^ 31) = [0x80, 0x80, 0x80, 0x80, 0x08] \<and>
   map_sum id fst (decode_format (bytes_at 0x1000 [0x80, 0x80, 0x80, 0x80, 0x08]) DW_EH_PE_uleb128
     \<lparr>cursor = 0x1000, bytes_left = 5\<rparr>) = Inr (Inr 0xFFFFFFFF80000000)"
proof
  show "uleb (2 ^ 31) = [0x80, 0x80, 0x80, 0x80, 0x08]"
    by (simp add: uleb.simps)
  show "map_sum id fst (decode_format (bytes_at 0x1000 [0x80, 0x80, 0x80, 0x80, 0x08]) DW_EH_PE_uleb128
     \<lparr>cursor = 0x1000, bytes_left = 5\<rparr>) = Inr (Inr 0xFFFFFFFF80000000)"
    by code_simp
qed

end
