(* ===== verification/UnwindRun.thy ===== *)
theory UnwindRun
  imports UnwindDecode
begin

text \<open>
  The call frame instructions against their meaning: \<open>cfa_instr\<close> are the instructions, \<open>encode_cfa\<close>
  their bytes, and \<open>cfa_run\<close> the table row they describe for an address. \<open>dwarf_exec_refines\<close> shows
  that the interpreter loop computes that row from the bytes.
\<close>

section \<open>Instructions and rows\<close>

datatype cfa_instr =
    Nop
  | Advance nat
  | Advance_loc nat nat
  | Offset nat nat
  | Restore nat
  | Def_cfa nat nat
  | Def_cfa_register nat
  | Def_cfa_offset nat

fun wf_cfa :: "cfa_instr \<Rightarrow> bool" where
  "wf_cfa Nop \<longleftrightarrow> True"
| "wf_cfa (Advance k) \<longleftrightarrow> k < 64"
| "wf_cfa (Advance_loc n k) \<longleftrightarrow> n \<in> {1, 2, 4} \<and> k < 256 ^ n"
| "wf_cfa (Offset r off) \<longleftrightarrow> r < 64 \<and> off < 2 ^ 31"
| "wf_cfa (Restore r) \<longleftrightarrow> r < 64"
| "wf_cfa (Def_cfa r off) \<longleftrightarrow> r < ARCH_NUM_DWARF_REGISTERS \<and> off < 2 ^ 31"
| "wf_cfa (Def_cfa_register r) \<longleftrightarrow> r < ARCH_NUM_DWARF_REGISTERS"
| "wf_cfa (Def_cfa_offset off) \<longleftrightarrow> off < 2 ^ 31"

fun encode_cfa :: "cfa_instr \<Rightarrow> 8 word list" where
  "encode_cfa Nop = [0x00]"
| "encode_cfa (Advance k) = [of_nat (64 * 1 + k)]"
| "encode_cfa (Advance_loc n k) = (if n = 1 then 0x02 else if n = 2 then 0x03 else 0x04) # le_bytes n k"
| "encode_cfa (Offset r off) = of_nat (64 * 2 + r) # uleb off"
| "encode_cfa (Restore r) = [of_nat (64 * 3 + r)]"
| "encode_cfa (Def_cfa r off) = 0x0C # uleb r @ uleb off"
| "encode_cfa (Def_cfa_register r) = 0x0D # uleb r"
| "encode_cfa (Def_cfa_offset off) = 0x0E # uleb off"

datatype reg_rule = Same | Saved_at "64 word" | Cfa_value

record cfa_row =
  row_loc :: "64 word"
  row_cfa_reg :: nat
  row_cfa_off :: "64 word"
  row_rules :: "reg_rule list"

fun cfa_apply :: "64 word \<Rightarrow> cfa_instr \<Rightarrow> cfa_row \<Rightarrow> cfa_row" where
  "cfa_apply ca Nop row = row"
| "cfa_apply ca (Advance k) row = row\<lparr>row_loc := row_loc row + of_nat k * ca\<rparr>"
| "cfa_apply ca (Advance_loc n k) row = row\<lparr>row_loc := row_loc row + of_nat k * ca\<rparr>"
| "cfa_apply ca (Offset r off) row = row\<lparr>row_rules := (row_rules row)[r := Saved_at (of_nat off)]\<rparr>"
| "cfa_apply ca (Restore r) row = row\<lparr>row_rules := (row_rules row)[r := Same]\<rparr>"
| "cfa_apply ca (Def_cfa r off) row = row\<lparr>row_cfa_reg := r, row_cfa_off := of_nat off\<rparr>"
| "cfa_apply ca (Def_cfa_register r) row = row\<lparr>row_cfa_reg := r\<rparr>"
| "cfa_apply ca (Def_cfa_offset off) row = row\<lparr>row_cfa_off := of_nat off\<rparr>"

text \<open>The row for \<open>addr\<close>: the instructions before the first row that lies above it.\<close>

fun cfa_run :: "64 word \<Rightarrow> 64 word \<Rightarrow> cfa_instr list \<Rightarrow> cfa_row \<Rightarrow> cfa_row" where
  "cfa_run ca addr [] row = row"
| "cfa_run ca addr (i # is) row =
     (if addr < row_loc row then row else cfa_run ca addr is (cfa_apply ca i row))"

section \<open>One instruction\<close>

lemma opcode_parts:
  assumes "q < 4" "k < 64"
  shows "LOW_6_BITS (of_nat (64 * q + k)) = of_nat k"
    and "AS_HIGH_2_BITS_OP (of_nat (64 * q + k)) = of_nat (64 * q)"
proof -
  let ?w = "of_nat (64 * q + k) :: 8 word"
  have w: "unat ?w = 64 * q + k" "(64 * q + k) mod 64 = k" "unat (of_nat k :: 8 word) = k"
    "unat (of_nat (64 * q) :: 8 word) = 64 * q"
    using assms unat_byte [of "64 * q + k"] unat_byte [of k] unat_byte [of "64 * q"]
    by (simp_all del: of_nat_add of_nat_mult)
  have m: "push_bit 6 1 - 1 = (mask 6 :: 8 word)"
    by (simp add: mask_eq_exp_minus_1)
  show "LOW_6_BITS ?w = of_nat k"
    unfolding LOW_6_BITS_def m word_unat_eq_iff unat_and_mask w using assms by simp
  show "AS_HIGH_2_BITS_OP ?w = of_nat (64 * q)"
    unfolding AS_HIGH_2_BITS_OP_def m word_unat_eq_iff unat_and_not_mask w using assms by simp
qed

text \<open>What an instruction does to the interpreter's state.\<close>

fun exec_instr :: "cfa_instr \<Rightarrow> cfa_state \<Rightarrow> cfa_state" where
  "exec_instr Nop s = s"
| "exec_instr (Advance k) s = map_state (\<lambda>st. st\<lparr>pc := pc st + of_nat k * code_alignment_factor st\<rparr>) s"
| "exec_instr (Advance_loc n k) s = map_state (\<lambda>st. st\<lparr>pc := pc st + of_nat k * code_alignment_factor st\<rparr>) s"
| "exec_instr (Offset r off) (st, rules) =
     (if r < ARCH_NUM_DWARF_REGISTERS
      then (st, rules[r := \<lparr>rule = DW_CFA_offset, rule_offset = of_nat off\<rparr>]) else (st, rules))"
| "exec_instr (Restore r) (st, rules) =
     (if r < ARCH_NUM_DWARF_REGISTERS
      then (st, rules[r := \<lparr>rule = DW_CFA_same_value, rule_offset = 0\<rparr>]) else (st, rules))"
| "exec_instr (Def_cfa r off) s = map_state (\<lambda>st. st\<lparr>cfa_reg_idx := of_nat r, cfa_offset := of_nat off\<rparr>) s"
| "exec_instr (Def_cfa_register r) s = map_state (\<lambda>st. st\<lparr>cfa_reg_idx := of_nat r\<rparr>) s"
| "exec_instr (Def_cfa_offset off) s = map_state (\<lambda>st. st\<lparr>cfa_offset := of_nat off\<rparr>) s"

lemmas DW_CFA_defs = DW_CFA_nop_def DW_CFA_advance_loc1_def DW_CFA_advance_loc2_def DW_CFA_advance_loc4_def
  DW_CFA_same_value_def DW_CFA_def_cfa_def DW_CFA_def_cfa_register_def DW_CFA_def_cfa_offset_def
  DW_CFA_advance_loc_def DW_CFA_offset_def DW_CFA_restore_def HIGH_2_BITS_OP_def

lemmas run_defs = run_bind_def run_seq_def ok_def fail_def check_def update_def decode_local_def decode_into_def

lemma set_rule_eq:
  assumes "r < 64"
  shows "set_rule (of_nat r) k v ((st, rules), d) =
    Inr (Inr (), ((st, if r < ARCH_NUM_DWARF_REGISTERS then rules[r := \<lparr>rule = k, rule_offset = v\<rparr>] else rules), d))"
  using assms unat_byte [of r] by (simp add: set_rule_def update_def ok_def ARCH_NUM_DWARF_REGISTERS_def word_less_nat_alt)

lemma advance_eq:
  assumes "holds_data (image_mem im) d (le_bytes n k)" "k < 256 ^ n"
  shows "exec_advance_loc im n (s, d) =
    Inr (Inr (), (map_state (\<lambda>st. st\<lparr>pc := pc st + of_nat k * code_alignment_factor st\<rparr>) s, skip d n))"
proof -
  have "of_nat n \<le> bytes_left d"
    using assms(1) by (intro of_nat_le_left) (simp add: holds_data_def)
  with assms show ?thesis
    using raw_unsafe_holds [OF assms(1), of n]
    by (simp add: exec_advance_loc_def ok_def not_less [symmetric])
qed

lemma dwarf_step_opcode:
  assumes "holds_data (image_mem im) d (b # bs)"
  shows "dwarf_step im (s, d) = exec_opcode im b (s, skip d 1)" "holds_data (image_mem im) (skip d 1) bs"
proof -
  from assms have one: "holds_data (image_mem im) d [b]" and rest: "holds_data (image_mem im) (skip d 1) bs"
    by (simp_all add: holds_data_Cons [of "image_mem im" d b bs])
  have eat: "eh_consume (image_mem im) 1 d = Inr (Inr (ucast b), skip d 1)"
    using eh_consume_holds [OF one, of 1] by simp
  show "dwarf_step im (s, d) = exec_opcode im b (s, skip d 1)"
    unfolding dwarf_step_def run_bind_def eh_read_def prod.case eat by (simp add: byte_64)
  show "holds_data (image_mem im) (skip d 1) bs" by (rule rest)
qed

lemma decode_local_uleb:
  assumes "holds_data (image_mem im) d (uleb n)" "n < 2 ^ 31"
  shows "decode_local im (\<lambda>_. DW_EH_PE_uleb128) (s, d) = Inr (Inr (of_nat n), (s, skip d (length (uleb n))))"
  by (simp add: decode_local_def decode_value_uleb [OF assms])

lemma exec_def_cfa_offset_eq:
  assumes "holds_data (image_mem im) d (uleb n)" "n < 2 ^ 31"
  shows "exec_def_cfa_offset im (s, d) =
    Inr (Inr (), (map_state (\<lambda>st. st\<lparr>cfa_offset := of_nat n\<rparr>) s, skip d (length (uleb n))))"
  by (simp add: exec_def_cfa_offset_def decode_into_def decode_value_uleb [OF assms])

lemma exec_opcode_def_cfa:
  assumes "holds_data (image_mem im) d (uleb r @ bs)" "r < ARCH_NUM_DWARF_REGISTERS"
    and "opcode = DW_CFA_def_cfa \<or> opcode = DW_CFA_def_cfa_register"
  shows "exec_opcode im opcode (s, d) =
    (if opcode = DW_CFA_def_cfa then exec_def_cfa_offset im else ok ())
      (map_state (\<lambda>st. st\<lparr>cfa_reg_idx := of_nat r\<rparr>) s, skip d (length (uleb r)))"
proof -
  have r: "r < 2 ^ 31" "(of_nat r :: 64 word) < of_nat ARCH_NUM_DWARF_REGISTERS"
    "(ucast (of_nat r :: 64 word) :: 8 word) = of_nat r"
    using assms(2) unat_byte [of r]
    by (simp_all add: ARCH_NUM_DWARF_REGISTERS_def word_less_nat_alt unsigned_of_nat take_bit_nat_eq_self
        word_unat_eq_iff unsigned_ucast_eq)
  have "holds_data (image_mem im) d (uleb r)"
    using assms(1) by (simp add: holds_data_append)
  note decode = decode_local_uleb [OF this r(1)]
  from assms(3) r show ?thesis
    by (auto simp: decode exec_opcode_def AS_HIGH_2_BITS_OP_def DW_CFA_defs run_bind_def run_seq_def check_def ok_def update_def)
qed

text \<open>The interpreter executes an encoded instruction and consumes its bytes.\<close>

lemma dwarf_step_exec:
  assumes "holds_data (image_mem im) d (encode_cfa i)" "wf_cfa i"
  shows "dwarf_step im (s, d) = Inr (Inr (), (exec_instr i s, skip d (length (encode_cfa i))))"
proof (cases i)
  case Nop
  with assms show ?thesis
    by (simp add: dwarf_step_opcode exec_opcode_def AS_HIGH_2_BITS_OP_def DW_CFA_defs ok_def)
next
  case (Advance k)
  with assms have "k < 64" by simp
  note parts = opcode_parts [of 1 k, OF _ this]
  have "(ucast (of_nat k :: 8 word) :: 64 word) = of_nat k"
    using \<open>k < 64\<close> by (simp add: word_unat_eq_iff unsigned_ucast_eq unsigned_of_nat take_bit_nat_eq_self)
  with Advance assms parts show ?thesis
    by (simp add: dwarf_step_opcode exec_opcode_def exec_high_2_bits_op_def DW_CFA_defs update_def ok_def)
next
  case (Advance_loc n k)
  let ?op = "if n = 1 then 0x02 else if n = 2 then 0x03 else 0x04 :: 8 word"
  from Advance_loc assms have h: "holds_data (image_mem im) d (?op # le_bytes n k)" and n: "n = 1 \<or> n = 2 \<or> n = 4"
    and k: "k < 256 ^ n"
    by simp_all
  note step = dwarf_step_opcode [OF h]
  have "exec_opcode im ?op (s, skip d 1) = exec_advance_loc im n (s, skip d 1)"
    using n by (auto simp: exec_opcode_def AS_HIGH_2_BITS_OP_def DW_CFA_defs)
  with step advance_eq [OF step(2) k] Advance_loc show ?thesis
    by simp
next
  case (Offset r off)
  with assms have h: "holds_data (image_mem im) d (of_nat (64 * 2 + r) # uleb off)" and r: "r < 64" and off: "off < 2 ^ 31"
    by simp_all
  note step = dwarf_step_opcode [OF h] and parts = opcode_parts [of 2 r, OF _ r]
  obtain st rules where s: "s = (st, rules)" by (cases s)
  show ?thesis
    using step parts Offset
    by (simp add: s decode_local_uleb [OF step(2) off, simplified] exec_opcode_def exec_high_2_bits_op_def DW_CFA_defs run_bind_def set_rule_eq [OF r] del: of_nat_add of_nat_mult)
next
  case (Restore r)
  with assms have h: "holds_data (image_mem im) d [of_nat (64 * 3 + r)]" and r: "r < 64"
    by simp_all
  note step = dwarf_step_opcode [OF h] and parts = opcode_parts [of 3 r, OF _ r]
  obtain st rules where s: "s = (st, rules)" by (cases s)
  show ?thesis
    using step parts Restore
    by (simp add: s exec_opcode_def exec_high_2_bits_op_def DW_CFA_defs set_rule_eq [OF r] del: of_nat_add of_nat_mult)
next
  case (Def_cfa r off)
  with assms have h: "holds_data (image_mem im) d (0x0C # (uleb r @ uleb off))" and r: "r < ARCH_NUM_DWARF_REGISTERS"
    and off: "off < 2 ^ 31"
    by simp_all
  note step = dwarf_step_opcode [OF h]
  from step(2) have "holds_data (image_mem im) (skip (skip d 1) (length (uleb r))) (uleb off)"
    by (simp add: holds_data_append)
  from exec_def_cfa_offset_eq [OF this off] show ?thesis
    using step exec_opcode_def_cfa [OF step(2) r, of DW_CFA_def_cfa] Def_cfa
    by (cases s) (simp add: DW_CFA_defs map_state_def)
next
  case (Def_cfa_register r)
  with assms have h: "holds_data (image_mem im) d (0x0D # (uleb r @ []))" and r: "r < ARCH_NUM_DWARF_REGISTERS"
    by simp_all
  note step = dwarf_step_opcode [OF h]
  show ?thesis
    using step exec_opcode_def_cfa [OF step(2) r, of DW_CFA_def_cfa_register] Def_cfa_register
    by (simp add: DW_CFA_defs ok_def)
next
  case (Def_cfa_offset off)
  with assms have h: "holds_data (image_mem im) d (0x0E # uleb off)" and off: "off < 2 ^ 31"
    by simp_all
  note step = dwarf_step_opcode [OF h]
  show ?thesis
    using step exec_def_cfa_offset_eq [OF step(2) off] Def_cfa_offset
    by (simp add: exec_opcode_def AS_HIGH_2_BITS_OP_def DW_CFA_defs)
qed

section \<open>A whole program\<close>

text \<open>The row an interpreter state stands for.\<close>

definition abs_rule :: "register_rule \<Rightarrow> reg_rule" where
  "abs_rule r = (if rule r = DW_CFA_offset then Saved_at (rule_offset r)
                 else if rule r = DW_CFA_def_cfa then Cfa_value else Same)"

definition abs_row :: "cfa_state \<Rightarrow> cfa_row" where
  "abs_row s = (case s of (st, rules) \<Rightarrow>
     \<lparr>row_loc = pc st, row_cfa_reg = unat (cfa_reg_idx st), row_cfa_off = cfa_offset st,
      row_rules = map abs_rule rules\<rparr>)"

definition known_rule :: "register_rule \<Rightarrow> bool" where
  "known_rule r \<longleftrightarrow> rule r \<in> {DW_CFA_same_value, DW_CFA_offset, DW_CFA_def_cfa}"

lemma known_rule_updates [simp]:
  "known_rule \<lparr>rule = DW_CFA_offset, rule_offset = v\<rparr>" "known_rule \<lparr>rule = DW_CFA_same_value, rule_offset = v\<rparr>"
  by (simp_all add: known_rule_def)

lemma list_all_update: "list_all P xs \<Longrightarrow> P x \<Longrightarrow> list_all P (xs[i := x])"
  by (auto simp: list_all_iff dest: set_update_subset_insert [THEN subsetD])

text \<open>The rest of the state, which instructions leave alone.\<close>

definition erase_row :: "unwind_state \<Rightarrow> unwind_state" where
  "erase_row st = st\<lparr>pc := 0, cfa_reg_idx := 0, cfa_offset := 0\<rparr>"

definition same_regs :: "unwind_state \<Rightarrow> unwind_state \<Rightarrow> bool" where
  "same_regs st st' \<longleftrightarrow> erase_row st' = erase_row st"

lemma same_regs_refl [simp]: "same_regs st st"
  and same_regs_trans: "same_regs st st' \<Longrightarrow> same_regs st' st'' \<Longrightarrow> same_regs st st''"
  by (simp_all add: same_regs_def)

lemma same_regs_fields:
  assumes "same_regs st st'"
  shows "frame st' = frame st" "ret_reg_idx st' = ret_reg_idx st" "at_end st' = at_end st"
    "code_alignment_factor st' = code_alignment_factor st" "data_alignment_factor st' = data_alignment_factor st"
    "fde_code st' = fde_code st" "cie_code st' = cie_code st" "signal_frame st' = signal_frame st"
  using assms [unfolded same_regs_def, THEN arg_cong [where f = frame]]
      assms [unfolded same_regs_def, THEN arg_cong [where f = ret_reg_idx]]
      assms [unfolded same_regs_def, THEN arg_cong [where f = at_end]]
      assms [unfolded same_regs_def, THEN arg_cong [where f = code_alignment_factor]]
      assms [unfolded same_regs_def, THEN arg_cong [where f = data_alignment_factor]]
      assms [unfolded same_regs_def, THEN arg_cong [where f = fde_code]]
      assms [unfolded same_regs_def, THEN arg_cong [where f = cie_code]]
      assms [unfolded same_regs_def, THEN arg_cong [where f = signal_frame]]
  by (simp_all add: erase_row_def)

lemma same_regs_return_address:
  "same_regs st st' \<Longrightarrow> unwind_get_return_address st' = unwind_get_return_address st"
  by (simp add: unwind_get_return_address_def frame_reg_def same_regs_fields)

lemma exec_instr_abs:
  assumes "wf_cfa i" "length (snd s) = ARCH_NUM_DWARF_REGISTERS"
  shows "abs_row (exec_instr i s) = cfa_apply (code_alignment_factor (fst s)) i (abs_row s)"
    and "same_regs (fst s) (fst (exec_instr i s))"
    and "length (snd (exec_instr i s)) = ARCH_NUM_DWARF_REGISTERS"
    and "list_all known_rule (snd s) \<Longrightarrow> list_all known_rule (snd (exec_instr i s))"
proof -
  obtain st rules where s: "s = (st, rules)" by (cases s)
  have r: "r < ARCH_NUM_DWARF_REGISTERS \<Longrightarrow> unat (of_nat r :: 8 word) = r" for r
    by (rule unat_byte) (simp add: ARCH_NUM_DWARF_REGISTERS_def)
  show "abs_row (exec_instr i s) = cfa_apply (code_alignment_factor (fst s)) i (abs_row s)"
    using assms by (cases i) (auto simp: s abs_row_def map_state_def abs_rule_def map_update r DW_CFA_defs list_update_beyond)
  show "same_regs (fst s) (fst (exec_instr i s))"
    by (cases i) (auto simp: s same_regs_def erase_row_def map_state_def)
  show "length (snd (exec_instr i s)) = ARCH_NUM_DWARF_REGISTERS"
    using assms(2) by (cases i) (auto simp: s map_state_def)
  show "list_all known_rule (snd s) \<Longrightarrow> list_all known_rule (snd (exec_instr i s))"
    by (cases i) (auto simp: s map_state_def intro: list_all_update)
qed

text \<open>
  The loop stops before the first row above the return address, else at the end of the data.
\<close>

lemma dwarf_exec_eq:
  assumes "holds_data (image_mem im) d (concat (map encode_cfa prog))" "left d = length (concat (map encode_cfa prog))"
    and "list_all wf_cfa prog" "length (snd s) = ARCH_NUM_DWARF_REGISTERS" "list_all known_rule (snd s)"
    and "unwind_get_return_address (fst s) = Inr addr"
  shows "\<exists>s' d'. dwarf_exec im (s, d) = Inr (Inr (), (s', d')) \<and>
    abs_row s' = cfa_run (code_alignment_factor (fst s)) addr prog (abs_row s) \<and>
    same_regs (fst s) (fst s') \<and> length (snd s') = ARCH_NUM_DWARF_REGISTERS \<and> list_all known_rule (snd s')"
  using assms
proof (induction prog arbitrary: s d)
  case Nil
  then have "bytes_left d = 0" by (simp add: unat_eq_0)
  with Nil show ?case
    by (subst dwarf_exec.simps) (auto simp: ok_def)
next
  case (Cons i prog)
  let ?bs = "encode_cfa i" and ?s1 = "exec_instr i s" and ?d1 = "skip d (length (encode_cfa i))"
  have h: "holds_data (image_mem im) d ?bs" "holds_data (image_mem im) ?d1 (concat (map encode_cfa prog))"
    using Cons.prems(1) by (simp_all add: holds_data_append)
  have loc: "row_loc (abs_row s) = pc (fst s)"
    by (cases s) (simp add: abs_row_def)
  have "?bs \<noteq> []" by (cases i) simp_all
  then have "bytes_left d \<noteq> 0"
    using Cons.prems(2) by auto
  then have run: "dwarf_exec im (s, d) =
      (if addr < pc (fst s) then Inr (Inr (), (s, d)) else dwarf_exec im (?s1, ?d1))"
    using Cons.prems(3,6) dwarf_step_exec [OF h(1), of s]
    by (subst dwarf_exec.simps) (simp add: ok_def)
  show ?case
  proof (cases "addr < pc (fst s)")
    case True
    with run loc Cons.prems(4,5) show ?thesis by auto
  next
    case False
    note abs = exec_instr_abs [of i s]
    have left: "left ?d1 = length (concat (map encode_cfa prog))"
      using Cons.prems(2) by (simp add: left_skip)
    have ra: "unwind_get_return_address (fst ?s1) = Inr addr"
      using Cons.prems(3,4,6) same_regs_return_address [OF abs(2)] by simp
    from Cons.IH [OF h(2) left _ _ _ ra] Cons.prems(3,4,5) abs obtain s' d' where
      "dwarf_exec im (?s1, ?d1) = Inr (Inr (), (s', d'))"
      "abs_row s' = cfa_run (code_alignment_factor (fst ?s1)) addr prog (abs_row ?s1)"
      "same_regs (fst ?s1) (fst s')" "length (snd s') = ARCH_NUM_DWARF_REGISTERS" "list_all known_rule (snd s')"
      by auto
    with run False loc abs Cons.prems(3,4) same_regs_fields(4) [OF abs(2)] show ?thesis
      by (auto intro: same_regs_trans)
  qed
qed

text \<open>
  C32: Running encoded call frame instructions computes the row they describe for the return address:
  which register and offset give the frame address, and where each register was saved; the other
  parts of the state are left alone.
\<close>

theorem dwarf_exec_refines:
  assumes "holds_data (image_mem im) d (concat (map encode_cfa prog))" "left d = length (concat (map encode_cfa prog))"
    and "list_all wf_cfa prog" "length rules = ARCH_NUM_DWARF_REGISTERS" "list_all known_rule rules"
    and "unwind_get_return_address st = Inr addr"
  shows "\<exists>st' rules' d'. dwarf_exec im ((st, rules), d) = Inr (Inr (), ((st', rules'), d')) \<and>
    abs_row (st', rules') = cfa_run (code_alignment_factor st) addr prog (abs_row (st, rules)) \<and>
    same_regs st st'"
  using dwarf_exec_eq [OF assms(1-3), of "(st, rules)"] assms(4-6) by fastforce

theorem dwarf_exec_refines_witness:
  "\<exists>st' rules' d'. dwarf_exec (example_image (concat (map encode_cfa [Def_cfa 7 8, Advance 5, Offset 6 2])))
      ((zero_state, initial_rules), \<lparr>cursor = 0x1000, bytes_left = 6\<rparr>) = Inr (Inr (), ((st', rules'), d')) \<and>
    abs_row (st', rules') = cfa_run 0 0 [Def_cfa 7 8, Advance 5, Offset 6 2] (abs_row (zero_state, initial_rules)) \<and>
    same_regs zero_state st'"
proof -
  let ?prog = "[Def_cfa 7 8, Advance 5, Offset 6 2]"
  have bytes: "concat (map encode_cfa ?prog) = [0x0C, 7, 8, 0x45, 0x86, 2]"
    by (simp add: uleb.simps)
  have "code_alignment_factor zero_state = 0" by (simp add: zero_state_def)
  then show ?thesis
    using dwarf_exec_refines [of "example_image (concat (map encode_cfa ?prog))" "\<lparr>cursor = 0x1000, bytes_left = 6\<rparr>" ?prog
        initial_rules zero_state 0]
    unfolding bytes
    by (simp add: holds_data_def example_image_def bytes_at_def ARCH_NUM_DWARF_REGISTERS_def initial_rules_def
        known_rule_def list_all_iff zero_state_def unwind_get_return_address_def frame_reg_def)
qed

end
