(* ===== verification/UnwindTable.thy ===== *)
theory UnwindTable
  imports UnwindDecode
begin

text \<open>
  Finding the entry of a function in the table of \<^verbatim>\<open>.eh_frame_hdr\<close>: \<open>fde_table\<close> says that the table
  decodes to a list of code addresses with the addresses of their entries; the loop of \<^verbatim>\<open>find_fde\<close>
  is an interpretation of \<open>bisection\<close>.
\<close>

definition entry_data :: "unwinder \<Rightarrow> nat \<Rightarrow> eh_data" where
  "entry_data u i = \<lparr>cursor = table_entry u (of_nat i), bytes_left = ucast (g_fde_table_entry_width u)\<rparr>"

definition entry_fde_data :: "unwinder \<Rightarrow> nat \<Rightarrow> eh_data" where
  "entry_fde_data u i =
     (let half = ucast (g_fde_table_entry_width u) div 2
      in \<lparr>cursor = table_entry u (of_nat i) + half, bytes_left = half\<rparr>)"

definition decodes_to :: "eh_image \<Rightarrow> unwinder \<Rightarrow> eh_data \<Rightarrow> 64 word \<Rightarrow> bool" where
  "decodes_to im u d v \<longleftrightarrow>
     (case decode_value im d (g_fde_table_encoding u) 0 of
        Inl _ \<Rightarrow> False
      | Inr (r, out, _) \<Rightarrow> r = Inr () \<and> out = v)"

lemma decodes_toE:
  assumes "decodes_to im u d v"
  obtains d' where "decode_value im d (g_fde_table_encoding u) 0 = Inr (Inr (), v, d')"
  using assms
  by (cases "decode_value im d (g_fde_table_encoding u) 0") (auto simp: decodes_to_def)

definition entry_code :: "eh_image \<Rightarrow> unwinder \<Rightarrow> nat \<Rightarrow> 64 word" where
  "entry_code im u i =
     (case decode_value im (entry_data u i) (g_fde_table_encoding u) 0 of Inr (_, out, _) \<Rightarrow> out | Inl _ \<Rightarrow> 0)"

lemma entry_code_eq: "decodes_to im u (entry_data u i) v \<Longrightarrow> entry_code im u i = v"
  by (erule decodes_toE) (simp add: entry_code_def)

interpretation fde_search: bisection
  "\<lambda>lo hi. find_fde_loop im u addr (of_nat lo) (of_nat hi)"
  "\<lambda>i. decodes_to im u (entry_data u i) (entry_code im u i)"
  "\<lambda>i. entry_code im u i \<le> addr"
  "\<lambda>i. Inr (Inr (of_nat i))"
  "2 ^ 64"
  for im u addr
proof
  fix lo hi :: nat
  let ?mid = "lo + (hi - lo) div 2"
  assume "lo + 1 < hi" "hi < 2 ^ 64" and read: "decodes_to im u (entry_data u ?mid) (entry_code im u ?mid)"
  then have "of_nat lo + (of_nat hi - of_nat lo) div 2 = (of_nat ?mid :: 64 word)" "(1::64 word) < of_nat hi - of_nat lo"
    using midpoint_of_nat [where ?'a = 64, of lo hi] by simp_all
  moreover from read obtain d' where
    "decode_value im (entry_data u ?mid) (g_fde_table_encoding u) 0 = Inr (Inr (), entry_code im u ?mid, d')"
    by (rule decodes_toE)
  ultimately show "find_fde_loop im u addr (of_nat lo) (of_nat hi) =
      (if entry_code im u ?mid \<le> addr then find_fde_loop im u addr (of_nat ?mid) (of_nat hi)
       else find_fde_loop im u addr (of_nat lo) (of_nat ?mid))"
    by (subst find_fde_loop.simps) (simp add: entry_data_def Let_def del: of_nat_add)
next
  fix lo hi :: nat
  assume "lo \<le> hi" "hi \<le> lo + 1" "hi < 2 ^ 64"
  then have "\<not> (1::64 word) < of_nat hi - of_nat lo"
    using midpoint_of_nat(2) [where ?'a = 64, of lo hi] by simp
  then show "find_fde_loop im u addr (of_nat lo) (of_nat hi) = Inr (Inr (of_nat lo))"
    by (subst find_fde_loop.simps) simp
qed

definition fde_table :: "eh_image \<Rightarrow> unwinder \<Rightarrow> (64 word \<times> 64 word) list \<Rightarrow> bool" where
  "fde_table im u entries \<longleftrightarrow>
     unat (g_num_fdes u) = length entries \<and> sorted (map fst entries) \<and>
     list_all (\<lambda>i. decodes_to im u (entry_data u i) (fst (entries ! i)) \<and>
                   decodes_to im u (entry_fde_data u i) (snd (entries ! i))) [0..<length entries]"

text \<open>
  C35: \<^verbatim>\<open>find_fde\<close> returns the entry of the last function that does not start above the address, and
  the first entry when all of them do.
\<close>

theorem find_fde_exact:
  assumes "fde_table im u entries" "entries \<noteq> []"
  shows "\<exists>i < length entries. find_fde im u addr = Inr (snd (entries ! i)) \<and>
    (fst (entries ! i) \<le> addr \<or> i = 0) \<and> (\<forall>j < length entries. i < j \<longrightarrow> addr < fst (entries ! j))"
proof -
  let ?n = "length entries"
  from assms have n: "unat (g_num_fdes u) = ?n" and sorted: "sorted (map fst entries)"
    and code: "\<And>i. i < ?n \<Longrightarrow> decodes_to im u (entry_data u i) (fst (entries ! i))"
    and fde: "\<And>i. i < ?n \<Longrightarrow> decodes_to im u (entry_fde_data u i) (snd (entries ! i))"
    by (auto simp: fde_table_def list_all_iff)
  have eq: "entry_code im u i = fst (entries ! i)" if "i < ?n" for i
    by (rule entry_code_eq [OF code [OF that]])
  have word_n: "of_nat ?n = g_num_fdes u"
    by (simp flip: n)
  obtain i where run: "find_fde_loop im u addr (of_nat 0) (of_nat ?n) = Inr (Inr (of_nat i))"
    and i: "fde_search.last_not_above im u addr ?n i"
  proof (rule fde_search.search [of ?n im u addr])
    show "?n < 2 ^ 64" using unat_lt_64 [of "g_num_fdes u"] n by simp
    show "0 < ?n" using assms(2) by simp
    show "decodes_to im u (entry_data u j) (entry_code im u j)" if "j < ?n" for j
      using code [OF that] eq [OF that] by simp
    show "entry_code im u j \<le> addr" if "j < k" "k < ?n" "entry_code im u k \<le> addr" for j k
      using sorted_nth_mono [OF sorted, of j k] that eq by (force intro: order_trans)
  qed
  from i have i: "i < ?n" "fst (entries ! i) \<le> addr \<or> i = 0" "\<forall>j < ?n. i < j \<longrightarrow> addr < fst (entries ! j)"
    by (auto simp: fde_search.last_not_above_def eq not_le)
  obtain d' where "decode_value im (entry_fde_data u i) (g_fde_table_encoding u) 0 = Inr (Inr (), snd (entries ! i), d')"
    using fde [OF i(1)] by (rule decodes_toE)
  then have "find_fde im u addr = Inr (snd (entries ! i))"
    using run word_n by (simp add: find_fde_def entry_fde_data_def Let_def)
  with i show ?thesis by blast
qed

text \<open>A table of two functions, with entries as linkers write them: two four-byte offsets from the header.\<close>

definition example_table :: "8 word list" where
  "example_table = le_bytes 4 0x200 @ le_bytes 4 0x90 @ le_bytes 4 0x300 @ le_bytes 4 0xA0"

definition example_table_image :: eh_image where
  "example_table_image = (example_image example_table)\<lparr>eh_frame_hdr_begin := 0x1000\<rparr>"

definition example_unwinder :: unwinder where
  "example_unwinder =
     \<lparr>g_unwinder_available = True, g_fde_binary_search_table = 0x1000, g_fde_table_encoding = 0x3B,
      g_fde_table_entry_width = 8, g_num_fdes = 2\<rparr>"

definition example_entries :: "(64 word \<times> 64 word) list" where
  "example_entries = [(0x1200, 0x1090), (0x1300, 0x10A0)]"

theorem find_fde_exact_witness:
  "\<exists>i < length example_entries.
     find_fde example_table_image example_unwinder 0x1280 = Inr (snd (example_entries ! i)) \<and>
     (fst (example_entries ! i) \<le> 0x1280 \<or> i = 0) \<and>
     (\<forall>j < length example_entries. i < j \<longrightarrow> 0x1280 < fst (example_entries ! j))"
proof (rule find_fde_exact)
  show "fde_table example_table_image example_unwinder example_entries"
    by code_simp
qed (simp add: example_entries_def)

end
