(* ===== verification/UnwindFrame.thy ===== *)
theory UnwindFrame
  imports UnwindRun UnwindTable
begin

text \<open>
  The entries of \<^verbatim>\<open>.eh_frame\<close> and one step of the unwinder. \<open>cie_body\<close> and \<open>fde_body\<close> lay a common
  information entry and a frame description entry out as compilers write them; the lemmas show that
  \<^verbatim>\<open>parse_cie\<close> and \<^verbatim>\<open>parse_fde\<close> read them back, and \<open>next_frame_exact\<close> puts the search, the parsing and the
  interpreter together.
\<close>

section \<open>Common information entries\<close>

record cie =
  cie_code_align :: nat
  cie_data_align :: int
  cie_ret_reg :: nat
  cie_fde_encoding :: "8 word"
  cie_program :: "cfa_instr list"

definition wf_cie :: "cie \<Rightarrow> bool" where
  "wf_cie c \<longleftrightarrow> cie_code_align c < 2 ^ 31 \<and> - (2 ^ 27) \<le> cie_data_align c \<and> cie_data_align c < 2 ^ 27 \<and>
     cie_ret_reg c < ARCH_NUM_DWARF_REGISTERS \<and> list_all wf_cfa (cie_program c)"

definition cie_header :: "cie \<Rightarrow> 8 word list" where
  "cie_header c =
     le_bytes 4 0 @ [1] @ [0x7A] @ [0x52] @ [0] @ uleb (cie_code_align c) @ sleb (cie_data_align c) @
     uleb (cie_ret_reg c) @ uleb 1 @ [cie_fde_encoding c]"

definition cie_body :: "cie \<Rightarrow> 8 word list" where
  "cie_body c = cie_header c @ concat (map encode_cfa (cie_program c))"

text \<open>Reading a part of the data; \<open>holds_data_append\<close> gives the rest.\<close>

lemma eh_read_holds:
  "holds_data (image_mem im) d bs \<Longrightarrow> n = length bs \<Longrightarrow>
     eh_read im n (s, d) = Inr (Inr (of_nat (le_nat bs)), (s, skip d n))"
  by (simp add: eh_read_def eh_consume_holds)

lemma eh_read_byte:
  "holds_data (image_mem im) d [b] \<Longrightarrow> eh_read im 1 (s, d) = Inr (Inr (ucast b), (s, skip d 1))"
  using eh_read_holds [of im d "[b]" 1 s] by simp

lemma run_bind_Inr: "m s = Inr (Inr x, s') \<Longrightarrow> run_bind m f s = f x s'"
  by (simp add: run_bind_def)

lemma run_seq_Inr: "m s = Inr (Inr (), s') \<Longrightarrow> run_seq m n s = n s'"
  by (simp add: run_seq_def run_bind_def)

lemma check_True: "check True e s = Inr (Inr (), s)"
  by (simp add: check_def ok_def)

lemma parse_augmentation_char:
  assumes "holds_data (image_mem im) d [b]" "i < length EXPECTED_AUG_STRING" "ucast b = EXPECTED_AUG_STRING ! i"
  shows "parse_augmentation im i (st, d) = parse_augmentation im (Suc i) (st, skip d 1)"
proof -
  have "eh_consume (image_mem im) 1 d = Inr (Inr (ucast b), skip d 1)"
    using eh_consume_holds [OF assms(1), of 1] by simp
  with assms(2,3) show ?thesis
    by (subst parse_augmentation.simps) simp
qed

lemma parse_augmentation_eq:
  assumes "holds_data (image_mem im) d [0x7A]" "holds_data (image_mem im) (skip d 1) [0x52]"
    "holds_data (image_mem im) (skip (skip d 1) 1) [0]"
  shows "parse_augmentation im 0 (st, d) = Inr (Inr (), (st, skip (skip (skip d 1) 1) 1))"
proof -
  have "parse_augmentation im 0 (st, d) = parse_augmentation im (Suc 0) (st, skip d 1)"
    by (rule parse_augmentation_char [OF assms(1)]) (simp_all add: EXPECTED_AUG_STRING_def)
  also have "\<dots> = parse_augmentation im (Suc (Suc 0)) (st, skip (skip d 1) 1)"
    by (rule parse_augmentation_char [OF assms(2)]) (simp_all add: EXPECTED_AUG_STRING_def)
  also have "\<dots> = parse_augmentation im (Suc (Suc (Suc 0))) (st, skip (skip (skip d 1) 1) 1)"
    by (rule parse_augmentation_char [OF assms(3)]) (simp_all add: EXPECTED_AUG_STRING_def)
  also have "\<dots> = Inr (Inr (), (st, skip (skip (skip d 1) 1) 1))"
    by (subst parse_augmentation.simps) (simp add: EXPECTED_AUG_STRING_def ok_def)
  finally show ?thesis .
qed

text \<open>What the entry puts into the state.\<close>

definition with_cie :: "cie \<Rightarrow> eh_data \<Rightarrow> unwind_state \<Rightarrow> unwind_state" where
  "with_cie c d st = st
     \<lparr>code_alignment_factor := of_nat (cie_code_align c), data_alignment_factor := of_int (cie_data_align c),
      ret_reg_idx := of_nat (cie_ret_reg c), fde_encoding := cie_fde_encoding c,
      cie_code := skip d (length (cie_header c))\<rparr>"

lemma parse_cie_eq:
  assumes h: "holds_data (image_mem im) d (cie_header c)" and c: "wf_cie c"
  shows "parse_cie im (st, d) = Inr (Inr (), (with_cie c d st, skip d (length (cie_header c))))"
proof -
  let ?m = "image_mem im" and ?u = "uleb (cie_code_align c)" and ?s = "sleb (cie_data_align c)"
    and ?r = "uleb (cie_ret_reg c)"
  define d4 where "d4 = skip d 4"
  define d5 where "d5 = skip d4 1"
  define d8 where "d8 = skip (skip (skip d5 1) 1) 1"
  define d9 where "d9 = skip d8 (length ?u)"
  define d10 where "d10 = skip d9 (length ?s)"
  define d11 where "d11 = skip d10 (length ?r)"
  define d12 where "d12 = skip d11 (length (uleb 1))"
  define d13 where "d13 = skip d12 1"
  note defs = d4_def d5_def d8_def d9_def d10_def d11_def d12_def d13_def
  have parts: "holds_data ?m d (le_bytes 4 0)" "holds_data ?m d4 [1]"
    "holds_data ?m d5 [0x7A]" "holds_data ?m (skip d5 1) [0x52]" "holds_data ?m (skip (skip d5 1) 1) [0]"
    "holds_data ?m d8 ?u" "holds_data ?m d9 ?s" "holds_data ?m d10 ?r" "holds_data ?m d11 (uleb 1)"
    "holds_data ?m d12 [cie_fde_encoding c]"
    using h unfolding cie_header_def holds_data_append defs by simp_all
  have total: "skip d (length (cie_header c)) = d13"
    unfolding cie_header_def defs by (simp add: add.assoc)
  have r: "cie_ret_reg c < 2 ^ 31" "(of_nat (cie_ret_reg c) :: 64 word) < of_nat ARCH_NUM_DWARF_REGISTERS"
    "(ucast (of_nat (cie_ret_reg c) :: 64 word) :: 8 word) = of_nat (cie_ret_reg c)"
    using c unat_byte [of "cie_ret_reg c"]
    by (simp_all add: wf_cie_def ARCH_NUM_DWARF_REGISTERS_def word_less_nat_alt unsigned_of_nat take_bit_nat_eq_self
        word_unat_eq_iff unsigned_ucast_eq)
  have eat: "eh_read im 4 (s, d) = Inr (Inr 0, (s, d4))" "eh_read im 1 (s, d4) = Inr (Inr 1, (s, d5))"
    "eh_read im 1 (s, d12) = Inr (Inr (ucast (cie_fde_encoding c)), (s, d13))" for s :: unwind_state
    using eh_read_holds [OF parts(1), of 4 s] eh_read_byte [OF parts(2), of s] eh_read_byte [OF parts(10), of s]
    by (simp_all add: defs)
  note steps = parse_augmentation_eq [OF parts(3-5), folded d8_def]
    decode_value_uleb [OF parts(6), folded d9_def] decode_value_sleb [OF parts(7), folded d10_def]
    decode_value_uleb [OF parts(8) r(1), folded d11_def] decode_value_uleb [OF parts(9), folded d12_def]
  show ?thesis
    using c
    by (simp add: parse_cie_def run_defs eat steps r wf_cie_def with_cie_def total byte_64 del: One_nat_def)
qed

section \<open>Frame description entries\<close>

text \<open>With the encoding compilers use: a signed four-byte offset from the field itself. The
  location of the information entry is given by its distance from the second field.\<close>

record fde =
  fde_cie_distance :: nat
  fde_pc_offset :: int
  fde_pc_size :: nat
  fde_program :: "cfa_instr list"

definition pcrel_sdata4 :: "8 word" where
  "pcrel_sdata4 = DW_EH_PE_pcrel OR DW_EH_PE_sdata4"

definition wf_fde :: "fde \<Rightarrow> bool" where
  "wf_fde f \<longleftrightarrow> 0 < fde_cie_distance f \<and> fde_cie_distance f < 2 ^ 32 \<and>
     - (2 ^ 31) \<le> fde_pc_offset f \<and> fde_pc_offset f < 2 ^ 31 \<and> fde_pc_size f < 2 ^ 31 \<and>
     list_all wf_cfa (fde_program f)"

definition fde_header :: "fde \<Rightarrow> 8 word list" where
  "fde_header f =
     le_bytes 4 (fde_cie_distance f) @ le_bytes 4 (nat (fde_pc_offset f mod 2 ^ 32)) @
     le_bytes 4 (fde_pc_size f) @ [0]"

definition fde_body :: "fde \<Rightarrow> 8 word list" where
  "fde_body f = fde_header f @ concat (map encode_cfa (fde_program f))"

text \<open>An entry in memory: its length and its body. \<open>entry_at a bs\<close> is the data \<^verbatim>\<open>eh_data_init\<close> makes of it.\<close>

definition holds_entry :: "memory \<Rightarrow> 64 word \<Rightarrow> 8 word list \<Rightarrow> bool" where
  "holds_entry m a bs \<longleftrightarrow> holds_bytes m a (le_bytes 4 (length bs) @ bs) \<and> length bs < 0xFFFFFFFF"

definition entry_at :: "64 word \<Rightarrow> 8 word list \<Rightarrow> eh_data" where
  "entry_at a bs = \<lparr>cursor = a + 4, bytes_left = of_nat (length bs)\<rparr>"

lemma eh_data_init_eq:
  assumes "holds_entry m a bs"
  shows "eh_data_init m a = Inr (entry_at a bs)" "holds_data m (entry_at a bs) bs"
proof -
  have b: "holds_bytes m a (le_bytes 4 (length bs))" "holds_bytes m (a + 4) bs" and len: "length bs < 0xFFFFFFFF"
    using assms by (simp_all add: holds_entry_def holds_bytes_append)
  have load: "load_le m a 4 = Inr (of_nat (length bs))"
    using load_le_holds [OF b(1)] len by simp
  have "(of_nat (length bs) :: 64 word) \<noteq> 0xFFFFFFFF"
    using len by (simp add: word_unat_eq_iff unsigned_of_nat take_bit_nat_eq_self)
  with load show "eh_data_init m a = Inr (entry_at a bs)"
    by (simp add: eh_data_init_def EH_CONSUME_RAW_UNACCOUNTED_def entry_at_def)
  show "holds_data m (entry_at a bs) bs"
    using b(2) len by (simp add: holds_data_def entry_at_def unsigned_of_nat take_bit_nat_eq_self)
qed

text \<open>The address of the function, and the state after both entries are read.\<close>

definition fde_pc_begin :: "eh_data \<Rightarrow> fde \<Rightarrow> 64 word" where
  "fde_pc_begin d f = cursor d + 4 + of_int (fde_pc_offset f)"

definition with_fde :: "cie \<Rightarrow> eh_data \<Rightarrow> fde \<Rightarrow> eh_data \<Rightarrow> unwind_state \<Rightarrow> unwind_state" where
  "with_fde c cd f d st = (with_cie c cd st)\<lparr>pc := fde_pc_begin d f, fde_code := skip d (length (fde_header f))\<rparr>"

lemma with_cie_reliable_pc:
  "of_nat (cie_ret_reg c) = ret_reg_idx st \<Longrightarrow> get_reliable_pc (with_cie c cd st) = get_reliable_pc st"
  by (simp add: with_cie_def get_reliable_pc_def unwind_get_return_address_def frame_reg_def)

lemma get_reliable_pc_pc: "get_reliable_pc (st\<lparr>pc := x\<rparr>) = get_reliable_pc st"
  by (simp add: get_reliable_pc_def unwind_get_return_address_def frame_reg_def)

lemma parse_fde_eq:
  assumes h: "holds_data (image_mem im) d (fde_header f)" and f: "wf_fde f"
    and c: "holds_entry (image_mem im) cie_addr (cie_body c)" "wf_cie c"
    and at: "cie_addr = cursor d - of_nat (fde_cie_distance f)" and enc: "cie_fde_encoding c = pcrel_sdata4"
    and reg: "of_nat (cie_ret_reg c) = ret_reg_idx st" and ra: "get_reliable_pc st = Inr addr"
    and within: "fde_pc_begin d f \<le> addr" "addr < fde_pc_begin d f + of_nat (fde_pc_size f)"
  defines "cd \<equiv> entry_at cie_addr (cie_body c)"
  shows "parse_fde im (st, d) = Inr (Inr (), (with_fde c cd f d st, skip d (length (fde_header f))))"
proof -
  let ?m = "image_mem im"
  define d4 where "d4 = skip d 4"
  define d8 where "d8 = skip d4 4"
  define d12 where "d12 = skip d8 4"
  define d13 where "d13 = skip d12 1"
  note defs = d4_def d8_def d12_def d13_def
  have parts: "holds_data ?m d (le_bytes 4 (fde_cie_distance f))"
    "holds_data ?m d4 (le_bytes 4 (nat (fde_pc_offset f mod 2 ^ 32)))"
    "holds_data ?m d8 (le_bytes 4 (fde_pc_size f))" "holds_data ?m d12 [0]"
    using h unfolding fde_header_def holds_data_append defs by simp_all
  have total: "skip d (length (fde_header f)) = d13"
    unfolding fde_header_def defs by simp
  have eat: "eh_read im 4 (s, d) = Inr (Inr (of_nat (fde_cie_distance f)), (s, d4))"
    "eh_read im 1 (s, d12) = Inr (Inr 0, (s, d13))" for s :: unwind_state
    using eh_read_holds [OF parts(1), of 4 s] eh_read_byte [OF parts(4), of s] f by (simp_all add: defs wf_fde_def)
  have "(of_nat (fde_cie_distance f) :: 64 word) \<noteq> 0"
    using f by (simp add: wf_fde_def word_unat_eq_iff unsigned_of_nat take_bit_nat_eq_self)
  moreover have "cursor d4 - of_nat (fde_cie_distance f) - 4 = cie_addr"
    by (simp add: at d4_def)
  moreover have "holds_data ?m cd (cie_header c)"
    using eh_data_init_eq(2) [OF c(1)] by (simp add: cd_def cie_body_def holds_data_append)
  note cie = eh_data_init_eq(1) [OF c(1), folded cd_def] parse_cie_eq [OF this c(2), of st]
  have pcrel: "known_scaling pcrel_sdata4" "base_of im d4 pcrel_sdata4 = cursor d4" "pcrel_sdata4 AND 0xF = DW_EH_PE_sdata4"
    and abs: "known_scaling DW_EH_PE_sdata4" "base_of im d8 DW_EH_PE_sdata4 = 0" "DW_EH_PE_sdata4 AND 0xF = DW_EH_PE_sdata4"
    by (simp_all add: pcrel_sdata4_def known_scaling_def base_of_def DW_EH_PE_defs)
  have pc: "decode_value im d4 pcrel_sdata4 out = Inr (Inr (), fde_pc_begin d f, d8)" for out
    using decode_value_eq [OF pcrel(1)] decode_sdata4 [OF parts(2)] f pcrel(2,3)
    by (simp add: wf_fde_def fde_pc_begin_def d4_def d8_def)
  have "nat (int (fde_pc_size f) mod 2 ^ 32) = fde_pc_size f"
    using f by (simp add: wf_fde_def)
  then have size: "decode_value im d8 DW_EH_PE_sdata4 out = Inr (Inr (), of_nat (fde_pc_size f), d12)" for out
    using decode_value_eq [OF abs(1)] decode_sdata4 [of ?m d8 "int (fde_pc_size f)"] parts(3) f abs(2,3)
    by (simp add: wf_fde_def d12_def)
  have rel: "get_reliable_pc ((with_cie c cd st)\<lparr>pc := x\<rparr>) = Inr addr" for x
    using ra with_cie_reliable_pc [OF reg, of cd] by (simp only: get_reliable_pc_pc)
  have fe: "fde_encoding (with_cie c cd st) = pcrel_sdata4"
    by (simp add: with_cie_def enc)
  ultimately show ?thesis
    using within
    by (simp add: parse_fde_def run_defs inspect_def eat cie pc size rel fe pcrel(3) total with_fde_def not_less [symmetric]
        del: One_nat_def)
qed

section \<open>One frame\<close>

text \<open>The caller's value of a register, from a row: \<open>cfa_of\<close> is the canonical frame address.\<close>

definition cfa_of :: "64 word list \<Rightarrow> cfa_row \<Rightarrow> 64 word" where
  "cfa_of regs row = regs ! row_cfa_reg row + row_cfa_off row"

fun recover :: "eh_image \<Rightarrow> 64 word \<Rightarrow> 64 word list \<Rightarrow> 64 word \<Rightarrow> reg_rule \<Rightarrow> nat \<Rightarrow> 64 word res" where
  "recover im da regs cfa Same i = Inr (regs ! i)"
| "recover im da regs cfa (Saved_at off) i = load_ptr im (cfa + off * da)"
| "recover im da regs cfa Cfa_value i = Inr cfa"

lemma rule_value_eq:
  assumes "known_rule r" "i < length (frame st)" "unat (cfa_reg_idx st) < length (frame st)"
  shows "rule_value im st r i =
    bind_res (recover im (data_alignment_factor st) (frame st) (frame st ! unat (cfa_reg_idx st) + cfa_offset st) (abs_rule r) i)
      (\<lambda>x. Inr (Inr x))"
  using assms by (auto simp: known_rule_def rule_value_def frame_reg_def abs_rule_def DW_CFA_defs)

lemma new_registers_eq:
  assumes "length vals = length rs" "\<And>j. j < length rs \<Longrightarrow> rule_value im st (rs ! j) (i + j) = Inr (Inr (vals ! j))"
  shows "new_registers im st i rs = Inr (Inr vals)"
  using assms
proof (induction rs arbitrary: i vals)
  case (Cons r rs)
  then obtain v vs where vals: "vals = v # vs" by (cases vals) auto
  have "new_registers im st (Suc i) rs = Inr (Inr vs)"
    using Cons.prems(2) [of "Suc _"] vals Cons.prems(1) by (intro Cons.IH) auto
  moreover have "rule_value im st r i = Inr (Inr v)"
    using Cons.prems(2) [of 0] vals by simp
  ultimately show ?case
    using vals by simp
qed simp

lemma cfa_run_reg:
  "list_all wf_cfa prog \<Longrightarrow> row_cfa_reg row < ARCH_NUM_DWARF_REGISTERS \<Longrightarrow>
     row_cfa_reg (cfa_run ca addr prog row) < ARCH_NUM_DWARF_REGISTERS"
proof (induction prog arbitrary: row)
  case (Cons i prog)
  have "row_cfa_reg (cfa_apply ca i row) < ARCH_NUM_DWARF_REGISTERS"
    using Cons.prems by (cases i) auto
  with Cons show ?case by simp
qed simp

lemma initial_rules_known: "list_all known_rule initial_rules" "length initial_rules = ARCH_NUM_DWARF_REGISTERS"
  by (simp_all add: initial_rules_def list_all_iff known_rule_def)

text \<open>\<open>describes\<close>: the two entries of a function are in memory and cover the address.\<close>

definition describes :: "eh_image \<Rightarrow> cie \<Rightarrow> fde \<Rightarrow> 64 word \<Rightarrow> 64 word \<Rightarrow> bool" where
  "describes im c f fde_addr addr \<longleftrightarrow>
     wf_cie c \<and> wf_fde f \<and> cie_fde_encoding c = pcrel_sdata4 \<and>
     holds_entry (image_mem im) fde_addr (fde_body f) \<and>
     holds_entry (image_mem im) (fde_addr + 4 - of_nat (fde_cie_distance f)) (cie_body c) \<and>
     of_nat MAX_ERRNO < fde_addr \<and>
     fde_pc_begin (entry_at fde_addr (fde_body f)) f \<le> addr \<and>
     addr < fde_pc_begin (entry_at fde_addr (fde_body f)) f + of_nat (fde_pc_size f)"

definition entry_state :: "cie \<Rightarrow> fde \<Rightarrow> 64 word \<Rightarrow> unwind_state \<Rightarrow> unwind_state" where
  "entry_state c f fde_addr st =
     with_fde c (entry_at (fde_addr + 4 - of_nat (fde_cie_distance f)) (cie_body c)) f (entry_at fde_addr (fde_body f)) st"

lemma prepare_eq:
  assumes "describes im c f fde_addr addr" "of_nat (cie_ret_reg c) = ret_reg_idx st"
    and "get_reliable_pc st = Inr addr" "find_fde im u addr = Inr fde_addr"
  shows "prepare_unwind_state im u st = Inr (0, entry_state c f fde_addr st)"
proof -
  let ?d = "entry_at fde_addr (fde_body f)"
  from assms(1) have d: "eh_data_init (image_mem im) fde_addr = Inr ?d" "holds_data (image_mem im) ?d (fde_header f)"
    using eh_data_init_eq [of "image_mem im" fde_addr "fde_body f"]
    by (simp_all add: describes_def fde_body_def holds_data_append)
  have "parse_fde im (st, ?d) = Inr (Inr (), (entry_state c f fde_addr st, skip ?d (length (fde_header f))))"
    unfolding entry_state_def
    using assms by (intro parse_fde_eq [OF d(2)]) (auto simp: describes_def entry_at_def)
  with assms d(1) show ?thesis
    by (simp add: prepare_unwind_state_def describes_def not_le [symmetric])
qed

text \<open>The row for the return address.\<close>

definition frame_row :: "cie \<Rightarrow> fde \<Rightarrow> 64 word \<Rightarrow> unwind_state \<Rightarrow> 64 word \<Rightarrow> cfa_row" where
  "frame_row c f fde_addr st ra =
     (let ca = of_nat (cie_code_align c)
      in cfa_run ca ra (fde_program f) (cfa_run ca ra (cie_program c) (abs_row (entry_state c f fde_addr st, initial_rules))))"

lemma left_entry:
  "length hdr \<le> length body \<Longrightarrow> length body < 2 ^ 64 \<Longrightarrow> left (skip (entry_at a body) (length hdr)) = length body - length hdr"
  by (subst skip_simps, subst left_skip) (simp_all add: entry_at_def unsigned_of_nat take_bit_nat_eq_self)

lemma program_data:
  assumes "holds_entry m a (hdr @ prog)"
  shows "holds_data m (skip (entry_at a (hdr @ prog)) (length hdr)) prog"
    "left (skip (entry_at a (hdr @ prog)) (length hdr)) = length prog"
  using eh_data_init_eq(2) [OF assms] left_entry [of hdr "hdr @ prog" a] assms
  by (simp_all add: holds_data_append holds_entry_def)

lemma same_return_address:
  "frame s = frame st \<Longrightarrow> ret_reg_idx s = ret_reg_idx st \<Longrightarrow> at_end s = at_end st \<Longrightarrow>
     unwind_get_return_address s = unwind_get_return_address st"
  by (simp add: unwind_get_return_address_def frame_reg_def)

lemma exec_programs:
  assumes d: "describes im c f fde_addr addr" and ra: "unwind_get_return_address st = Inr ra"
    and reg: "of_nat (cie_ret_reg c) = ret_reg_idx st"
  shows "\<exists>st' rules. run_seq (exec_cie im) (exec_fde im) ((entry_state c f fde_addr st)\<lparr>signal_frame := False\<rparr>, initial_rules) =
      Inr (Inr (), (st', rules)) \<and> abs_row (st', rules) = frame_row c f fde_addr st ra \<and>
    frame st' = frame st \<and> ret_reg_idx st' = ret_reg_idx st \<and> at_end st' = at_end st \<and> \<not> signal_frame st' \<and>
    data_alignment_factor st' = of_int (cie_data_align c) \<and>
    length rules = ARCH_NUM_DWARF_REGISTERS \<and> list_all known_rule rules"
proof -
  let ?st1 = "(entry_state c f fde_addr st)\<lparr>signal_frame := False\<rparr>" and ?m = "image_mem im"
  let ?cie_addr = "fde_addr + 4 - of_nat (fde_cie_distance f)"
  define cd fd where "cd = skip (entry_at ?cie_addr (cie_body c)) (length (cie_header c))"
    and "fd = skip (entry_at fde_addr (fde_body f)) (length (fde_header f))"
  have st1: "cie_code ?st1 = cd" "fde_code ?st1 = fd" "code_alignment_factor ?st1 = of_nat (cie_code_align c)"
    "frame ?st1 = frame st" "ret_reg_idx ?st1 = ret_reg_idx st" "at_end ?st1 = at_end st" "\<not> signal_frame ?st1"
    "data_alignment_factor ?st1 = of_int (cie_data_align c)"
    by (simp_all add: entry_state_def with_fde_def with_cie_def reg cd_def fd_def)
  have ra1: "unwind_get_return_address ?st1 = Inr ra"
    by (rule trans [OF same_return_address ra]) (simp_all add: entry_state_def with_fde_def with_cie_def reg)
  have cie: "holds_data ?m cd (concat (map encode_cfa (cie_program c)))" "left cd = length (concat (map encode_cfa (cie_program c)))"
    and fde: "holds_data ?m fd (concat (map encode_cfa (fde_program f)))" "left fd = length (concat (map encode_cfa (fde_program f)))"
    using d program_data [of ?m ?cie_addr "cie_header c" "concat (map encode_cfa (cie_program c))"]
      program_data [of ?m fde_addr "fde_header f" "concat (map encode_cfa (fde_program f))"]
    by (simp_all add: describes_def cie_body_def fde_body_def cd_def fd_def)
  have wf: "list_all wf_cfa (cie_program c)" "list_all wf_cfa (fde_program f)"
    using d by (simp_all add: describes_def wf_cie_def wf_fde_def)
  obtain s2 d2 where r2: "dwarf_exec im ((?st1, initial_rules), cd) = Inr (Inr (), (s2, d2))"
    and a2: "abs_row s2 = cfa_run (of_nat (cie_code_align c)) ra (cie_program c) (abs_row (?st1, initial_rules))"
    and same2: "same_regs ?st1 (fst s2)" and len2: "length (snd s2) = ARCH_NUM_DWARF_REGISTERS" "list_all known_rule (snd s2)"
    using dwarf_exec_eq [OF cie wf(1), of "(?st1, initial_rules)" ra] initial_rules_known ra1 st1(3) by auto
  let ?s3 = "map_state (\<lambda>st. st\<lparr>cie_code := d2\<rparr>) s2"
  have abs3: "abs_row ?s3 = abs_row s2"
    by (cases s2) (simp add: abs_row_def map_state_def)
  have f3: "fde_code (fst ?s3) = fd" "code_alignment_factor (fst ?s3) = of_nat (cie_code_align c)" "frame (fst ?s3) = frame st"
    "ret_reg_idx (fst ?s3) = ret_reg_idx st" "at_end (fst ?s3) = at_end st" "\<not> signal_frame (fst ?s3)"
    "data_alignment_factor (fst ?s3) = of_int (cie_data_align c)" "snd ?s3 = snd s2"
    using same_regs_fields [OF same2] st1 by (cases s2; simp add: map_state_def)+
  have ra3: "unwind_get_return_address (fst ?s3) = Inr ra"
    by (rule trans [OF same_return_address ra]) (simp_all add: f3)
  obtain s4 d4 where r4: "dwarf_exec im (?s3, fd) = Inr (Inr (), (s4, d4))"
    and a4: "abs_row s4 = cfa_run (of_nat (cie_code_align c)) ra (fde_program f) (abs_row ?s3)"
    and same4: "same_regs (fst ?s3) (fst s4)" and len4: "length (snd s4) = ARCH_NUM_DWARF_REGISTERS" "list_all known_rule (snd s4)"
    using dwarf_exec_eq [OF fde wf(2), of ?s3 ra] len2 f3 ra3 by auto
  obtain st4 rules4 where s4: "s4 = (st4, rules4)" by (cases s4)
  have "run_seq (exec_cie im) (exec_fde im) (?st1, initial_rules) = Inr (Inr (), (st4\<lparr>fde_code := d4\<rparr>, rules4))"
    using r2 r4 st1(1) f3(1) by (simp add: run_seq_def run_bind_def exec_cie_def exec_fde_def s4 map_state_def)
  moreover have "abs_row (?st1, initial_rules) = abs_row (entry_state c f fde_addr st, initial_rules)"
    by (simp add: abs_row_def)
  then have "abs_row (st4\<lparr>fde_code := d4\<rparr>, rules4) = frame_row c f fde_addr st ra"
    using a2 a4 abs3 by (simp add: frame_row_def Let_def s4) (simp add: abs_row_def)
  ultimately show ?thesis
    using same_regs_fields [OF same4] f3 len4
    by (intro exI [of _ "st4\<lparr>fde_code := d4\<rparr>"] exI [of _ rules4]) (simp add: s4)
qed

text \<open>The values the rules give, for a frame of 17 registers.\<close>

definition recovers :: "eh_image \<Rightarrow> 64 word \<Rightarrow> 64 word list \<Rightarrow> cfa_row \<Rightarrow> 64 word list \<Rightarrow> bool" where
  "recovers im da regs row vals \<longleftrightarrow>
     length vals = ARCH_NUM_DWARF_REGISTERS \<and>
     list_all (\<lambda>i. recover im da regs (cfa_of regs row) (row_rules row ! i) i = Inr (vals ! i)) [0..<ARCH_NUM_DWARF_REGISTERS]"

lemma apply_reg_rules_eq:
  assumes "recovers im (data_alignment_factor st) (frame st) (abs_row (st, rules)) vals"
    and "length (frame st) = ARCH_NUM_DWARF_REGISTERS" "unat (cfa_reg_idx st) < ARCH_NUM_DWARF_REGISTERS"
    and "length rules = ARCH_NUM_DWARF_REGISTERS" "list_all known_rule rules"
  shows "apply_reg_rules im st rules = Inr (Inr vals, st\<lparr>cfa_reg_idx := of_nat DWARF_SP_REG, cfa_offset := 0\<rparr>)"
proof -
  have "new_registers im st 0 rules = Inr (Inr vals)"
  proof (rule new_registers_eq)
    fix j assume j: "j < length rules"
    then have "known_rule (rules ! j)" using assms(5) by (simp add: list_all_length)
    moreover have "recover im (data_alignment_factor st) (frame st) (cfa_of (frame st) (abs_row (st, rules)))
        (abs_rule (rules ! j)) j = Inr (vals ! j)"
      using assms(1,4) j by (simp add: recovers_def list_all_iff abs_row_def)
    ultimately show "rule_value im st (rules ! j) (0 + j) = Inr (Inr (vals ! j))"
      using assms(2-4) j by (simp add: rule_value_eq cfa_of_def abs_row_def)
  qed (use assms in \<open>simp add: recovers_def\<close>)
  then show ?thesis
    by (simp add: apply_reg_rules_def)
qed

lemma frame_row_reg:
  assumes "describes im c f fde_addr addr" "unat (cfa_reg_idx st) < ARCH_NUM_DWARF_REGISTERS"
  shows "row_cfa_reg (frame_row c f fde_addr st ra) < ARCH_NUM_DWARF_REGISTERS"
  using assms
  by (auto simp: frame_row_def Let_def describes_def wf_cie_def wf_fde_def abs_row_def entry_state_def
      with_fde_def with_cie_def intro!: cfa_run_reg)

lemma next_frame_eq:
  assumes st: "\<not> at_end st" "length (frame st) = ARCH_NUM_DWARF_REGISTERS"
      "unat (cfa_reg_idx st) < ARCH_NUM_DWARF_REGISTERS" "unat (ret_reg_idx st) < ARCH_NUM_DWARF_REGISTERS"
    and ra: "unwind_get_return_address st = Inr ra" "get_reliable_pc st = Inr addr"
    and fde: "find_fde im u addr = Inr fde_addr" "describes im c f fde_addr addr"
    and reg: "of_nat (cie_ret_reg c) = ret_reg_idx st"
    and vals: "recovers im (of_int (cie_data_align c)) (frame st) (frame_row c f fde_addr st ra) vals"
  shows "\<exists>st'. unwind_next_frame im u st = Inr (0, st') \<and> frame st' = vals \<and>
    at_end st' = (vals ! unat (ret_reg_idx st) = 0) \<and> \<not> signal_frame st' \<and>
    ret_reg_idx st' = ret_reg_idx st \<and> cfa_reg_idx st' = of_nat DWARF_SP_REG \<and> cfa_offset st' = 0"
proof -
  from exec_programs [OF fde(2) ra(1) reg] obtain st' rules where
    run: "run_seq (exec_cie im) (exec_fde im) ((entry_state c f fde_addr st)\<lparr>signal_frame := False\<rparr>, initial_rules) =
      Inr (Inr (), (st', rules))" and row: "abs_row (st', rules) = frame_row c f fde_addr st ra"
    and st': "frame st' = frame st" "ret_reg_idx st' = ret_reg_idx st" "at_end st' = at_end st" "\<not> signal_frame st'"
      "data_alignment_factor st' = of_int (cie_data_align c)"
    and rules: "length rules = ARCH_NUM_DWARF_REGISTERS" "list_all known_rule rules"
    by blast
  have "row_cfa_reg (abs_row (st', rules)) < ARCH_NUM_DWARF_REGISTERS"
    unfolding row using frame_row_reg [OF fde(2) st(3)] .
  then have "unat (cfa_reg_idx st') < ARCH_NUM_DWARF_REGISTERS"
    by (simp add: abs_row_def)
  then have "apply_reg_rules im st' rules = Inr (Inr vals, st'\<lparr>cfa_reg_idx := of_nat DWARF_SP_REG, cfa_offset := 0\<rparr>)"
    using vals st(2) st' rules by (intro apply_reg_rules_eq) (simp_all add: row)
  moreover have "unat (ret_reg_idx st) < length vals"
    using vals st(4) by (simp add: recovers_def)
  ultimately show ?thesis
    using st(1) st' prepare_eq [OF fde(2) reg ra(2) fde(1)] run
    by (simp add: unwind_next_frame_def Let_def unwind_get_return_address_def frame_reg_def)
qed

text \<open>
  C31: One step of the unwinder on a frame whose function has entries as compilers write them
  succeeds, and the caller's registers are the ones the row of the return address tells: saved
  registers are read from the stack, the stack pointer is the frame address, the others stay.
\<close>

theorem next_frame_exact:
  assumes "\<not> at_end st" "length (frame st) = ARCH_NUM_DWARF_REGISTERS"
      "unat (cfa_reg_idx st) < ARCH_NUM_DWARF_REGISTERS" "unat (ret_reg_idx st) < ARCH_NUM_DWARF_REGISTERS"
    and "unwind_get_return_address st = Inr ra" "get_reliable_pc st = Inr addr"
    and "find_fde im u addr = Inr fde_addr" "describes im c f fde_addr addr"
    and "of_nat (cie_ret_reg c) = ret_reg_idx st"
    and "recovers im (of_int (cie_data_align c)) (frame st) (frame_row c f fde_addr st ra) vals"
  shows "\<exists>st'. unwind_next_frame im u st = Inr (0, st') \<and> frame st' = vals \<and>
    at_end st' = (vals ! unat (ret_reg_idx st) = 0) \<and> \<not> signal_frame st' \<and>
    ret_reg_idx st' = ret_reg_idx st \<and> cfa_reg_idx st' = of_nat DWARF_SP_REG \<and> cfa_offset st' = 0"
  by (rule next_frame_eq [OF assms])

text \<open>A function at \<open>0x1200\<close> that has pushed its frame pointer, and its stack at \<open>0x1040\<close>.\<close>

definition example_cie :: cie where
  "example_cie = \<lparr>cie_code_align = 1, cie_data_align = - 8, cie_ret_reg = 16, cie_fde_encoding = pcrel_sdata4,
     cie_program = [Def_cfa 7 8, Offset 16 1]\<rparr>"

definition example_fde :: fde where
  "example_fde = \<lparr>fde_cie_distance = 26, fde_pc_offset = 0x1DA, fde_pc_size = 0x40,
     fde_program = [Advance 1, Def_cfa_offset 16, Offset 6 2]\<rparr>"

lemma le_bytes_4:
  "le_bytes 4 v = [of_nat (v mod 256), of_nat (v div 256 mod 256), of_nat (v div 65536 mod 256), of_nat (v div 16777216 mod 256)]"
proof -
  have "(4 :: nat) = Suc (Suc (Suc (Suc 0)))" by simp
  then have "le_bytes 4 v = le_bytes (Suc (Suc (Suc (Suc 0)))) v" by (rule arg_cong)
  then show ?thesis
    by (simp add: div_mult2_eq [symmetric])
qed

definition example_cie_bytes :: "8 word list" where
  "example_cie_bytes = [0, 0, 0, 0, 1, 0x7A, 0x52, 0, 1, 0x78, 0x10, 1, 0x1B, 0x0C, 7, 8, 0x90, 1]"

definition example_fde_bytes :: "8 word list" where
  "example_fde_bytes = [26, 0, 0, 0, 0xDA, 1, 0, 0, 0x40, 0, 0, 0, 0, 0x41, 0x0E, 0x10, 0x86, 2]"

lemma example_entries_bytes:
  "cie_body example_cie = example_cie_bytes" "fde_body example_fde = example_fde_bytes"
  by (simp_all add: cie_body_def fde_body_def cie_header_def fde_header_def example_cie_def example_fde_def
      le_bytes_4 uleb.simps sleb.simps pcrel_sdata4_def DW_EH_PE_defs example_cie_bytes_def example_fde_bytes_def)

text \<open>The table of one function, the two entries, and the stack: the saved frame pointer and the return address.\<close>

definition example_frame_bytes :: "8 word list" where
  "example_frame_bytes =
     [0, 2, 0, 0, 0x1E, 0, 0, 0] @ ([18, 0, 0, 0] @ example_cie_bytes) @ ([18, 0, 0, 0] @ example_fde_bytes) @
     replicate 12 0 @ [0x22, 0, 0, 0, 0, 0, 0, 0] @ [0x30, 0, 0, 0, 0, 0, 0, 0]"

definition example_frame_image :: eh_image where
  "example_frame_image = (example_image example_frame_bytes)\<lparr>eh_frame_hdr_begin := 0x1000\<rparr>"

definition example_frame_state :: unwind_state where
  "example_frame_state = zero_state\<lparr>frame := (replicate 17 0)[7 := 0x1040, 16 := 0x1210], ret_reg_idx := 16\<rparr>"

theorem next_frame_exact_witness:
  "\<exists>st'. unwind_next_frame example_frame_image (example_unwinder\<lparr>g_num_fdes := 1\<rparr>) example_frame_state = Inr (0, st') \<and>
    frame st' = (replicate 17 0)[6 := 0x22, 7 := 0x1050, 16 := 0x30] \<and> \<not> at_end st' \<and> \<not> signal_frame st' \<and>
    cfa_reg_idx st' = 7 \<and> cfa_offset st' = 0"
proof -
  let ?im = example_frame_image and ?u = "example_unwinder\<lparr>g_num_fdes := 1\<rparr>" and ?st = example_frame_state
  let ?vals = "(replicate 17 0)[6 := 0x22, 7 := 0x1050, 16 := 0x30] :: 64 word list"
  have st: "\<not> at_end ?st" "length (frame ?st) = ARCH_NUM_DWARF_REGISTERS"
    "unat (cfa_reg_idx ?st) < ARCH_NUM_DWARF_REGISTERS" "unat (ret_reg_idx ?st) < ARCH_NUM_DWARF_REGISTERS"
    "unwind_get_return_address ?st = Inr 0x1210" "get_reliable_pc ?st = Inr 0x120F"
    "of_nat (cie_ret_reg example_cie) = ret_reg_idx ?st"
    by code_simp+
  have fde: "find_fde ?im ?u 0x120F = Inr 0x101E"
    by code_simp
  have wf: "wf_cie example_cie" "wf_fde example_fde"
    by (simp_all add: wf_cie_def wf_fde_def example_cie_def example_fde_def ARCH_NUM_DWARF_REGISTERS_def)
  have len: "length (cie_body example_cie) = 18" "length (fde_body example_fde) = 18"
    by (simp_all add: example_entries_bytes example_cie_bytes_def example_fde_bytes_def)
  have "holds_bytes (bytes_at 0x1000 example_frame_bytes) 0x1000 example_frame_bytes"
    by (rule holds_bytes_at) (simp add: example_frame_bytes_def example_cie_bytes_def example_fde_bytes_def)
  moreover have "image_mem ?im = bytes_at 0x1000 example_frame_bytes" "length example_cie_bytes = 18"
    by (simp_all add: example_frame_image_def example_image_def example_cie_bytes_def)
  ultimately have "holds_bytes (image_mem ?im) 0x101E (le_bytes 4 18 @ fde_body example_fde)"
    "holds_bytes (image_mem ?im) 0x1008 (le_bytes 4 18 @ cie_body example_cie)"
    by (simp_all add: example_frame_bytes_def holds_bytes_append example_entries_bytes le_bytes_4)
  moreover have "fde_pc_begin (entry_at 0x101E (fde_body example_fde)) example_fde = 0x1200"
    "fde_cie_distance example_fde = 26" "fde_pc_size example_fde = 0x40" "cie_fde_encoding example_cie = pcrel_sdata4"
    by (simp_all add: fde_pc_begin_def entry_at_def example_fde_def example_cie_def)
  ultimately have describes: "describes ?im example_cie example_fde 0x101E 0x120F"
    using wf by (simp add: describes_def holds_entry_def len MAX_ERRNO_def)
  have vals: "recovers ?im (of_int (cie_data_align example_cie)) (frame ?st)
      (frame_row example_cie example_fde 0x101E ?st 0x1210) ?vals"
    by code_simp
  have "unat (ret_reg_idx ?st) = 16" "?vals ! 16 = 0x30" "of_nat DWARF_SP_REG = (7 :: 8 word)"
    by code_simp+
  with next_frame_exact [OF st(1-6) fde describes st(7) vals] show ?thesis
    by auto
qed

end
