(* ===== verification/UnwindWalk.thy ===== *)
theory UnwindWalk
  imports UnwindFrame
begin

text \<open>
  What every step of the unwinder keeps, whatever bytes it reads: the register indices stay within the
  frame. And the walk over a stack: the callback sees the return addresses in order.
\<close>

section \<open>The shape of a frame\<close>

definition wf_frame :: "unwind_state \<Rightarrow> bool" where
  "wf_frame st \<longleftrightarrow> length (frame st) = ARCH_NUM_DWARF_REGISTERS \<and>
     unat (ret_reg_idx st) < ARCH_NUM_DWARF_REGISTERS \<and> unat (cfa_reg_idx st) < ARCH_NUM_DWARF_REGISTERS"

definition keeps :: "('s \<Rightarrow> bool) \<Rightarrow> ('s \<times> eh_data, 'a) run \<Rightarrow> bool" where
  "keeps P m \<longleftrightarrow> (\<forall>s r s'. m s = Inr (r, s') \<longrightarrow> P (fst s) \<longrightarrow> P (fst s'))"

lemma keepsD: "keeps P m \<Longrightarrow> m s = Inr (r, s') \<Longrightarrow> P (fst s) \<Longrightarrow> P (fst s')"
  unfolding keeps_def by blast

named_theorems keeps_intros

lemma keeps_ok [keeps_intros]: "keeps P (ok x)"
  and keeps_fail [keeps_intros]: "keeps P (fail e)"
  and keeps_check [keeps_intros]: "keeps P (check c e')"
  by (auto simp: keeps_def check_def ok_def fail_def)

lemma keeps_update: "(\<And>s d. P s \<Longrightarrow> P (f s d)) \<Longrightarrow> keeps P (update f)"
  by (auto simp: keeps_def update_def ok_def)

lemma keeps_eh_read [keeps_intros]: "keeps P (eh_read im n)"
  and keeps_decode_local [keeps_intros]: "keeps P (decode_local im enc)"
  and keeps_inspect [keeps_intros]: "keeps P (inspect f)"
  by (auto simp: keeps_def eh_read_def decode_local_def inspect_def ok_def bind_res_Inr_iff)

lemma keeps_decode_into: "(\<And>s out. P s \<Longrightarrow> P (put out s)) \<Longrightarrow> keeps P (decode_into im enc get put)"
  by (auto simp: keeps_def decode_into_def bind_res_Inr_iff)

lemma keeps_bind [keeps_intros]:
  assumes "keeps P m" "\<And>x. keeps P (f x)"
  shows "keeps P (run_bind m f)"
  unfolding keeps_def
proof (intro allI impI)
  fix s r s'
  assume "run_bind m f s = Inr (r, s')" "P (fst s)"
  then show "P (fst s')"
    by (cases rule: run_bind_InrE) (use assms in \<open>blast dest: keepsD\<close>)+
qed

lemma keeps_seq [keeps_intros]: "keeps P m \<Longrightarrow> keeps P n \<Longrightarrow> keeps P (run_seq m n)"
  unfolding run_seq_def by (intro keeps_intros)

lemma keeps_if [keeps_intros]: "keeps P m \<Longrightarrow> keeps P n \<Longrightarrow> keeps P (if c then m else n)"
  by simp

text \<open>A check that holds on the way on.\<close>

lemma keeps_checked:
  assumes "c \<Longrightarrow> keeps P n"
  shows "keeps P (run_seq (check c e) n)"
  using assms by (cases c) (auto simp: keeps_def run_seq_def run_bind_def check_def ok_def fail_def)

section \<open>Reading the entries\<close>

definition fresh :: "unwind_state \<Rightarrow> bool" where
  "fresh st \<longleftrightarrow> wf_frame st \<and> \<not> at_end st"

lemma reg_index: "(v :: 64 word) < of_nat ARCH_NUM_DWARF_REGISTERS \<Longrightarrow> unat (ucast v :: 8 word) < ARCH_NUM_DWARF_REGISTERS"
  by (simp add: ARCH_NUM_DWARF_REGISTERS_def word_less_nat_alt unsigned_ucast_eq take_bit_nat_eq_self)

lemma parse_augmentation_fresh: "parse_augmentation im i s = Inr (r, s') \<Longrightarrow> fresh (fst s) \<Longrightarrow> fresh (fst s')"
proof (induction im i s arbitrary: r rule: parse_augmentation.induct)
  case (1 im i s)
  show ?case
  proof (cases "i < length EXPECTED_AUG_STRING")
    case True
    with "1.prems"(1) obtain x d' where x: "eh_consume (image_mem im) 1 (snd s) = Inr (x, d')"
      by (subst (asm) parse_augmentation.simps) (auto simp: bind_res_Inr_iff)
    show ?thesis
    proof (cases x)
      case (Inl e)
      with "1.prems" x True show ?thesis
        by (subst (asm) parse_augmentation.simps) auto
    next
      case (Inr ch)
      note go = "1.IH" [OF True x refl Inr]
      have sig: "fresh ((fst s)\<lparr>signal_frame := True\<rparr>)"
        using "1.prems"(2) by (simp add: fresh_def wf_frame_def)
      from "1.prems"(1) x True Inr have
        "(if ch \<noteq> EXPECTED_AUG_STRING ! i
          then if ch = 0x53 then parse_augmentation im i ((fst s)\<lparr>signal_frame := True\<rparr>, d')
               else fail (E ENOSYS) (fst s, d')
          else parse_augmentation im (i + 1) (fst s, d')) = Inr (r, s')"
        by (subst (asm) parse_augmentation.simps) simp
      then show ?thesis
        using go sig "1.prems"(2) by (auto simp: fail_def split: if_splits)
    qed
  next
    case False
    with "1.prems" show ?thesis
      by (subst (asm) parse_augmentation.simps) (simp add: ok_def)
  qed
qed

lemma keeps_parse_augmentation: "keeps fresh (parse_augmentation im i)"
  unfolding keeps_def using parse_augmentation_fresh by blast

lemma parse_cie_fresh: "keeps fresh (parse_cie im)"
  unfolding parse_cie_def
  by (rule keeps_checked keeps_seq keeps_bind keeps_eh_read keeps_decode_into keeps_decode_local keeps_update
        keeps_parse_augmentation | simp add: fresh_def wf_frame_def reg_index)+

lemma parse_fde_fresh: "keeps fresh (parse_fde im)"
proof -
  have entry: "keeps fresh (\<lambda>(st, fde). bind_res (eh_data_init (image_mem im) (cursor fde - off - 4)) (\<lambda>cie.
      bind_res (parse_cie im (st, cie)) (\<lambda>(r, (st', _)). Inr (r, (st', fde)))))" for off
    using parse_cie_fresh [of im, THEN keepsD] by (fastforce simp: keeps_def bind_res_Inr_iff)
  show ?thesis
    unfolding parse_fde_def
    by (rule entry keeps_seq keeps_bind keeps_eh_read keeps_check keeps_inspect keeps_decode_local keeps_decode_into keeps_update
        | simp add: fresh_def wf_frame_def)+
qed

lemma prepare_fresh: "prepare_unwind_state im u st = Inr (ret, st') \<Longrightarrow> fresh st \<Longrightarrow> fresh st'"
  using parse_fde_fresh [of im, THEN keepsD]
  by (fastforce simp: prepare_unwind_state_def bind_res_Inr_iff split: if_splits)

section \<open>Running the instructions\<close>

definition prepared :: "cfa_state \<Rightarrow> bool" where
  "prepared s \<longleftrightarrow> fresh (fst s) \<and> \<not> signal_frame (fst s) \<and> length (snd s) = ARCH_NUM_DWARF_REGISTERS"

lemma prepared_map_state:
  "prepared s \<Longrightarrow> (fresh (fst s) \<Longrightarrow> \<not> signal_frame (fst s) \<Longrightarrow> fresh (f (fst s)) \<and> \<not> signal_frame (f (fst s))) \<Longrightarrow> prepared (map_state f s)"
  by (cases s) (simp add: prepared_def map_state_def)

lemma keeps_set_rule: "keeps prepared (set_rule reg r v)"
  unfolding set_rule_def by (rule keeps_update) (auto simp: prepared_def split: prod.splits)

lemma keeps_def_cfa_offset: "keeps prepared (exec_def_cfa_offset im)"
  unfolding exec_def_cfa_offset_def
  by (rule keeps_decode_into, rule prepared_map_state) (simp_all add: fresh_def wf_frame_def)

lemma keeps_advance: "keeps prepared (exec_advance_loc im n)"
  by (auto simp: keeps_def exec_advance_loc_def fail_def ok_def bind_res_Inr_iff prepared_def map_state_def fresh_def
      wf_frame_def split: if_splits)

lemma keeps_exec_opcode: "keeps prepared (exec_opcode im opcode)"
  unfolding exec_opcode_def exec_high_2_bits_op_def
  by (rule keeps_if keeps_checked keeps_seq keeps_bind keeps_decode_local keeps_set_rule keeps_def_cfa_offset
        keeps_advance keeps_ok keeps_fail keeps_update prepared_map_state | simp add: fresh_def wf_frame_def reg_index)+

lemma dwarf_step_prepared: "keeps prepared (dwarf_step im)"
  unfolding dwarf_step_def by (intro keeps_intros keeps_exec_opcode)

lemma dwarf_exec_prepared: "dwarf_exec im s = Inr (r, s') \<Longrightarrow> prepared (fst s) \<Longrightarrow> prepared (fst s')"
proof (induction im s arbitrary: r rule: dwarf_exec.induct)
  case (1 im s)
  show ?case
  proof (cases "bytes_left (snd s) = 0")
    case False
    with "1.prems"(1) obtain ra where ra: "unwind_get_return_address (fst (fst s)) = Inr ra"
      by (subst (asm) dwarf_exec.simps) (auto simp: bind_res_Inr_iff)
    show ?thesis
    proof (cases "ra < pc (fst (fst s))")
      case True
      with "1.prems" ra False show ?thesis
        by (subst (asm) dwarf_exec.simps) (simp add: ok_def)
    next
      case go: False
      with "1.prems"(1) ra False obtain x s1 where x: "dwarf_step im s = Inr (x, s1)"
        by (subst (asm) dwarf_exec.simps) (auto simp: bind_res_Inr_iff)
      have ready1: "prepared (fst s1)"
        using keepsD [OF dwarf_step_prepared x "1.prems"(2)] .
      show ?thesis
      proof (cases x)
        case (Inl e)
        with "1.prems"(1) ra False go x ready1 show ?thesis
          by (subst (asm) dwarf_exec.simps) auto
      next
        case (Inr y)
        with "1.prems"(1) ra False go x have "dwarf_exec im s1 = Inr (r, s')"
          by (subst (asm) dwarf_exec.simps) simp
        from "1.IH" [OF False ra go x refl Inr this ready1] show ?thesis .
      qed
    qed
  next
    case True
    with "1.prems" show ?thesis
      by (subst (asm) dwarf_exec.simps) (simp add: ok_def)
  qed
qed

lemma exec_cie_prepared: "exec_cie im s = Inr (r, s') \<Longrightarrow> prepared s \<Longrightarrow> prepared s'"
  using dwarf_exec_prepared [of im "(s, cie_code (fst s))"]
  by (auto simp: exec_cie_def bind_res_Inr_iff fresh_def wf_frame_def intro!: prepared_map_state)

lemma exec_fde_prepared: "exec_fde im s = Inr (r, s') \<Longrightarrow> prepared s \<Longrightarrow> prepared s'"
  using dwarf_exec_prepared [of im "(s, fde_code (fst s))"]
  by (auto simp: exec_fde_def bind_res_Inr_iff fresh_def wf_frame_def intro!: prepared_map_state)

lemma programs_prepared: "run_seq (exec_cie im) (exec_fde im) s = Inr (r, s') \<Longrightarrow> prepared s \<Longrightarrow> prepared s'"
  unfolding run_seq_def by (erule run_bind_InrE) (auto intro: exec_cie_prepared exec_fde_prepared)

lemma new_registers_length: "new_registers im st i rs = Inr (Inr xs) \<Longrightarrow> length xs = length rs"
proof (induction rs arbitrary: i xs)
  case (Cons r rs)
  then obtain v where v: "rule_value im st r i = Inr v"
    by (auto simp: bind_res_Inr_iff)
  show ?case
  proof (cases v)
    case (Inr x)
    with Cons.prems v obtain ys where ys: "new_registers im st (Suc i) rs = Inr ys" "map_sum id ((#) x) ys = Inr xs"
      by (auto simp: bind_res_Inr_iff)
    then obtain zs where "ys = Inr zs" "xs = x # zs" by (cases ys) auto
    with ys Cons.IH show ?thesis by simp
  qed (use Cons.prems v in simp)
qed simp

lemma next_frame_shape:
  assumes st: "wf_frame st" and run: "unwind_next_frame im u st = Inr (e, st')"
  shows "wf_frame st' \<and> (e \<noteq> 0 \<longrightarrow> at_end st') \<and>
    (e = 0 \<longrightarrow> \<not> signal_frame st' \<and> (\<not> at_end st' \<longrightarrow> unwind_get_return_address st' \<noteq> Inr 0))"
proof (cases "at_end st")
  case True
  with st run show ?thesis
    by (auto simp: unwind_next_frame_def E_def)
next
  case False
  with st have fresh: "fresh st" by (simp add: fresh_def)
  from run False obtain ret st1 where prep: "prepare_unwind_state im u st = Inr (ret, st1)"
    by (auto simp: unwind_next_frame_def bind_res_Inr_iff)
  note fresh1 = prepare_fresh [OF prep fresh]
  show ?thesis
  proof (cases "ret = 0")
    case False
    with \<open>\<not> at_end st\<close> run prep fresh1 show ?thesis
      by (auto simp: unwind_next_frame_def fresh_def wf_frame_def)
  next
    case True
    with \<open>\<not> at_end st\<close> run prep obtain r st2 rules where
      programs: "run_seq (exec_cie im) (exec_fde im) (st1\<lparr>signal_frame := False\<rparr>, initial_rules) = Inr (r, (st2, rules))"
      by (auto simp: unwind_next_frame_def bind_res_Inr_iff)
    have "prepared (st1\<lparr>signal_frame := False\<rparr>, initial_rules)"
      using fresh1 by (simp add: prepared_def fresh_def wf_frame_def initial_rules_def)
    from programs_prepared [OF programs this] have ready2: "prepared (st2, rules)" .
    show ?thesis
    proof (cases r)
      case (Inl e')
      with \<open>\<not> at_end st\<close> run prep True programs ready2 show ?thesis
        by (auto simp: unwind_next_frame_def prepared_def fresh_def wf_frame_def)
    next
      case (Inr y)
      with \<open>\<not> at_end st\<close> run prep True programs obtain v where v: "new_registers im st2 0 rules = Inr v"
        by (auto simp: unwind_next_frame_def apply_reg_rules_def bind_res_Inr_iff)
      show ?thesis
      proof (cases v)
        case (Inl e')
        with \<open>\<not> at_end st\<close> run prep True programs ready2 Inr v show ?thesis
          by (auto simp: unwind_next_frame_def apply_reg_rules_def prepared_def fresh_def wf_frame_def)
      next
        case vals: (Inr vals)
        have "length vals = ARCH_NUM_DWARF_REGISTERS"
          using new_registers_length v vals ready2 by (simp add: prepared_def)
        with \<open>\<not> at_end st\<close> run prep True programs ready2 Inr v vals show ?thesis
          by (auto simp: unwind_next_frame_def apply_reg_rules_def prepared_def fresh_def wf_frame_def Let_def
              unwind_get_return_address_def frame_reg_def DWARF_SP_REG_def ARCH_NUM_DWARF_REGISTERS_def)
      qed
    qed
  qed
qed

text \<open>
  C34: Whatever bytes a step of the unwinder reads, when it returns the register indices are within
  the frame; after an error the walk is over, and after a success the frame is never marked as a
  signal frame and the walk goes on only with a nonzero return address.
\<close>

theorem next_frame_invariant:
  assumes "wf_frame st" "unwind_next_frame im u st = Inr (e, st')"
  shows "wf_frame st' \<and> (e \<noteq> 0 \<longrightarrow> at_end st') \<and>
    (e = 0 \<longrightarrow> \<not> signal_frame st' \<and> (\<not> at_end st' \<longrightarrow> unwind_get_return_address st' \<noteq> Inr 0))"
  by (rule next_frame_shape [OF assms])

definition example_next_state :: unwind_state where
  "example_next_state =
     \<lparr>frame = [0, 0, 0, 0, 0, 0, 0x22, 0x1050, 0, 0, 0, 0, 0, 0, 0, 0, 0x30],
      code_alignment_factor = 1, data_alignment_factor = - 8, cfa_offset = 0, pc = 0x1201, pc_end = 0, ret_reg_idx = 16,
      cfa_reg_idx = 7, at_end = False, signal_frame = False, fde_encoding = 0x1B,
      cie_code = \<lparr>cursor = 0x101E, bytes_left = 0\<rparr>, fde_code = \<lparr>cursor = 0x1034, bytes_left = 0\<rparr>\<rparr>"

lemma example_step:
  "unwind_next_frame example_frame_image (example_unwinder\<lparr>g_num_fdes := 1\<rparr>) (example_frame_state\<lparr>signal_frame := True\<rparr>) =
     Inr (0, example_next_state)"
  by code_simp

theorem next_frame_invariant_witness:
  "wf_frame example_next_state \<and> \<not> signal_frame example_next_state \<and>
   \<not> at_end example_next_state \<and> unwind_get_return_address example_next_state \<noteq> Inr 0"
proof -
  have "wf_frame (example_frame_state\<lparr>signal_frame := True\<rparr>)"
    by (simp add: wf_frame_def example_frame_state_def zero_state_def ARCH_NUM_DWARF_REGISTERS_def)
  moreover have "\<not> at_end example_next_state"
    by (simp add: example_next_state_def)
  ultimately show ?thesis
    using next_frame_invariant [OF _ example_step] by simp
qed

section \<open>The walk\<close>

text \<open>The frames from a state on: their return addresses, whether each is that of a call, and the error
  the walk ends with.\<close>

inductive frames ::
  "eh_image \<Rightarrow> unwinder \<Rightarrow> unwind_state \<Rightarrow> (64 word \<times> bool) list \<Rightarrow> error_t \<Rightarrow> bool"
  for im :: eh_image and u :: unwinder
where
  outermost: "unwind_get_return_address st = Inr ra \<Longrightarrow> unwind_next_frame im u st = Inr (e, st') \<Longrightarrow> at_end st' \<Longrightarrow>
    frames im u st [(ra, \<not> signal_frame st)] e"
| inner: "unwind_get_return_address st = Inr ra \<Longrightarrow> unwind_next_frame im u st = Inr (e, st') \<Longrightarrow> \<not> at_end st' \<Longrightarrow>
    frames im u st' xs e' \<Longrightarrow> frames im u st ((ra, \<not> signal_frame st) # xs) e'"

text \<open>A callback over them: whether it went through all of them, and its state.\<close>

fun visit :: "('u \<Rightarrow> 64 word \<Rightarrow> bool \<Rightarrow> bool \<times> 'u) \<Rightarrow> 'u \<Rightarrow> (64 word \<times> bool) list \<Rightarrow> bool \<times> 'u" where
  "visit callback user [] = (True, user)"
| "visit callback user ((ra, called) # xs) =
     (case callback user ra called of (go_on, user') \<Rightarrow> if go_on then visit callback user' xs else (False, user'))"

lemma frames_called:
  assumes "frames im u st xs e" "wf_frame st"
  shows "list_all (\<lambda>(ra, called). called \<and> ra \<noteq> 0) (tl xs)"
proof -
  have "list_all (\<lambda>(ra, called). called \<and> ra \<noteq> 0) (tl xs) \<and>
    (\<not> signal_frame st \<longrightarrow> unwind_get_return_address st \<noteq> Inr 0 \<longrightarrow> list_all (\<lambda>(ra, called). called \<and> ra \<noteq> 0) xs)"
    using assms
  proof (induction rule: frames.induct)
    case (inner st ra e st' xs e')
    from next_frame_shape [OF inner.prems inner.hyps(2)] inner.hyps(3)
    have "wf_frame st'" "\<not> signal_frame st'" "unwind_get_return_address st' \<noteq> Inr 0"
      by auto
    with inner show ?case by auto
  qed auto
  then show ?thesis by blast
qed

lemma walk_loop_visits:
  assumes "frames im u st xs e" "length xs \<le> fuel"
  shows "\<exists>ret'. unwind_walk_loop fuel im u callback user ret st = Inr (ret', snd (visit callback user xs)) \<and>
    (fst (visit callback user xs) \<longrightarrow> ret' = e)"
  using assms
proof (induction arbitrary: user ret fuel rule: frames.induct)
  case (outermost st ra e st')
  then show ?case
    by (cases fuel) (auto simp: unwind_is_done_def split: prod.splits)
next
  case (inner st ra e st' xs e')
  then obtain n where fuel: "fuel = Suc n" "length xs \<le> n"
    by (cases fuel) auto
  from inner.IH [OF fuel(2)] inner.hyps(1-3) fuel(1) show ?case
    by (auto simp: unwind_is_done_def split: prod.splits)
qed

text \<open>
  C33: Walking a stack from an interrupted state calls the callback with the interrupted address and
  then with the return address of every frame in order, all marked as calls and none of them zero,
  until it asks to stop; it ends with the error of the outermost frame.
\<close>

theorem walk_visits_frames:
  assumes "g_unwinder_available u" "length xs \<le> fuel"
    and "frames im u (zero_state\<lparr>ret_reg_idx := of_nat ARCH_DWARF_PC_REG, frame := arch_registers_to_dwarf_registers regs,
           signal_frame := True\<rparr>) xs e"
  shows "\<exists>ret'. unwind_walk fuel im u cpu st (Some regs) return_address callback user =
      Inr (ret', snd (visit callback user xs)) \<and> (fst (visit callback user xs) \<longrightarrow> ret' = e) \<and>
    (\<exists>ys. xs = (rip regs, False) # ys \<and> list_all (\<lambda>(ra, called). called \<and> ra \<noteq> 0) ys)"
proof -
  let ?st = "zero_state\<lparr>ret_reg_idx := of_nat ARCH_DWARF_PC_REG, frame := arch_registers_to_dwarf_registers regs,
     signal_frame := True\<rparr>"
  have "wf_frame ?st" "unwind_get_return_address ?st = Inr (rip regs)"
    by (simp_all add: wf_frame_def zero_state_def arch_registers_to_dwarf_registers_def ARCH_NUM_DWARF_REGISTERS_def
        ARCH_DWARF_PC_REG_def unwind_get_return_address_def frame_reg_def)
  with frames_called [OF assms(3)] assms(3)
  have "\<exists>ys. xs = (rip regs, False) # ys \<and> list_all (\<lambda>(ra, called). called \<and> ra \<noteq> 0) ys"
    by (auto elim: frames.cases)
  with assms(1) walk_loop_visits [OF assms(3,2), of callback user 0] show ?thesis
    by (simp add: unwind_walk_def unwind_begin_def Let_def)
qed

definition example_registers :: registers where
  "example_registers =
     \<lparr>r15 = 0, r14 = 0, r13 = 0, r12 = 0, rbp = 0, rbx = 0, r11 = 0, r10 = 0, r9 = 0, r8 = 0, rax = 0, rcx = 0, rdx = 0,
      rsi = 0, rdi = 0, error_code = 0, rip = 0x1210, cs = 0, flags = 0, rsp = 0x1040, ss = 0\<rparr>"

definition collect :: "(64 word \<times> bool) list \<Rightarrow> 64 word \<Rightarrow> bool \<Rightarrow> bool \<times> (64 word \<times> bool) list" where
  "collect xs ra called = (True, xs @ [(ra, called)])"

theorem walk_visits_frames_witness:
  "unwind_walk 2 example_frame_image (example_unwinder\<lparr>g_num_fdes := 1\<rparr>) example_registers zero_state
     (Some example_registers) 0 collect [] = Inr (E EINVAL, [(0x1210, False), (0x30, True)])"
proof -
  let ?im = example_frame_image and ?u = "example_unwinder\<lparr>g_num_fdes := 1\<rparr>" and ?xs = "[(0x1210, False), (0x30, True)]"
  let ?st = "zero_state\<lparr>ret_reg_idx := of_nat ARCH_DWARF_PC_REG, frame := arch_registers_to_dwarf_registers example_registers,
     signal_frame := True\<rparr>"
  have u: "g_unwinder_available ?u" "length ?xs \<le> 2"
    by (simp_all add: example_unwinder_def)
  have st: "?st = example_frame_state\<lparr>signal_frame := True\<rparr>"
    by code_simp
  have "case unwind_next_frame ?im ?u example_next_state of Inr (e, st') \<Rightarrow> e = E EINVAL \<and> at_end st' | Inl _ \<Rightarrow> False"
    by code_simp
  then obtain st' where last_step: "unwind_next_frame ?im ?u example_next_state = Inr (E EINVAL, st')" "at_end st'"
    by (auto split: sum.splits)
  have ra: "unwind_get_return_address ?st = Inr 0x1210" "\<not> at_end example_next_state"
    by code_simp+
  have "frames ?im ?u example_next_state [(0x30, \<not> signal_frame example_next_state)] (E EINVAL)"
    by (rule frames.outermost [OF _ last_step]) code_simp
  then have "frames ?im ?u ?st ((0x1210, \<not> signal_frame ?st) # [(0x30, \<not> signal_frame example_next_state)]) (E EINVAL)"
    by (rule frames.inner [OF ra(1) example_step [folded st] ra(2)])
  then have "frames ?im ?u ?st ?xs (E EINVAL)"
    by (simp add: example_next_state_def)
  from walk_visits_frames [OF u this, of example_registers zero_state 0 collect "[]"] show ?thesis
    by (simp add: collect_def)
qed

end
