(* ===== verification/Console.thy ===== *)
theory Console
  imports Prelude
begin

text \<open>
  The list of consoles, \<^verbatim>\<open>kernel/console.c\<close>. A console is an object the caller owns; the list is the
  variable \<^verbatim>\<open>consoles\<close> and the \<^verbatim>\<open>next\<close> fields, so it may run in a circle: the loops are
  \<open>partial_function\<close>s, with \<open>None\<close> for not returning. \<open>registry\<close> is the list it stands for.
\<close>

section \<open>The code\<close>

record 'c console_state =
  consoles :: "'c option"
  con_next :: "'c \<Rightarrow> 'c option"

partial_function (option) registered_from :: "'c console_state \<Rightarrow> 'c \<Rightarrow> 'c option \<Rightarrow> bool option" where
  "registered_from s con this_con = (case this_con of
       None \<Rightarrow> Some False
     | Some c \<Rightarrow> if c = con then Some True else registered_from s con (con_next s c))"

definition console_registered :: "'c console_state \<Rightarrow> 'c \<Rightarrow> bool option" where
  "console_registered s con = registered_from s con (consoles s)"

definition register_console :: "'c \<Rightarrow> 'c console_state \<Rightarrow> ((errno + unit) \<times> 'c console_state) option" where
  "register_console con s =
     (if consoles s = None then Some (Inr (), s\<lparr>consoles := Some con\<rparr>)
      else Option.bind (console_registered s con) (\<lambda>r.
        if r then Some (Inl EBUSY, s)
        else Some (Inr (), s\<lparr>con_next := (con_next s)(con := consoles s), consoles := Some con\<rparr>)))"

partial_function (option) unregister_from ::
  "'c console_state \<Rightarrow> 'c \<Rightarrow> 'c option \<Rightarrow> 'c option \<Rightarrow> ((errno + unit) \<times> 'c console_state) option"
where
  "unregister_from s con cur_con prev_con = (case cur_con of
       None \<Rightarrow> Some (Inl EINVAL, s)
     | Some c \<Rightarrow>
         if c \<noteq> con then unregister_from s con (con_next s c) (Some c)
         else Some (Inr (), case prev_con of
                None \<Rightarrow> s
              | Some p \<Rightarrow> s\<lparr>con_next := (con_next s)(p := con_next s c)\<rparr>))"

definition unregister_console :: "'c \<Rightarrow> 'c console_state \<Rightarrow> ((errno + unit) \<times> 'c console_state) option" where
  "unregister_console con s = unregister_from s con (consoles s) None"

text \<open>\<open>write\<close> is the \<^verbatim>\<open>write\<close> field of a console, on the state of the devices.\<close>

partial_function (option) write_from ::
  "'c console_state \<Rightarrow> ('c \<Rightarrow> 'b list \<Rightarrow> 'd \<Rightarrow> 'd) \<Rightarrow> 'b list \<Rightarrow> 'c option \<Rightarrow> 'd \<Rightarrow> 'd option"
where
  "write_from s write str con dev = (case con of
       None \<Rightarrow> Some dev
     | Some c \<Rightarrow> write_from s write str (con_next s c) (write c str dev))"

declare registered_from.simps [code] unregister_from.simps [code] write_from.simps [code]

definition console_write :: "'c console_state \<Rightarrow> ('c \<Rightarrow> 'b list \<Rightarrow> 'd \<Rightarrow> 'd) \<Rightarrow> 'b list \<Rightarrow> 'd \<Rightarrow> 'd option" where
  "console_write s write str dev = write_from s write str (consoles s) dev"

section \<open>The list it stands for\<close>

fun linked :: "('c \<Rightarrow> 'c option) \<Rightarrow> 'c option \<Rightarrow> 'c list \<Rightarrow> bool" where
  "linked nxt p [] \<longleftrightarrow> p = None"
| "linked nxt p (c # cs) \<longleftrightarrow> p = Some c \<and> linked nxt (nxt c) cs"

lemma linked_update: "c \<notin> set cs \<Longrightarrow> linked (nxt(c := q)) p cs \<longleftrightarrow> linked nxt p cs"
  by (induction cs arbitrary: p) auto

definition registry :: "'c console_state \<Rightarrow> 'c list \<Rightarrow> bool" where
  "registry s cs \<longleftrightarrow> linked (con_next s) (consoles s) cs \<and> distinct cs \<and> (cs = [] \<longrightarrow> con_next s = (\<lambda>_. None))"

lemma registered_from_eq: "linked (con_next s) p cs \<Longrightarrow> registered_from s con p = Some (con \<in> set cs)"
  by (induction cs arbitrary: p) (subst registered_from.simps; auto)+

lemma write_from_eq: "linked (con_next s) p cs \<Longrightarrow> write_from s write str p dev = Some (fold (\<lambda>c. write c str) cs dev)"
  by (induction cs arbitrary: p dev) (subst write_from.simps; auto)+

lemma unregister_from_missing: "linked (con_next s) p cs \<Longrightarrow> con \<notin> set cs \<Longrightarrow> unregister_from s con p q = Some (Inl EINVAL, s)"
  by (induction cs arbitrary: p q) (subst unregister_from.simps; auto)+

lemma unregister_from_found:
  assumes "linked (con_next s) p cs" "distinct cs" "con \<in> set cs" "linked (con_next s) (Some q) (q # cs)" "q \<notin> set cs"
  shows "\<exists>s'. unregister_from s con p (Some q) = Some (Inr (), s') \<and> consoles s' = consoles s \<and>
    linked (con_next s') (Some q) (q # remove1 con cs) \<and> (\<forall>c. c \<notin> insert q (set cs) \<longrightarrow> con_next s' c = con_next s c)"
  using assms
proof (induction cs arbitrary: p q)
  case (Cons c cs)
  show ?case
  proof (cases "c = con")
    case True
    with Cons.prems show ?thesis
      by (subst unregister_from.simps) (auto simp: linked_update)
  next
    case False
    with Cons.prems obtain s' where s':
      "unregister_from s con (con_next s c) (Some c) = Some (Inr (), s')" "consoles s' = consoles s"
      "linked (con_next s') (Some c) (c # remove1 con cs)" "\<forall>d. d \<notin> insert c (set cs) \<longrightarrow> con_next s' d = con_next s d"
      using Cons.IH [of "con_next s c" c] by auto
    moreover have "unregister_from s con p (Some q) = unregister_from s con (con_next s c) (Some c)"
      using False Cons.prems by (subst unregister_from.simps) simp
    ultimately show ?thesis
      using False Cons.prems by auto
  qed
qed simp

section \<open>Sequences of operations\<close>

datatype 'c console_op = Register 'c | Unregister 'c

fun run_op :: "'c console_op \<Rightarrow> 'c console_state \<Rightarrow> ((errno + unit) \<times> 'c console_state) option" where
  "run_op (Register con) s = register_console con s"
| "run_op (Unregister con) s = unregister_console con s"

text \<open>On the list: removing the console registered last reports success and leaves it in.\<close>

fun list_op :: "'c console_op \<Rightarrow> 'c list \<Rightarrow> (errno + unit) \<times> 'c list" where
  "list_op (Register con) cs = (if con \<in> set cs then (Inl EBUSY, cs) else (Inr (), con # cs))"
| "list_op (Unregister con) cs =
     (if con \<notin> set cs then (Inl EINVAL, cs) else (Inr (), if hd cs = con then cs else remove1 con cs))"

lemma run_op_refines:
  assumes "registry s cs"
  shows "\<exists>s'. run_op op s = Some (fst (list_op op cs), s') \<and> registry s' (snd (list_op op cs))"
proof (cases op)
  case (Register con)
  show ?thesis
  proof (cases cs)
    case Nil
    with assms Register show ?thesis
      by (auto simp: registry_def register_console_def)
  next
    case (Cons c ds)
    with assms have "console_registered s con = Some (con \<in> set cs)" "consoles s \<noteq> None"
      using registered_from_eq [of s "consoles s" cs con] by (auto simp: registry_def console_registered_def)
    with assms Register Cons show ?thesis
      by (auto simp: registry_def register_console_def linked_update)
  qed
next
  case (Unregister con)
  show ?thesis
  proof (cases "con \<in> set cs")
    case False
    with assms Unregister show ?thesis
      by (auto simp: registry_def unregister_console_def unregister_from_missing)
  next
    case True
    then obtain c ds where cs: "cs = c # ds" by (cases cs) auto
    show ?thesis
    proof (cases "c = con")
      case True
      with assms Unregister cs show ?thesis
        by (auto simp: registry_def unregister_console_def) (subst unregister_from.simps; simp)
    next
      case False
      with assms cs \<open>con \<in> set cs\<close> obtain s' where
        "unregister_from s con (con_next s c) (Some c) = Some (Inr (), s')" "consoles s' = consoles s"
        "linked (con_next s') (Some c) (c # remove1 con ds)"
        using unregister_from_found [of s "con_next s c" ds con c] by (auto simp: registry_def)
      moreover have "unregister_console con s = unregister_from s con (con_next s c) (Some c)"
        using assms cs False unfolding unregister_console_def by (subst unregister_from.simps) (simp add: registry_def)
      ultimately show ?thesis
        using assms cs False Unregister \<open>con \<in> set cs\<close> by (auto simp: registry_def)
    qed
  qed
qed

fun run_ops :: "'c console_op list \<Rightarrow> 'c console_state \<Rightarrow> ((errno + unit) list \<times> 'c console_state) option" where
  "run_ops [] s = Some ([], s)"
| "run_ops (op # ops) s =
     Option.bind (run_op op s) (\<lambda>(r, s'). Option.bind (run_ops ops s') (\<lambda>(rs, s''). Some (r # rs, s'')))"

fun list_ops :: "'c console_op list \<Rightarrow> 'c list \<Rightarrow> (errno + unit) list \<times> 'c list" where
  "list_ops [] cs = ([], cs)"
| "list_ops (op # ops) cs =
     (case list_op op cs of (r, cs') \<Rightarrow> case list_ops ops cs' of (rs, cs'') \<Rightarrow> (r # rs, cs''))"

definition no_consoles :: "'c console_state" where
  "no_consoles = \<lparr>consoles = None, con_next = (\<lambda>_. None)\<rparr>"

lemma run_ops_refines:
  assumes "registry s cs"
  shows "\<exists>s'. run_ops ops s = Some (fst (list_ops ops cs), s') \<and> registry s' (snd (list_ops ops cs))"
  using assms
proof (induction ops arbitrary: s cs)
  case (Cons op ops)
  from run_op_refines [OF Cons.prems] obtain s1 where
    s1: "run_op op s = Some (fst (list_op op cs), s1)" "registry s1 (snd (list_op op cs))"
    by blast
  from Cons.IH [OF s1(2)] obtain s2 where
    "run_ops ops s1 = Some (fst (list_ops ops (snd (list_op op cs))), s2)" "registry s2 (snd (list_ops ops (snd (list_op op cs))))"
    by blast
  with s1 show ?case
    by (auto split: prod.splits)
qed simp

text \<open>
  C27: Starting with no consoles, every sequence of registrations and removals returns and behaves as
  on a list without repetitions, newest first; a message is then written once to each console of the
  list, in order. A console that is registered is refused and one that is not cannot be removed;
  removing the newest one is reported as done but does not happen.
\<close>

theorem console_registry_refines:
  "\<exists>s. run_ops ops no_consoles = Some (fst (list_ops ops []), s) \<and> distinct (snd (list_ops ops [])) \<and>
     console_write s write str dev = Some (fold (\<lambda>c. write c str) (snd (list_ops ops [])) dev)"
proof -
  have "registry no_consoles []"
    by (simp add: registry_def no_consoles_def)
  from run_ops_refines [OF this, of ops] obtain s where
    "run_ops ops no_consoles = Some (fst (list_ops ops []), s)" "registry s (snd (list_ops ops []))"
    by blast
  then show ?thesis
    by (auto simp: registry_def console_write_def write_from_eq)
qed

end
