(* ===== verification/Symbols.thy ===== *)
theory Symbols
  imports Search
begin

text \<open>
  The kernel's symbol tables, \<^verbatim>\<open>kernel/symbols.c\<close> and \<^verbatim>\<open>include/private/symbols.h\<close>: from a code address
  to the name of its function. The tables are generated by the build; they are an argument. The
  addresses are sorted; the names are compressed into indices of a table of tokens, in blocks of
  256 names whose offsets are stored.
\<close>

section \<open>The code\<close>

definition MAX_SYMBOL_LENGTH :: nat where
  "MAX_SYMBOL_LENGTH = 127 + 1"

record symbol_tables =
  g_symbol_count :: "32 word"
  g_symbol_compressed_names :: "8 word list"
  g_symbol_name_offsets :: "32 word list"
  g_symbol_token_table :: "8 word list"
  g_symbol_token_offsets :: "16 word list"
  g_symbol_relative_addresses :: "32 word list"
  g_symbol_base :: "64 word"
  kernel_text_begin :: "64 word"
  kernel_text_end :: "64 word"

text \<open>An element of an array, within its bounds. A pointer into an array is its index.\<close>

definition array_at :: "'a list \<Rightarrow> nat \<Rightarrow> 'a res" where
  "array_at xs i = (if i < length xs then Inr (xs ! i) else Inl Wild)"

definition get_compressed_symbol_length :: "symbol_tables \<Rightarrow> nat \<Rightarrow> (16 word \<times> nat) res" where
  "get_compressed_symbol_length t cursor =
     bind_res (array_at (g_symbol_compressed_names t) cursor) (\<lambda>b.
       let len = ucast b :: 16 word
       in if len AND ucast LEB128_HAS_NEXT_BYTE \<noteq> 0
          then bind_res (array_at (g_symbol_compressed_names t) (cursor + 1)) (\<lambda>b'.
                 Inr ((len AND ucast LEB128_MAX_PER_BYTE) OR push_bit (unat LEB128_BITS_PER_BYTE) (ucast b'), cursor + 2))
          else Inr (len, cursor + 1))"

text \<open>\<^verbatim>\<open>while (*token) *out_cursor++ = *token++;\<close>\<close>

function copy_token :: "8 word list \<Rightarrow> nat \<Rightarrow> 8 word list \<Rightarrow> nat \<Rightarrow> (8 word list \<times> nat) res" where
  "copy_token table token out_buf out_cursor =
     (if token < length table
      then if table ! token = 0 then Inr (out_buf, out_cursor)
           else if out_cursor < length out_buf
           then copy_token table (token + 1) (out_buf[out_cursor := table ! token]) (out_cursor + 1)
           else Inl Wild
      else Inl Wild)"
  by pat_completeness auto
termination
  by (relation "measure (\<lambda>(table, token, out_buf, out_cursor). length table - token)") auto

declare copy_token.simps [simp del]

fun uncompress_loop :: "symbol_tables \<Rightarrow> nat \<Rightarrow> nat \<Rightarrow> 8 word list \<Rightarrow> nat \<Rightarrow> (8 word list \<times> nat) res" where
  "uncompress_loop t 0 compressed_cursor out_buf out_cursor = Inr (out_buf, out_cursor)"
| "uncompress_loop t (Suc len) compressed_cursor out_buf out_cursor =
     bind_res (array_at (g_symbol_compressed_names t) compressed_cursor) (\<lambda>code.
     bind_res (array_at (g_symbol_token_offsets t) (unat code)) (\<lambda>token.
     bind_res (copy_token (g_symbol_token_table t) (unat token) out_buf out_cursor) (\<lambda>(out_buf', out_cursor').
       uncompress_loop t len (compressed_cursor + 1) out_buf' out_cursor')))"

definition uncompress_symbol :: "symbol_tables \<Rightarrow> nat \<Rightarrow> 8 word list \<Rightarrow> 8 word list res" where
  "uncompress_symbol t compressed_cursor out_buf =
     bind_res (get_compressed_symbol_length t compressed_cursor) (\<lambda>(len, cursor).
     bind_res (uncompress_loop t (unat len) cursor out_buf 0) (\<lambda>(out_buf', out_cursor).
       if out_cursor < length out_buf' then Inr (out_buf'[out_cursor := 0]) else Inl Wild))"

text \<open>
  \<^verbatim>\<open>cursor += get_compressed_symbol_length(&cursor)\<close> does not say whether \<^verbatim>\<open>cursor\<close> is read before the
  call changes it or after; \<open>late\<close> is the choice of the compiler.
\<close>

fun skip_symbols :: "bool \<Rightarrow> symbol_tables \<Rightarrow> nat \<Rightarrow> nat \<Rightarrow> nat res" where
  "skip_symbols late t 0 cursor = Inr cursor"
| "skip_symbols late t (Suc n) cursor =
     bind_res (get_compressed_symbol_length t cursor) (\<lambda>(len, cursor').
       skip_symbols late t n ((if late then cursor' else cursor) + unat len))"

definition get_compressed_symbol_name_cursor :: "bool \<Rightarrow> symbol_tables \<Rightarrow> 32 word \<Rightarrow> nat res" where
  "get_compressed_symbol_name_cursor late t index =
     bind_res (array_at (g_symbol_name_offsets t) (unat (drop_bit 8 index))) (\<lambda>off.
       skip_symbols late t (unat (index AND 0xFF)) (unat off))"

definition address_is_kernel_code :: "symbol_tables \<Rightarrow> 64 word \<Rightarrow> bool" where
  "address_is_kernel_code t address \<longleftrightarrow> kernel_text_begin t \<le> address \<and> address \<le> kernel_text_end t"

function symbol_search_loop :: "symbol_tables \<Rightarrow> 32 word \<Rightarrow> 32 word \<Rightarrow> 32 word \<Rightarrow> 32 word res" where
  "symbol_search_loop t rel_address lo hi =
     (if 1 < hi - lo
      then let i = lo + (hi - lo) div 2
           in bind_res (array_at (g_symbol_relative_addresses t) (unat i)) (\<lambda>a.
                if a \<le> rel_address then symbol_search_loop t rel_address i hi
                else symbol_search_loop t rel_address lo i)
      else Inr lo)"
  by pat_completeness auto
termination
proof (relation "measure (\<lambda>(t, rel_address, lo, hi). unat (hi - lo))", goal_cases)
  case (2 t rel_address lo hi)
  then show ?case
    using midpoint [where ?'a = 32, of hi lo] by (simp add: word_less_nat_alt del: diff_diff_add)
next
  case (3 t rel_address lo hi)
  then show ?case
    using midpoint [where ?'a = 32, of lo hi] by (simp add: word_less_nat_alt)
qed simp

declare symbol_search_loop.simps [simp del]

text \<open>The offset within the function and the buffer with the name.\<close>

definition symbol_lookup_by_address ::
  "bool \<Rightarrow> symbol_tables \<Rightarrow> 64 word \<Rightarrow> 8 word list \<Rightarrow> (errno + 64 word \<times> 8 word list) res"
where
  "symbol_lookup_by_address late t address out_name_buf =
     (if \<not> address_is_kernel_code t address then Inr (Inl EINVAL)
      else if g_symbol_count t = 0 then Inr (Inl ENOSYS)
      else let rel_address = ucast (address - g_symbol_base t)
           in bind_res (symbol_search_loop t rel_address 0 (g_symbol_count t)) (\<lambda>i.
              bind_res (array_at (g_symbol_relative_addresses t) (unat i)) (\<lambda>symbol_base.
              bind_res (get_compressed_symbol_name_cursor late t i) (\<lambda>cursor.
              bind_res (uncompress_symbol t cursor out_name_buf) (\<lambda>buf.
                Inr (Inr (ucast (rel_address - symbol_base), buf)))))))"

section \<open>Tables of a list of symbols\<close>

text \<open>A symbol is its address relative to the base and the indices of its tokens.\<close>

type_synonym symbol = "32 word \<times> 8 word list"

definition encode_length :: "nat \<Rightarrow> 8 word list" where
  "encode_length n = (if n < 128 then [of_nat n] else [of_nat (128 + n mod 128), of_nat (n div 128)])"

definition encode_symbol :: "8 word list \<Rightarrow> 8 word list" where
  "encode_symbol codes = encode_length (length codes) @ codes"

definition symbol_name :: "8 word list list \<Rightarrow> 8 word list \<Rightarrow> 8 word list" where
  "symbol_name tokens codes = concat (map (\<lambda>c. tokens ! unat c) codes)"

definition name_position :: "symbol list \<Rightarrow> nat \<Rightarrow> nat" where
  "name_position syms i = length (concat (map (encode_symbol \<circ> snd) (take i syms)))"

definition token_position :: "8 word list list \<Rightarrow> nat \<Rightarrow> nat" where
  "token_position tokens i = length (concat (map (\<lambda>tok. tok @ [0]) (take i tokens)))"

definition tables_of :: "8 word list list \<Rightarrow> symbol list \<Rightarrow> symbol_tables \<Rightarrow> bool" where
  "tables_of tokens syms t \<longleftrightarrow>
     unat (g_symbol_count t) = length syms \<and>
     sorted (map fst syms) \<and> g_symbol_relative_addresses t = map fst syms \<and>
     g_symbol_compressed_names t = concat (map (encode_symbol \<circ> snd) syms) \<and>
     list_all (\<lambda>s. length (snd s) < 2 ^ 14 \<and> length (symbol_name tokens (snd s)) < MAX_SYMBOL_LENGTH) syms \<and>
     map unat (g_symbol_name_offsets t) = map (\<lambda>k. name_position syms (256 * k)) [0..<(length syms + 255) div 256] \<and>
     length tokens = 256 \<and> list_all (\<lambda>tok. 0 \<notin> set tok) tokens \<and>
     g_symbol_token_table t = concat (map (\<lambda>tok. tok @ [0]) tokens) \<and>
     map unat (g_symbol_token_offsets t) = map (token_position tokens) [0..<256]"

interpretation symbol_search: bisection
  "\<lambda>lo hi. symbol_search_loop t rel (of_nat lo) (of_nat hi)"
  "\<lambda>i. i < length (g_symbol_relative_addresses t)"
  "\<lambda>i. g_symbol_relative_addresses t ! i \<le> rel"
  "\<lambda>i. Inr (of_nat i)"
  "2 ^ 32"
  for t rel
proof
  fix lo hi :: nat
  let ?mid = "lo + (hi - lo) div 2"
  assume lohi: "lo + 1 < hi" "hi < 2 ^ 32" and read: "?mid < length (g_symbol_relative_addresses t)"
  then have "of_nat lo + (of_nat hi - of_nat lo) div 2 = (of_nat ?mid :: 32 word)" "(1::32 word) < of_nat hi - of_nat lo"
    using midpoint_of_nat [where ?'a = 32, of lo hi] by simp_all
  moreover have "?mid < 2 ^ 32" using lohi by (simp add: less_diff_conv)
  then have "unat (of_nat ?mid :: 32 word) = ?mid"
    by (simp add: unsigned_of_nat take_bit_nat_eq_self del: of_nat_add)
  ultimately show "symbol_search_loop t rel (of_nat lo) (of_nat hi) =
      (if g_symbol_relative_addresses t ! ?mid \<le> rel then symbol_search_loop t rel (of_nat ?mid) (of_nat hi)
       else symbol_search_loop t rel (of_nat lo) (of_nat ?mid))"
    using read by (subst symbol_search_loop.simps) (simp add: array_at_def Let_def del: of_nat_add)
next
  fix lo hi :: nat
  assume "lo \<le> hi" "hi \<le> lo + 1" "hi < 2 ^ 32"
  then have "\<not> (1::32 word) < of_nat hi - of_nat lo"
    using midpoint_of_nat(2) [where ?'a = 32, of lo hi] by simp
  then show "symbol_search_loop t rel (of_nat lo) (of_nat hi) = Inr (of_nat lo)"
    by (subst symbol_search_loop.simps) simp
qed

section \<open>Reading the names\<close>

text \<open>The bytes \<open>bs\<close> are in the array from \<open>c\<close> on.\<close>

definition stored :: "'a list \<Rightarrow> nat \<Rightarrow> 'a list \<Rightarrow> bool" where
  "stored xs c ys \<longleftrightarrow> c + length ys \<le> length xs \<and> take (length ys) (drop c xs) = ys"

lemma stored_append: "stored xs c (ys @ zs) \<longleftrightarrow> stored xs c ys \<and> stored xs (c + length ys) zs"
  by (auto simp: stored_def take_add append_eq_append_conv add.commute [of c] dest: arg_cong [where f = length])

lemma stored_Cons: "stored xs c (y # ys) \<longleftrightarrow> array_at xs c = Inr y \<and> stored xs (Suc c) ys"
  by (cases "c < length xs")
    (auto simp: stored_def array_at_def take_Suc_conv_app_nth drop_Suc Cons_nth_drop_Suc [symmetric])

lemma stored_Nil: "stored xs c [] \<longleftrightarrow> c \<le> length xs"
  by (simp add: stored_def)

lemma stored_here: "stored (xs @ ys @ zs) (length xs) ys"
  by (simp add: stored_def)

lemma ucast_byte_0: "(ucast (b :: 8 word) :: 16 word) = 0 \<longleftrightarrow> b = 0"
  using unsigned_less [of b, where ?'a = nat] by (simp add: word_unat_eq_iff unsigned_ucast_eq take_bit_nat_eq_self)

lemma compressed_length_eq:
  assumes "stored (g_symbol_compressed_names t) c (encode_length n)" "n < 2 ^ 14"
  shows "get_compressed_symbol_length t c = Inr (of_nat n, c + length (encode_length n))"
proof (cases "n < 128")
  case True
  have "(ucast (of_nat n :: 8 word) :: 16 word) = of_nat n"
    using True by (simp add: word_unat_eq_iff unsigned_ucast_eq unsigned_of_nat take_bit_nat_eq_self)
  moreover have "(of_nat n :: 8 word) AND LEB128_HAS_NEXT_BYTE = 0"
    using True unat_byte [of n] by (simp add: has_next_iff)
  ultimately show ?thesis
    using True assms(1)
    by (simp add: encode_length_def stored_Cons get_compressed_symbol_length_def Let_def ucast_byte_0
        flip: unsigned_and_eq)
next
  case False
  let ?b = "of_nat (128 + n mod 128) :: 8 word" and ?h = "n div 128"
  have b: "unat ?b = 128 + n mod 128" by (rule unat_byte) simp
  have h: "?h < 128" using assms(2) by (simp add: div_less_iff_less_mult)
  have "?b AND LEB128_HAS_NEXT_BYTE \<noteq> 0"
    using b by (simp add: has_next_iff del: of_nat_add)
  moreover have "unat (?b AND LEB128_MAX_PER_BYTE) = n mod 128"
    using b by (simp only: unat_low7) simp
  then have "(ucast (?b AND LEB128_MAX_PER_BYTE) :: 16 word) = of_nat (n mod 128)"
    by (simp add: word_unat_eq_iff unsigned_ucast_eq unsigned_of_nat take_bit_nat_eq_self del: of_nat_add)
  moreover have "push_bit (unat LEB128_BITS_PER_BYTE) (ucast (of_nat ?h :: 8 word) :: 16 word) = of_nat (?h * 2 ^ 7)"
  proof -
    have "(ucast (of_nat ?h :: 8 word) :: 16 word) = of_nat ?h"
      using h by (simp add: word_unat_eq_iff unsigned_ucast_eq unsigned_of_nat take_bit_nat_eq_self)
    then show ?thesis by (simp add: LEB128_BITS_PER_BYTE_def push_bit_eq_mult)
  qed
  moreover have "(of_nat (n mod 128) :: 16 word) OR of_nat (?h * 2 ^ 7) = of_nat n"
    using or_shifted [of "n mod 128" 7 ?h, where ?'a = 16] mod_div_mult_eq [of n 128] by simp
  ultimately show ?thesis
    using False assms(1)
    by (simp add: encode_length_def stored_Cons get_compressed_symbol_length_def Let_def ucast_byte_0
        flip: unsigned_and_eq del: of_nat_add of_nat_mult)
qed

lemma copy_token_eq:
  assumes "stored table p (tok @ [0])" "0 \<notin> set tok" "c + length tok \<le> length buf"
  shows "copy_token table p buf c = Inr (take c buf @ tok @ drop (c + length tok) buf, c + length tok)"
  using assms
proof (induction tok arbitrary: p buf c)
  case Nil
  then have "p < length table" "table ! p = 0"
    by (auto simp: stored_Cons array_at_def split: if_splits)
  then show ?case
    by (subst copy_token.simps) simp
next
  case (Cons b tok)
  then have p: "p < length table" "table ! p = b" and rest: "stored table (Suc p) (tok @ [0])"
    by (auto simp: stored_Cons array_at_def split: if_splits)
  have "copy_token table (Suc p) (buf[c := b]) (Suc c) =
      Inr (take (Suc c) (buf[c := b]) @ tok @ drop (Suc c + length tok) (buf[c := b]), Suc c + length tok)"
    using Cons.prems by (intro Cons.IH [OF rest]) auto
  with p Cons.prems show ?case
    by (subst copy_token.simps) (auto simp: take_Suc_update)
qed

lemma stored_concat:
  assumes "i < length xss"
  shows "stored (concat xss) (length (concat (take i xss))) (xss ! i)"
proof -
  have "concat xss = concat (take i xss) @ xss ! i @ concat (drop (Suc i) xss)"
    by (subst id_take_nth_drop [OF assms]) simp
  then show ?thesis
    by (simp only: stored_here)
qed

lemma map_unat_nth:
  assumes "map unat ws = ns" "i < length ns"
  shows "\<exists>w. array_at ws i = Inr w \<and> unat w = ns ! i"
  using assms by (auto simp: array_at_def)

lemma token_stored:
  assumes "tables_of tokens syms t" "i < 256"
  shows "\<exists>w. array_at (g_symbol_token_offsets t) i = Inr w \<and> stored (g_symbol_token_table t) (unat w) (tokens ! i @ [0]) \<and>
    0 \<notin> set (tokens ! i)"
proof -
  from assms have "map unat (g_symbol_token_offsets t) = map (token_position tokens) [0..<256]"
    and len: "length tokens = 256" "0 \<notin> set (tokens ! i)"
    by (auto simp: tables_of_def list_all_length)
  from map_unat_nth [OF this(1), of i] assms(2) obtain w where
    w: "array_at (g_symbol_token_offsets t) i = Inr w" "unat w = token_position tokens i"
    by auto
  have "stored (g_symbol_token_table t) (token_position tokens i) (tokens ! i @ [0])"
    using stored_concat [of i "map (\<lambda>tok. tok @ [0]) tokens"] assms len
    by (simp add: tables_of_def token_position_def take_map)
  with w len show ?thesis by auto
qed

lemma uncompress_loop_eq:
  assumes "tables_of tokens syms t" "stored (g_symbol_compressed_names t) p codes"
    and "c + length (symbol_name tokens codes) \<le> length buf"
  shows "uncompress_loop t (length codes) p buf c =
    Inr (take c buf @ symbol_name tokens codes @ drop (c + length (symbol_name tokens codes)) buf,
         c + length (symbol_name tokens codes))"
  using assms(2,3)
proof (induction codes arbitrary: p buf c)
  case Nil
  then show ?case by (simp add: symbol_name_def)
next
  case (Cons b codes)
  let ?tok = "tokens ! unat b"
  have "unat b < 256" using unsigned_less [of b, where ?'a = nat] by simp
  from token_stored [OF assms(1) this] obtain w where
    w: "array_at (g_symbol_token_offsets t) (unat b) = Inr w" "stored (g_symbol_token_table t) (unat w) (?tok @ [0])"
    "0 \<notin> set ?tok"
    by blast
  have name: "symbol_name tokens (b # codes) = ?tok @ symbol_name tokens codes"
    by (simp add: symbol_name_def)
  let ?buf = "take c buf @ ?tok @ drop (c + length ?tok) buf"
  have "copy_token (g_symbol_token_table t) (unat w) buf c = Inr (?buf, c + length ?tok)"
    using Cons.prems(2) name by (intro copy_token_eq w) simp
  moreover have "uncompress_loop t (length codes) (Suc p) ?buf (c + length ?tok) =
      Inr (take (c + length ?tok) ?buf @ symbol_name tokens codes @ drop (c + length ?tok + length (symbol_name tokens codes)) ?buf,
           c + length ?tok + length (symbol_name tokens codes))"
    using Cons.prems name by (intro Cons.IH) (simp_all add: stored_Cons)
  ultimately show ?case
    using Cons.prems w name by (simp add: stored_Cons ac_simps)
qed

lemma symbol_stored:
  assumes "tables_of tokens syms t" "i < length syms"
  shows "stored (g_symbol_compressed_names t) (name_position syms i) (encode_symbol (snd (syms ! i)))"
    and "length (snd (syms ! i)) < 2 ^ 14"
    and "length (symbol_name tokens (snd (syms ! i))) < MAX_SYMBOL_LENGTH"
  using stored_concat [of i "map (encode_symbol \<circ> snd) syms"] assms
  by (auto simp: tables_of_def name_position_def take_map list_all_length)

lemma skip_symbols_eq:
  assumes "tables_of tokens syms t" "i + n \<le> length syms"
  shows "skip_symbols True t n (name_position syms i) = Inr (name_position syms (i + n))"
  using assms(2)
proof (induction n arbitrary: i)
  case (Suc n)
  then have i: "i < length syms" by simp
  let ?codes = "snd (syms ! i)"
  note stored = symbol_stored [OF assms(1) i]
  have "stored (g_symbol_compressed_names t) (name_position syms i) (encode_length (length ?codes))"
    using stored(1) by (simp add: encode_symbol_def stored_append)
  note len = compressed_length_eq [OF this stored(2)]
  have "unat (of_nat (length ?codes) :: 16 word) = length ?codes"
    using stored(2) by (simp add: unsigned_of_nat take_bit_nat_eq_self)
  moreover have "name_position syms (Suc i) = name_position syms i + length (encode_symbol ?codes)"
    using i by (simp add: name_position_def take_Suc_conv_app_nth)
  ultimately show ?case
    using Suc.IH [of "Suc i"] Suc.prems len by (simp add: encode_symbol_def add.assoc)
qed simp

lemma name_cursor_eq:
  assumes "tables_of tokens syms t" "i < length syms"
  shows "get_compressed_symbol_name_cursor True t (of_nat i) = Inr (name_position syms i)"
proof -
  have "i < 2 ^ 32"
    using assms unsigned_less [of "g_symbol_count t", where ?'a = nat] by (simp add: tables_of_def)
  then have i: "unat (of_nat i :: 32 word) = i"
    by (simp add: unsigned_of_nat take_bit_nat_eq_self)
  have blk: "unat (drop_bit 8 (of_nat i :: 32 word)) = i div 256"
    using i by (simp add: unsigned_drop_bit_eq drop_bit_eq_div unat_div take_bit_nat_eq_self)
  have low: "unat ((of_nat i :: 32 word) AND 0xFF) = i mod 256"
    using unat_and_mask [of "of_nat i :: 32 word" 8] i by (simp add: mask_eq_exp_minus_1)
  have "i div 256 < (length syms + 255) div 256"
  proof -
    have "i div 256 \<le> (length syms - 1) div 256" "(length syms + 255) div 256 = Suc ((length syms - 1) div 256)"
      using assms(2) by (auto intro: div_le_mono)
    then show ?thesis by simp
  qed
  moreover have "map unat (g_symbol_name_offsets t) = map (\<lambda>k. name_position syms (256 * k)) [0..<(length syms + 255) div 256]"
    using assms(1) by (simp add: tables_of_def)
  note map_unat_nth [OF this, of "i div 256"]
  ultimately obtain w where
    w: "array_at (g_symbol_name_offsets t) (i div 256) = Inr w" "unat w = name_position syms (256 * (i div 256))"
    by auto
  have "skip_symbols True t (i mod 256) (name_position syms (256 * (i div 256))) = Inr (name_position syms i)"
    using skip_symbols_eq [OF assms(1), of "256 * (i div 256)" "i mod 256"] assms(2) by simp
  with w show ?thesis
    by (simp add: get_compressed_symbol_name_cursor_def blk low)
qed

text \<open>
  C26: Looking up a code address finds the last symbol that does not start above it (the first, when
  all do) and returns the distance from it and its name, all tokens put together, terminated, in the
  buffer of the caller, when the compiler reads the cursor after the call.
\<close>

theorem symbol_lookup_exact:
  assumes "tables_of tokens syms t" "syms \<noteq> []" "address_is_kernel_code t address" "length buf = MAX_SYMBOL_LENGTH"
    and rel_def: "rel = ucast (address - g_symbol_base t)"
  shows "\<exists>i < length syms. (fst (syms ! i) \<le> rel \<or> i = 0) \<and> (\<forall>j < length syms. i < j \<longrightarrow> rel < fst (syms ! j)) \<and>
    symbol_lookup_by_address True t address buf =
      Inr (Inr (ucast (rel - fst (syms ! i)),
                symbol_name tokens (snd (syms ! i)) @ [0] @ drop (Suc (length (symbol_name tokens (snd (syms ! i))))) buf))"
proof -
  let ?n = "length syms"
  from assms(1) have n: "unat (g_symbol_count t) = ?n" and sorted: "sorted (map fst syms)"
    and addrs: "g_symbol_relative_addresses t = map fst syms"
    by (auto simp: tables_of_def)
  have word_n: "of_nat ?n = g_symbol_count t"
    by (simp flip: n)
  obtain i where run: "symbol_search_loop t rel (of_nat 0) (of_nat ?n) = Inr (of_nat i)"
    and i: "symbol_search.last_not_above t rel ?n i"
  proof (rule symbol_search.search [of ?n t rel])
    show "?n < 2 ^ 32" using unsigned_less [of "g_symbol_count t", where ?'a = nat] n by simp
    show "g_symbol_relative_addresses t ! j \<le> rel" if "j < k" "k < ?n" "g_symbol_relative_addresses t ! k \<le> rel" for j k
      using sorted_nth_mono [OF sorted, of j k] that addrs by (force intro: order_trans)
  qed (use assms(2) addrs in auto)
  from i have i: "i < ?n" "fst (syms ! i) \<le> rel \<or> i = 0" "\<forall>j < ?n. i < j \<longrightarrow> rel < fst (syms ! j)"
    unfolding symbol_search.last_not_above_def unfolding addrs by (auto simp: not_le)
  let ?codes = "snd (syms ! i)" and ?name = "symbol_name tokens (snd (syms ! i))"
  note stored = symbol_stored [OF assms(1) i(1)]
  have parts: "stored (g_symbol_compressed_names t) (name_position syms i) (encode_length (length ?codes))"
    "stored (g_symbol_compressed_names t) (name_position syms i + length (encode_length (length ?codes))) ?codes"
    using stored(1) by (simp_all add: encode_symbol_def stored_append)
  have "unat (of_nat (length ?codes) :: 16 word) = length ?codes"
    using stored(2) by (simp add: unsigned_of_nat take_bit_nat_eq_self)
  then have "uncompress_symbol t (name_position syms i) buf = Inr (?name @ [0] @ drop (Suc (length ?name)) buf)"
    using uncompress_loop_eq [OF assms(1) parts(2), of 0 buf] compressed_length_eq [OF parts(1) stored(2)] stored(3) assms(4)
    by (simp add: uncompress_symbol_def list_update_append Cons_nth_drop_Suc [symmetric])
  moreover have "unat (of_nat i :: 32 word) = i"
    using i(1) n unsigned_less [of "g_symbol_count t", where ?'a = nat] by (simp add: unsigned_of_nat take_bit_nat_eq_self)
  moreover have "g_symbol_count t \<noteq> 0"
    using n assms(2) by auto
  ultimately show ?thesis
    using i run word_n assms(3) name_cursor_eq [OF assms(1) i(1)]
    by (auto simp: symbol_lookup_by_address_def Let_def rel_def array_at_def addrs intro!: exI [of _ i])
qed

text \<open>Two symbols, \<^verbatim>\<open>ab\<close> and \<^verbatim>\<open>c\<close>, with one-letter tokens.\<close>

definition example_tokens :: "8 word list list" where
  "example_tokens = map (\<lambda>i. [if i = 0 then 1 else of_nat i]) [0..<256]"

definition example_symbols :: "symbol list" where
  "example_symbols = [(0, [0x61, 0x62]), (0x20, [0x63])]"

definition example_tables :: symbol_tables where
  "example_tables =
     \<lparr>g_symbol_count = 2, g_symbol_compressed_names = [2, 0x61, 0x62, 1, 0x63], g_symbol_name_offsets = [0],
      g_symbol_token_table = concat (map (\<lambda>tok. tok @ [0]) example_tokens),
      g_symbol_token_offsets = map (\<lambda>i. of_nat (2 * i)) [0..<256],
      g_symbol_relative_addresses = [0, 0x20], g_symbol_base = 0x1000, kernel_text_begin = 0x1000, kernel_text_end = 0x2000\<rparr>"

lemma example_token: "0 < i \<Longrightarrow> i < 256 \<Longrightarrow> example_tokens ! i = [of_nat i]"
  by (simp add: example_tokens_def)

lemma example_tables_ok: "tables_of example_tokens example_symbols example_tables"
proof -
  have pos: "token_position example_tokens i = 2 * i" if "i < 256" for i
    using that
    by (simp add: token_position_def example_tokens_def length_concat take_map map_concat o_def sum_list_triv)
  have "map unat (g_symbol_token_offsets example_tables) = map (token_position example_tokens) [0..<256]"
    by (simp add: example_tables_def o_def pos unsigned_of_nat take_bit_nat_eq_self del: of_nat_mult)
  moreover have "list_all (\<lambda>tok. 0 \<notin> set tok) example_tokens"
    by (auto simp: example_tokens_def list_all_iff word_unat_eq_iff unsigned_of_nat take_bit_nat_eq_self)
  moreover have "list_all (\<lambda>s. length (snd s) < 2 ^ 14 \<and> length (symbol_name example_tokens (snd s)) < MAX_SYMBOL_LENGTH)
      example_symbols"
    by (simp add: example_symbols_def symbol_name_def example_token MAX_SYMBOL_LENGTH_def)
  moreover have "length example_tokens = 256"
    by (simp add: example_tokens_def)
  ultimately show ?thesis
    by (simp add: tables_of_def example_tables_def example_symbols_def encode_symbol_def encode_length_def name_position_def)
qed

theorem symbol_lookup_exact_witness:
  "\<exists>buf. symbol_lookup_by_address True example_tables 0x1028 (replicate 128 0x78) = Inr (Inr (8, 0x63 # 0 # buf))"
proof -
  have hyps: "example_symbols \<noteq> []" "address_is_kernel_code example_tables 0x1028"
    "length (replicate 128 (0x78 :: 8 word)) = MAX_SYMBOL_LENGTH" "(0x28 :: 32 word) = ucast (0x1028 - g_symbol_base example_tables)"
    by (simp_all add: address_is_kernel_code_def example_tables_def MAX_SYMBOL_LENGTH_def example_symbols_def)
  obtain i where i: "i < length example_symbols" "\<forall>j < length example_symbols. i < j \<longrightarrow> 0x28 < fst (example_symbols ! j)"
    and run: "symbol_lookup_by_address True example_tables 0x1028 (replicate 128 0x78) =
        Inr (Inr (ucast (0x28 - fst (example_symbols ! i)), symbol_name example_tokens (snd (example_symbols ! i)) @ [0] @
          drop (Suc (length (symbol_name example_tokens (snd (example_symbols ! i))))) (replicate 128 0x78)))"
    using symbol_lookup_exact [OF example_tables_ok hyps] by blast
  have "i = 1"
    using i by (auto simp: less_Suc_eq example_symbols_def)
  then show ?thesis
    unfolding run by (simp add: example_symbols_def symbol_name_def example_token)
qed

text \<open>
  With the cursor read before the call, every skipped name moves the cursor by its tokens only, and
  the length byte is left out: the name of the second symbol begins with the last token of the first.
\<close>

lemma symbol_lookup_early_read:
  "get_compressed_symbol_name_cursor False example_tables 1 = Inr 2"
  "get_compressed_symbol_name_cursor True example_tables 1 = Inr 3"
  by (simp_all add: get_compressed_symbol_name_cursor_def get_compressed_symbol_length_def array_at_def
      example_tables_def Let_def LEB128_HAS_NEXT_BYTE_def)

end
