(* ===== verification/Atomic.thy ===== *)
theory Atomic
  imports Prelude
begin

text \<open>
  \<^verbatim>\<open>include/common/atomic.h\<close>. An atomic operation is one step on the value of its object: the object
  goes in, and comes out with the result. All steps on one object happen in one order that every processor agrees on,
  whatever the \<open>memory_order\<close> is; the memory order only says which other accesses may be seen before
  or after the step. The barriers act on that alone and have no definition here.
\<close>

datatype memory_order = MO_RELAXED | MO_CONSUME | MO_ACQ_REL | MO_ACQUIRE | MO_RELEASE | MO_SEQ_CST

definition atomic_load_explicit :: "'a \<Rightarrow> memory_order \<Rightarrow> 'a" where
  "atomic_load_explicit obj mo = obj"
definition atomic_load_relaxed :: "'a \<Rightarrow> 'a" where
  "atomic_load_relaxed obj = atomic_load_explicit obj MO_RELAXED"
definition atomic_load_acquire :: "'a \<Rightarrow> 'a" where
  "atomic_load_acquire obj = atomic_load_explicit obj MO_ACQUIRE"
definition atomic_load_seq_cst :: "'a \<Rightarrow> 'a" where
  "atomic_load_seq_cst obj = atomic_load_explicit obj MO_SEQ_CST"

definition atomic_store_explicit :: "'a \<Rightarrow> 'a \<Rightarrow> memory_order \<Rightarrow> 'a" where
  "atomic_store_explicit obj x mo = x"
definition atomic_store_relaxed :: "'a \<Rightarrow> 'a \<Rightarrow> 'a" where
  "atomic_store_relaxed obj x = atomic_store_explicit obj x MO_RELAXED"
definition atomic_store_release :: "'a \<Rightarrow> 'a \<Rightarrow> 'a" where
  "atomic_store_release obj x = atomic_store_explicit obj x MO_RELEASE"
definition atomic_store_seq_cst :: "'a \<Rightarrow> 'a \<Rightarrow> 'a" where
  "atomic_store_seq_cst obj x = atomic_store_explicit obj x MO_SEQ_CST"

text \<open>The object and the result, which is its new value.\<close>

definition atomic_add_fetch :: "'a::len word \<Rightarrow> 'a word \<Rightarrow> memory_order \<Rightarrow> 'a word \<times> 'a word" where
  "atomic_add_fetch obj x mo = (obj + x, obj + x)"
definition atomic_sub_fetch :: "'a::len word \<Rightarrow> 'a word \<Rightarrow> memory_order \<Rightarrow> 'a word \<times> 'a word" where
  "atomic_sub_fetch obj x mo = (obj - x, obj - x)"
definition atomic_and_fetch :: "'a::len word \<Rightarrow> 'a word \<Rightarrow> memory_order \<Rightarrow> 'a word \<times> 'a word" where
  "atomic_and_fetch obj x mo = (obj AND x, obj AND x)"
definition atomic_or_fetch :: "'a::len word \<Rightarrow> 'a word \<Rightarrow> memory_order \<Rightarrow> 'a word \<times> 'a word" where
  "atomic_or_fetch obj x mo = (obj OR x, obj OR x)"
definition atomic_xor_fetch :: "'a::len word \<Rightarrow> 'a word \<Rightarrow> memory_order \<Rightarrow> 'a word \<times> 'a word" where
  "atomic_xor_fetch obj x mo = (obj XOR x, obj XOR x)"

text \<open>The object and the result, which is its old value.\<close>

definition atomic_xchg :: "'a \<Rightarrow> 'a \<Rightarrow> memory_order \<Rightarrow> 'a \<times> 'a" where
  "atomic_xchg obj x mo = (x, obj)"

text \<open>The object, the expected value, which a failure overwrites, and whether they were equal.\<close>

definition atomic_cmpxchg_explicit :: "'a \<Rightarrow> 'a \<Rightarrow> 'a \<Rightarrow> memory_order \<Rightarrow> memory_order \<Rightarrow> 'a \<times> 'a \<times> bool" where
  "atomic_cmpxchg_explicit obj expected desired success_mo fail_mo =
     (if obj = expected then (desired, expected, True) else (obj, obj, False))"

definition atomic_cmpxchg_acq_rel :: "'a \<Rightarrow> 'a \<Rightarrow> 'a \<Rightarrow> 'a \<times> 'a \<times> bool" where
  "atomic_cmpxchg_acq_rel obj expected desired = atomic_cmpxchg_explicit obj expected desired MO_ACQ_REL MO_ACQUIRE"

end
