(* ===== verification/Log.thy ===== *)
theory Log
  imports FormatTheorems Console Symbols Unwind Atomic
begin

text \<open>
  The kernel log, \<^verbatim>\<open>kernel/log.c\<close>: a message is formatted into one static buffer and written to every
  console. \<open>dump_stack\<close> prints the frames the unwinder visits by the names of the symbol tables; \<open>panic\<close>
  prints a reason and the stack. What a console does with a text is the argument \<open>con_write\<close> on the state \<open>dev\<close> of the devices.
\<close>

section \<open>Messages\<close>

text \<open>The levels of syslog.\<close>

definition SYSLOG_EMERG :: nat where "SYSLOG_EMERG = 0"
definition SYSLOG_ALERT :: nat where "SYSLOG_ALERT = 1"
definition SYSLOG_CRIT :: nat where "SYSLOG_CRIT = 2"
definition SYSLOG_ERR :: nat where "SYSLOG_ERR = 3"
definition SYSLOG_WARNING :: nat where "SYSLOG_WARNING = 4"
definition SYSLOG_NOTICE :: nat where "SYSLOG_NOTICE = 5"
definition SYSLOG_INFO :: nat where "SYSLOG_INFO = 6"
definition SYSLOG_DEBUG :: nat where "SYSLOG_DEBUG = 7"

definition LOG_LEVEL_EMERG :: nat where "LOG_LEVEL_EMERG = SYSLOG_EMERG"
definition LOG_LEVEL_ALERT :: nat where "LOG_LEVEL_ALERT = SYSLOG_ALERT"
definition LOG_LEVEL_CRIT :: nat where "LOG_LEVEL_CRIT = SYSLOG_CRIT"
definition LOG_LEVEL_ERR :: nat where "LOG_LEVEL_ERR = SYSLOG_ERR"
definition LOG_LEVEL_WARN :: nat where "LOG_LEVEL_WARN = SYSLOG_WARNING"
definition LOG_LEVEL_NOTICE :: nat where "LOG_LEVEL_NOTICE = SYSLOG_NOTICE"
definition LOG_LEVEL_INFO :: nat where "LOG_LEVEL_INFO = SYSLOG_INFO"
definition LOG_LEVEL_DEBUG :: nat where "LOG_LEVEL_DEBUG = SYSLOG_DEBUG"
definition LOG_LEVEL_COUNT :: nat where "LOG_LEVEL_COUNT = Suc LOG_LEVEL_DEBUG"
definition LOG_LEVEL_DEFAULT :: nat where "LOG_LEVEL_DEFAULT = LOG_LEVEL_NOTICE"
definition LOG_LEVEL_PREFIX_CHAR :: char where "LOG_LEVEL_PREFIX_CHAR = CHR 0x01"

lemmas log_levels = SYSLOG_EMERG_def SYSLOG_ALERT_def SYSLOG_CRIT_def SYSLOG_ERR_def SYSLOG_WARNING_def SYSLOG_NOTICE_def SYSLOG_INFO_def SYSLOG_DEBUG_def
  LOG_LEVEL_EMERG_def LOG_LEVEL_ALERT_def LOG_LEVEL_CRIT_def LOG_LEVEL_ERR_def LOG_LEVEL_WARN_def LOG_LEVEL_NOTICE_def LOG_LEVEL_INFO_def LOG_LEVEL_DEBUG_def
  LOG_LEVEL_COUNT_def LOG_LEVEL_DEFAULT_def

text \<open>The prefix of a message of a level, written as the preprocessor writes the number.\<close>

definition LOG_LEVEL_PREFIX :: "char list" where "LOG_LEVEL_PREFIX = [LOG_LEVEL_PREFIX_CHAR]"
definition LOG_EMERG :: "char list" where "LOG_EMERG = LOG_LEVEL_PREFIX @ decimal SYSLOG_EMERG"
definition LOG_ALERT :: "char list" where "LOG_ALERT = LOG_LEVEL_PREFIX @ decimal SYSLOG_ALERT"
definition LOG_CRIT :: "char list" where "LOG_CRIT = LOG_LEVEL_PREFIX @ decimal SYSLOG_CRIT"
definition LOG_ERR :: "char list" where "LOG_ERR = LOG_LEVEL_PREFIX @ decimal SYSLOG_ERR"
definition LOG_WARN :: "char list" where "LOG_WARN = LOG_LEVEL_PREFIX @ decimal SYSLOG_WARNING"
definition LOG_NOTICE :: "char list" where "LOG_NOTICE = LOG_LEVEL_PREFIX @ decimal SYSLOG_NOTICE"
definition LOG_INFO :: "char list" where "LOG_INFO = LOG_LEVEL_PREFIX @ decimal SYSLOG_INFO"
definition LOG_DEBUG :: "char list" where "LOG_DEBUG = LOG_LEVEL_PREFIX @ decimal SYSLOG_DEBUG"

lemmas log_prefixes = LOG_LEVEL_PREFIX_def LOG_EMERG_def LOG_ALERT_def LOG_CRIT_def LOG_ERR_def LOG_WARN_def LOG_NOTICE_def LOG_INFO_def LOG_DEBUG_def

text \<open>The result is the length of the prefix and the level.\<close>

definition extract_msg_level :: "cptr \<Rightarrow> nat \<Rightarrow> (nat \<times> nat) res" where
  "extract_msg_level msg default_level =
     bind_res (char_at_ptr msg 0) (\<lambda>c.
       if c \<noteq> LOG_LEVEL_PREFIX_CHAR then Inr (0, default_level)
       else bind_res (char_at_ptr msg 1) (\<lambda>d.
         if d = NUL then Inr (1, default_level)
         else let level = (of_char d :: 8 word) - of_char (CHR ''0'')
              in Inr (2, if unat level < LOG_LEVEL_COUNT then unat level else default_level)))"

definition LOG_BUF_SIZE :: nat where "LOG_BUF_SIZE = 256"

definition vprint ::
  "'c console_state \<Rightarrow> ('c \<Rightarrow> char list \<Rightarrow> 'd \<Rightarrow> 'd) \<Rightarrow> cptr \<Rightarrow> va_arg list \<Rightarrow> char list \<times> 'd \<Rightarrow> (char list \<times> 'd) res"
where
  "vprint reg con_write msg vlist s = (case s of (log_buf, dev) \<Rightarrow>
     if msg = Null then Inr s
     else bind_res (extract_msg_level msg LOG_LEVEL_DEFAULT) (\<lambda>(prefix, level).
          bind_res (vscnprintf log_buf LOG_BUF_SIZE (ptr_add msg prefix) vlist) (\<lambda>(log_buf', chars).
            if chars < 0 then Inr (log_buf', dev)
            else case console_write reg con_write (take (nat chars) log_buf') dev of
                   None \<Rightarrow> Inl Hang
                 | Some dev' \<Rightarrow> Inr (log_buf', dev'))))"

definition print ::
  "'c console_state \<Rightarrow> ('c \<Rightarrow> char list \<Rightarrow> 'd \<Rightarrow> 'd) \<Rightarrow> char list \<Rightarrow> va_arg list \<Rightarrow> char list \<times> 'd \<Rightarrow> (char list \<times> 'd) res"
where
  "print reg con_write msg vlist = vprint reg con_write (Ptr (msg @ [NUL])) vlist"

text \<open>The macros that print at a level.\<close>

definition pr_emerg ::
  "'c console_state \<Rightarrow> ('c \<Rightarrow> char list \<Rightarrow> 'd \<Rightarrow> 'd) \<Rightarrow> char list \<Rightarrow> va_arg list \<Rightarrow> char list \<times> 'd \<Rightarrow> (char list \<times> 'd) res"
where "pr_emerg reg con_write msg = print reg con_write (LOG_EMERG @ msg)"

definition pr_alert ::
  "'c console_state \<Rightarrow> ('c \<Rightarrow> char list \<Rightarrow> 'd \<Rightarrow> 'd) \<Rightarrow> char list \<Rightarrow> va_arg list \<Rightarrow> char list \<times> 'd \<Rightarrow> (char list \<times> 'd) res"
where "pr_alert reg con_write msg = print reg con_write (LOG_ALERT @ msg)"

definition pr_crit ::
  "'c console_state \<Rightarrow> ('c \<Rightarrow> char list \<Rightarrow> 'd \<Rightarrow> 'd) \<Rightarrow> char list \<Rightarrow> va_arg list \<Rightarrow> char list \<times> 'd \<Rightarrow> (char list \<times> 'd) res"
where "pr_crit reg con_write msg = print reg con_write (LOG_CRIT @ msg)"

definition pr_err ::
  "'c console_state \<Rightarrow> ('c \<Rightarrow> char list \<Rightarrow> 'd \<Rightarrow> 'd) \<Rightarrow> char list \<Rightarrow> va_arg list \<Rightarrow> char list \<times> 'd \<Rightarrow> (char list \<times> 'd) res"
where "pr_err reg con_write msg = print reg con_write (LOG_ERR @ msg)"

definition pr_warn ::
  "'c console_state \<Rightarrow> ('c \<Rightarrow> char list \<Rightarrow> 'd \<Rightarrow> 'd) \<Rightarrow> char list \<Rightarrow> va_arg list \<Rightarrow> char list \<times> 'd \<Rightarrow> (char list \<times> 'd) res"
where "pr_warn reg con_write msg = print reg con_write (LOG_WARN @ msg)"

definition pr_notice ::
  "'c console_state \<Rightarrow> ('c \<Rightarrow> char list \<Rightarrow> 'd \<Rightarrow> 'd) \<Rightarrow> char list \<Rightarrow> va_arg list \<Rightarrow> char list \<times> 'd \<Rightarrow> (char list \<times> 'd) res"
where "pr_notice reg con_write msg = print reg con_write (LOG_NOTICE @ msg)"

definition pr_info ::
  "'c console_state \<Rightarrow> ('c \<Rightarrow> char list \<Rightarrow> 'd \<Rightarrow> 'd) \<Rightarrow> char list \<Rightarrow> va_arg list \<Rightarrow> char list \<times> 'd \<Rightarrow> (char list \<times> 'd) res"
where "pr_info reg con_write msg = print reg con_write (LOG_INFO @ msg)"

definition pr_debug ::
  "'c console_state \<Rightarrow> ('c \<Rightarrow> char list \<Rightarrow> 'd \<Rightarrow> 'd) \<Rightarrow> char list \<Rightarrow> va_arg list \<Rightarrow> char list \<times> 'd \<Rightarrow> (char list \<times> 'd) res"
where "pr_debug reg con_write msg = print reg con_write (LOG_DEBUG @ msg)"

section \<open>Stack traces\<close>

definition do_dump_frame ::
  "bool \<Rightarrow> symbol_tables \<Rightarrow> 8 word list \<Rightarrow> 'c console_state \<Rightarrow> ('c \<Rightarrow> char list \<Rightarrow> 'd \<Rightarrow> 'd) \<Rightarrow>
   (64 word \<times> char list \<times> 'd) res \<Rightarrow> 64 word \<Rightarrow> bool \<Rightarrow> bool \<times> (64 word \<times> char list \<times> 'd) res"
where
  "do_dump_frame late t sym_buf reg con_write state addr addr_after_call = (True,
     bind_res state (\<lambda>(depth, s).
       let lookup_addr = (if addr_after_call then addr - 1 else addr)
       in bind_res (symbol_lookup_by_address late t lookup_addr sym_buf) (\<lambda>found.
          bind_res (case found of
              Inl _ \<Rightarrow> print reg con_write (''    #%zu in unknown/garbage <0x%016zX>'' @ [CHR 0x0A]) [Va_long depth, Va_long addr] s
            | Inr (offset, name) \<Rightarrow>
                print reg con_write (''    #%zu in %s+%zu'' @ [CHR 0x0A])
                  [Va_long depth, Va_chars (Ptr (map (char_of \<circ> unat) name)), Va_long offset] s)
            (\<lambda>s'. Inr (depth + 1, s')))))"

text \<open>\<open>sym_buf\<close> is what the uninitialised name buffer holds, \<open>st\<close> the uninitialised state of the unwinder.\<close>

definition dump_stack ::
  "nat \<Rightarrow> eh_image \<Rightarrow> unwinder \<Rightarrow> registers \<Rightarrow> unwind_state \<Rightarrow> bool \<Rightarrow> symbol_tables \<Rightarrow> 8 word list \<Rightarrow>
   'c console_state \<Rightarrow> ('c \<Rightarrow> char list \<Rightarrow> 'd \<Rightarrow> 'd) \<Rightarrow> registers option \<Rightarrow> 64 word \<Rightarrow> char list \<times> 'd \<Rightarrow> (char list \<times> 'd) res"
where
  "dump_stack fuel im u cpu st late t sym_buf reg con_write regs return_address s =
     bind_res (print reg con_write (''Call trace (most recent call first):'' @ [CHR 0x0A]) [] s) (\<lambda>s'.
     bind_res (unwind_walk fuel im u cpu st regs return_address (do_dump_frame late t sym_buf reg con_write) (Inr (0, s'))) (\<lambda>(ret, state).
     bind_res state (\<lambda>(depth, s''). Inr s'')))"

text \<open>\<^verbatim>\<open>panic\<close> of \<^verbatim>\<open>kernel/panic.c\<close>: what it has done when it stops in its endless loop. A panic while
  another one is under way does nothing.\<close>

definition panic ::
  "nat \<Rightarrow> eh_image \<Rightarrow> unwinder \<Rightarrow> registers \<Rightarrow> unwind_state \<Rightarrow> bool \<Rightarrow> symbol_tables \<Rightarrow> 8 word list \<Rightarrow>
   'c console_state \<Rightarrow> ('c \<Rightarrow> char list \<Rightarrow> 'd \<Rightarrow> 'd) \<Rightarrow> 64 word \<Rightarrow> char list \<Rightarrow> char list \<Rightarrow> va_arg list \<Rightarrow>
   bool \<times> char list \<times> 'd \<Rightarrow> (bool \<times> char list \<times> 'd) res"
where
  "panic fuel im u cpu st late t sym_buf reg con_write return_address panic_buf reason vlist s =
     (case s of (g_in_panic, log) \<Rightarrow> case atomic_xchg g_in_panic True MO_ACQ_REL of (g_in_panic', was_in_panic) \<Rightarrow>
        if was_in_panic then Inr (g_in_panic', log)
        else bind_res (vsnprintf panic_buf 256 (Ptr (reason @ [NUL])) vlist) (\<lambda>(panic_buf', _).
             bind_res (pr_emerg reg con_write ''Kernel panic: %s'' [Va_chars (Ptr panic_buf')] log)
               (\<lambda>log'. bind_res (dump_stack fuel im u cpu st late t sym_buf reg con_write None return_address log')
                 (\<lambda>log''. Inr (g_in_panic', log'')))))"

section \<open>What is written\<close>

lemma vscnprintf_printed:
  assumes "vsnprintf buf cap (Ptr f) args = Inr (printed buf cap out None)" "0 < cap" "cap < 2 ^ 31" "length out < 2 ^ 31"
  shows "vscnprintf buf cap (Ptr f) args =
    Inr (take (cap - 1) out @ [NUL] @ drop (Suc (min (cap - 1) (length out))) buf, int (min (length out) (cap - 1)))"
proof -
  have "sint (of_nat (length out) :: 32 word) = int (length out)"
    using assms(4) by (simp add: signed_of_nat signed_take_bit_int_eq_self)
  with assms show ?thesis
    by (simp add: vscnprintf_def printed_def)
qed

lemma vprint_eq:
  assumes out: "vsnprintf log_buf LOG_BUF_SIZE (Ptr f) args = Inr (printed log_buf LOG_BUF_SIZE out None)" "length out < 2 ^ 31"
    and prefix: "extract_msg_level (Ptr m) LOG_LEVEL_DEFAULT = Inr (k, level)" "drop k m = f"
    and consoles_of: "registry reg ys"
  shows "\<exists>log_buf'. vprint reg con_write (Ptr m) args (log_buf, dev) =
    Inr (log_buf', fold (\<lambda>c. con_write c (take (LOG_BUF_SIZE - 1) out)) ys dev)"
proof -
  have "min (length out) (LOG_BUF_SIZE - 1) = length (take (LOG_BUF_SIZE - 1) out)"
    by simp
  then have written: "take (min (length out) (LOG_BUF_SIZE - 1)) (take (LOG_BUF_SIZE - 1) out @ rest) = take (LOG_BUF_SIZE - 1) out" for rest
    by (metis append_eq_conv_conj)
  have "console_write reg con_write str dev = Some (fold (\<lambda>c. con_write c str) ys dev)" for str
    using consoles_of by (simp add: registry_def console_write_def write_from_eq)
  then show ?thesis
    using vscnprintf_printed [OF out(1) _ _ out(2)] prefix written
    by (simp add: vprint_def LOG_BUF_SIZE_def)
qed

text \<open>Each prefix is two characters and gives its level.\<close>

lemma extract_prefix:
  assumes "level < LOG_LEVEL_COUNT"
  shows "\<exists>d. LOG_LEVEL_PREFIX @ decimal level = [LOG_LEVEL_PREFIX_CHAR, d] \<and> d \<noteq> NUL \<and>
    extract_msg_level (Ptr (LOG_LEVEL_PREFIX @ decimal level @ rest)) l0 = Inr (2, level)"
proof -
  have "\<forall>n \<in> set [0..<8]. \<exists>d \<in> set ''01234567''. decimal n = [d] \<and> d \<noteq> NUL \<and> unat ((of_char d :: 8 word) - of_char (CHR ''0'')) = n"
    by code_simp
  moreover have "level \<in> set [0..<8]"
    using assms by (simp add: log_levels)
  ultimately obtain d where "decimal level = [d]" "d \<noteq> NUL" "unat ((of_char d :: 8 word) - of_char (CHR ''0'')) = level"
    by blast
  with assms show ?thesis
    by (simp add: extract_msg_level_def LOG_LEVEL_PREFIX_def Let_def)
qed

lemma print_levelled:
  assumes "vsnprintf log_buf LOG_BUF_SIZE (Ptr (f @ [NUL])) args = Inr (printed log_buf LOG_BUF_SIZE out None)"
    and "length out < 2 ^ 31" "registry reg ys" "level < LOG_LEVEL_COUNT"
  shows "\<exists>log_buf'. print reg con_write (LOG_LEVEL_PREFIX @ decimal level @ f) args (log_buf, dev) =
    Inr (log_buf', fold (\<lambda>c. con_write c (take (LOG_BUF_SIZE - 1) out)) ys dev)"
proof -
  obtain d where d: "LOG_LEVEL_PREFIX @ decimal level = [LOG_LEVEL_PREFIX_CHAR, d]"
      "extract_msg_level (Ptr (LOG_LEVEL_PREFIX @ decimal level @ f @ [NUL])) LOG_LEVEL_DEFAULT = Inr (2, level)"
    using extract_prefix [OF assms(4)] by blast
  have "LOG_LEVEL_PREFIX @ decimal level @ f @ [NUL] = [LOG_LEVEL_PREFIX_CHAR, d] @ f @ [NUL]"
    using d(1) by simp
  then have "drop 2 (LOG_LEVEL_PREFIX @ decimal level @ f @ [NUL]) = f @ [NUL]"
    by (simp only:) simp
  from vprint_eq [OF assms(1,2) d(2) this assms(3)] show ?thesis
    by (simp add: print_def)
qed

text \<open>
  C29: A message with a level prints the text of its format, without the two characters of the level
  and cut to 255 characters, once to every registered console, newest first.
\<close>

theorem print_reaches_every_console:
  assumes "vsnprintf log_buf LOG_BUF_SIZE (Ptr (f @ [NUL])) args = Inr (printed log_buf LOG_BUF_SIZE out None)"
    and "length out < 2 ^ 31" "registry reg ys" "level < LOG_LEVEL_COUNT"
  shows "\<exists>log_buf'. print reg con_write (LOG_LEVEL_PREFIX @ decimal level @ f) args (log_buf, dev) =
    Inr (log_buf', fold (\<lambda>c. con_write c (take (LOG_BUF_SIZE - 1) out)) ys dev)"
  using assms by (rule print_levelled)

theorem print_reaches_every_console_witness:
  "\<exists>log_buf'. print \<lparr>consoles = Some (1 :: nat), con_next = (\<lambda>c. if c = 1 then Some 0 else None)\<rparr>
      (\<lambda>c text log. log @ [(c, text)]) (LOG_LEVEL_PREFIX @ decimal LOG_LEVEL_INFO @ ''n=%d'') [Va_int 5] (replicate 256 NUL, []) =
    Inr (log_buf', [(1, ''n=5''), (0, ''n=5'')])"
proof -
  let ?reg = "\<lparr>consoles = Some (1 :: nat), con_next = (\<lambda>c. if c = 1 then Some 0 else None)\<rparr>"
  have "vsnprintf (replicate 256 NUL) 256 (Ptr (''n=%d'' @ [NUL])) [Va_int 5] = Inr (''n=5'' @ [NUL] @ replicate 252 NUL, 3)"
    by code_simp
  then have "vsnprintf (replicate 256 NUL) LOG_BUF_SIZE (Ptr (''n=%d'' @ [NUL])) [Va_int 5] =
      Inr (printed (replicate 256 NUL) LOG_BUF_SIZE ''n=5'' None)"
    by (simp add: printed_def LOG_BUF_SIZE_def)
  moreover have "registry ?reg [1, 0]"
    by (simp add: registry_def)
  ultimately show ?thesis
    using print_reaches_every_console [of "replicate 256 NUL" "''n=%d''" "[Va_int 5]" "''n=5''" ?reg "[1, 0]" LOG_LEVEL_INFO
        "\<lambda>c text log. log @ [(c, text)]" "[]"]
    by (simp add: LOG_BUF_SIZE_def log_levels)
qed

end
