(* ===== verification/IoWindow.thy ===== *)
theory IoWindow
  imports Memory
begin

text \<open>
  I/O windows, \<^verbatim>\<open>kernel/io.c\<close> with the x86 functions of \<^verbatim>\<open>arch/x86/io.c\<close>: one interface to device
  registers in port space and in memory. A window is a plain address (\<open>Plain\<close>, ports are kept below
  \<^verbatim>\<open>ULTRA_ARCH_PORT_IO_WINDOW_END\<close>) or, in a kernel built with \<^verbatim>\<open>ULTRA_HARDENED_IO\<close>, an object with a
  type and a length (\<open>Checked\<close>); \<open>hardened\<close> is that choice of the build.

  What the \<^verbatim>\<open>in\<close> and \<^verbatim>\<open>out\<close> instructions do is up to the devices: \<open>dev_in\<close> and \<open>dev_out\<close> act on their
  state for a port and a width in bytes. \<open>alloc_ok\<close> tells whether \<^verbatim>\<open>alloc\<close> gives an object; the
  \<^verbatim>\<open>alloc\<close> of \<^verbatim>\<open>memory/alloc.c\<close> is still a stub that never does (\<open>hardened_windows_not_allocated\<close>).
\<close>

section \<open>Widths and constants\<close>

definition ULTRA_ARCH_PORT_IO_WINDOW_OFFSET :: "64 word" where "ULTRA_ARCH_PORT_IO_WINDOW_OFFSET = 0x10000"
definition ULTRA_ARCH_PORT_IO_WINDOW_LEN :: "64 word" where "ULTRA_ARCH_PORT_IO_WINDOW_LEN = 0xFFFF"
definition ULTRA_ARCH_PORT_IO_WINDOW_END :: "64 word" where
  "ULTRA_ARCH_PORT_IO_WINDOW_END = ULTRA_ARCH_PORT_IO_WINDOW_OFFSET + ULTRA_ARCH_PORT_IO_WINDOW_LEN + 1"

lemmas window_defs = ULTRA_ARCH_PORT_IO_WINDOW_OFFSET_def ULTRA_ARCH_PORT_IO_WINDOW_LEN_def
  ULTRA_ARCH_PORT_IO_WINDOW_END_def

definition decode_error_pio_addr :: "32 word \<Rightarrow> 32 word" where
  "decode_error_pio_addr ret = ret - (ucast ULTRA_ARCH_PORT_IO_WINDOW_LEN + 1)"

definition error_pio_addr :: "32 word \<Rightarrow> bool" where
  "error_pio_addr ret \<longleftrightarrow> ret > ucast ULTRA_ARCH_PORT_IO_WINDOW_LEN"

text \<open>\<^verbatim>\<open>WIDTH_SWITCH\<close>: the action for a width, \<^verbatim>\<open>BUG()\<close> for any other. Port I/O leaves the action for 8
  out, so that the case falls through to the \<^verbatim>\<open>BUG()\<close> of the default.\<close>

definition WIDTH_SWITCH :: "8 word \<Rightarrow> bool \<Rightarrow> 'a res \<Rightarrow> 'a res" where
  "WIDTH_SWITCH width has_8 action =
     (if width \<in> {1, 2, 4} \<or> width = 8 \<and> has_8 then action else Inl Bug)"

text \<open>Storing the low bytes of a value, lowest first.\<close>

fun store_le :: "memory \<Rightarrow> 64 word \<Rightarrow> nat \<Rightarrow> 64 word \<Rightarrow> memory res" where
  "store_le m a 0 v = Inr m"
| "store_le m a (Suc n) v = bind_res (store8 m a (ucast v)) (\<lambda>m'. store_le m' (a + 1) n (drop_bit 8 v))"

section \<open>The x86 functions\<close>

definition arch_map_memory_io :: "64 word \<Rightarrow> 64 word \<Rightarrow> errno + 64 word" where
  "arch_map_memory_io phys_base len = Inl ENOTSUP"

definition arch_map_port_io :: "64 word \<Rightarrow> 64 word \<Rightarrow> 32 word" where
  "arch_map_port_io phys_base len = ucast phys_base"

fun port_read_loop ::
  "(16 word \<Rightarrow> nat \<Rightarrow> 'd \<Rightarrow> 64 word \<times> 'd) \<Rightarrow> 16 word \<Rightarrow> 8 word \<Rightarrow> nat \<Rightarrow> 64 word \<Rightarrow> memory \<times> 'd \<Rightarrow> (memory \<times> 'd) res"
where
  "port_read_loop dev_in port width 0 out s = Inr s"
| "port_read_loop dev_in port width (Suc count) out (m, dev) =
     bind_res
       (WIDTH_SWITCH width False
         (case dev_in port (unat width) dev of (v, dev') \<Rightarrow>
            bind_res (store_le m out (unat width) v) (\<lambda>m'. Inr (m', dev'))))
       (\<lambda>s'. port_read_loop dev_in port width count (out + ucast width) s')"

definition arch_port_io_read ::
  "(16 word \<Rightarrow> nat \<Rightarrow> 'd \<Rightarrow> 64 word \<times> 'd) \<Rightarrow> 32 word \<Rightarrow> 8 word \<Rightarrow> 64 word \<Rightarrow> nat \<Rightarrow> memory \<times> 'd \<Rightarrow> (memory \<times> 'd) res"
where
  "arch_port_io_read dev_in addr width out count s = port_read_loop dev_in (ucast addr) width count out s"

fun port_write_loop ::
  "(16 word \<Rightarrow> nat \<Rightarrow> 64 word \<Rightarrow> 'd \<Rightarrow> 'd) \<Rightarrow> 16 word \<Rightarrow> 8 word \<Rightarrow> nat \<Rightarrow> 64 word \<Rightarrow> memory \<times> 'd \<Rightarrow> (memory \<times> 'd) res"
where
  "port_write_loop dev_out port width 0 src s = Inr s"
| "port_write_loop dev_out port width (Suc count) src (m, dev) =
     bind_res
       (WIDTH_SWITCH width False
         (bind_res (load_le m src (unat width)) (\<lambda>v. Inr (m, dev_out port (unat width) v dev))))
       (\<lambda>s'. port_write_loop dev_out port width count (src + ucast width) s')"

definition arch_port_io_write ::
  "(16 word \<Rightarrow> nat \<Rightarrow> 64 word \<Rightarrow> 'd \<Rightarrow> 'd) \<Rightarrow> 32 word \<Rightarrow> 8 word \<Rightarrow> 64 word \<Rightarrow> nat \<Rightarrow> memory \<times> 'd \<Rightarrow> (memory \<times> 'd) res"
where
  "arch_port_io_write dev_out addr width src count s = port_write_loop dev_out (ucast addr) width count src s"

section \<open>The generic functions\<close>

text \<open>Device registers in memory are cells of memory.\<close>

fun arch_memory_io_write :: "64 word \<Rightarrow> 8 word \<Rightarrow> 64 word \<Rightarrow> nat \<Rightarrow> memory \<Rightarrow> memory res" where
  "arch_memory_io_write ptr width src 0 m = Inr m"
| "arch_memory_io_write ptr width src (Suc count) m =
     bind_res
       (WIDTH_SWITCH width True (bind_res (load_le m src (unat width)) (\<lambda>v. store_le m ptr (unat width) v)))
       (\<lambda>m'. arch_memory_io_write ptr width (src + ucast width) count m')"

fun arch_memory_io_read :: "64 word \<Rightarrow> 8 word \<Rightarrow> 64 word \<Rightarrow> nat \<Rightarrow> memory \<Rightarrow> memory res" where
  "arch_memory_io_read ptr width out 0 m = Inr m"
| "arch_memory_io_read ptr width out (Suc count) m =
     bind_res
       (WIDTH_SWITCH width True (bind_res (load_le m ptr (unat width)) (\<lambda>v. store_le m out (unat width) v)))
       (\<lambda>m'. arch_memory_io_read ptr width (out + ucast width) count m')"

datatype alloc_behavior = ALLOC_GENERIC | ALLOC_ZEROED

definition alloc :: "nat \<Rightarrow> alloc_behavior \<Rightarrow> 64 word" where
  "alloc len behavior = 0"

datatype io_type = IO_TYPE_INVALID | IO_TYPE_PORT_IO | IO_TYPE_MEM_IO

record io_window_impl =
  iow_type :: io_type
  iow_address :: "64 word"
  iow_length :: "64 word"

datatype io_window = Plain "64 word" | Checked io_window_impl

text \<open>A function that returns a pointer or an encoded error: a plain address is an error when it is at
  most \<^verbatim>\<open>MAX_ERRNO\<close>.\<close>

fun error_ptr :: "io_window \<Rightarrow> bool" where
  "error_ptr (Plain a) \<longleftrightarrow> a \<le> of_nat MAX_ERRNO"
| "error_ptr (Checked w) \<longleftrightarrow> False"

definition encode_error_ptr :: "64 word \<Rightarrow> io_window" where
  "encode_error_ptr value = Plain value"

definition io_window_map :: "bool \<Rightarrow> bool \<Rightarrow> 64 word \<Rightarrow> 64 word \<Rightarrow> io_window res" where
  "io_window_map hardened alloc_ok phys_base len =
     (case arch_map_memory_io phys_base len of
        Inl e \<Rightarrow> Inr (encode_error_ptr (of_nat (errno_code e)))
      | Inr mapping \<Rightarrow>
          if hardened
          then if alloc_ok
               then Inr (Checked \<lparr>iow_type = IO_TYPE_MEM_IO, iow_address = mapping, iow_length = len\<rparr>)
               else Inl Wild
          else Inr (Plain mapping))"

definition io_window_map_pio :: "bool \<Rightarrow> bool \<Rightarrow> 64 word \<Rightarrow> 64 word \<Rightarrow> io_window" where
  "io_window_map_pio hardened alloc_ok phys_base len =
     (if phys_base + ULTRA_ARCH_PORT_IO_WINDOW_OFFSET \<ge> ULTRA_ARCH_PORT_IO_WINDOW_END
      then encode_error_ptr (of_nat (errno_code EINVAL))
      else let ret = arch_map_port_io phys_base len
           in if error_pio_addr ret then encode_error_ptr (ucast (decode_error_pio_addr ret))
              else let ret' = ret + ucast ULTRA_ARCH_PORT_IO_WINDOW_OFFSET
                   in if hardened
                      then if \<not> alloc_ok then encode_error_ptr (of_nat (errno_code ENOMEM))
                           else Checked \<lparr>iow_type = IO_TYPE_PORT_IO, iow_address = ucast ret', iow_length = len\<rparr>
                      else Plain (ucast ret'))"

lemma hardened_windows_not_allocated: "error_ptr (io_window_map_pio True (alloc len behavior \<noteq> 0) 0xE9 1)"
  by (simp add: io_window_map_pio_def alloc_def encode_error_ptr_def MAX_ERRNO_def Let_def
      error_pio_addr_def arch_map_port_io_def decode_error_pio_addr_def window_defs)

text \<open>A hardened window is marked invalid before it is freed.\<close>

fun io_window_unmap :: "io_window \<Rightarrow> io_window" where
  "io_window_unmap (Plain a) = Plain a"
| "io_window_unmap (Checked w) = Checked (w\<lparr>iow_type := IO_TYPE_INVALID\<rparr>)"

fun io_window_get_type :: "io_window \<Rightarrow> io_type" where
  "io_window_get_type (Plain raw_iow) =
     (if raw_iow < ULTRA_ARCH_PORT_IO_WINDOW_END
      then if raw_iow < ULTRA_ARCH_PORT_IO_WINDOW_OFFSET then IO_TYPE_INVALID else IO_TYPE_PORT_IO
      else IO_TYPE_MEM_IO)"
| "io_window_get_type (Checked w) = iow_type w"

fun io_window_get_address :: "io_window \<Rightarrow> 64 word" where
  "io_window_get_address (Plain a) = a"
| "io_window_get_address (Checked w) = iow_address w"

fun io_window_check_bounds :: "io_window \<Rightarrow> 64 word \<Rightarrow> unit res" where
  "io_window_check_bounds (Plain a) offset = Inr ()"
| "io_window_check_bounds (Checked w) offset = BUG_ON (offset \<ge> iow_length w) (Inr ())"

definition port_io_window_get_port :: "io_window \<Rightarrow> 64 word \<Rightarrow> 32 word res" where
  "port_io_window_get_port iow offset =
     (let port = io_window_get_address iow
      in BUG_ON (port < ULTRA_ARCH_PORT_IO_WINDOW_OFFSET) (
         BUG_ON (port \<ge> ULTRA_ARCH_PORT_IO_WINDOW_END) (
         bind_res (io_window_check_bounds iow offset) (\<lambda>_.
           Inr (ucast (port - ULTRA_ARCH_PORT_IO_WINDOW_OFFSET + offset))))))"

definition mem_io_window_get_ptr :: "io_window \<Rightarrow> 64 word \<Rightarrow> 64 word res" where
  "mem_io_window_get_ptr iow offset =
     bind_res (io_window_check_bounds iow offset) (\<lambda>_. Inr (io_window_get_address iow + offset))"

definition do_write_many ::
  "(16 word \<Rightarrow> nat \<Rightarrow> 64 word \<Rightarrow> 'd \<Rightarrow> 'd) \<Rightarrow> io_window \<Rightarrow> 64 word \<Rightarrow> 8 word \<Rightarrow> 64 word \<Rightarrow> nat \<Rightarrow> memory \<times> 'd \<Rightarrow> (memory \<times> 'd) res"
where
  "do_write_many dev_out iow offset width src count s =
     (case io_window_get_type iow of
        IO_TYPE_PORT_IO \<Rightarrow>
          bind_res (port_io_window_get_port iow offset) (\<lambda>addr. arch_port_io_write dev_out addr width src count s)
      | IO_TYPE_MEM_IO \<Rightarrow>
          bind_res (mem_io_window_get_ptr iow offset) (\<lambda>addr.
          bind_res (arch_memory_io_write addr width src count (fst s)) (\<lambda>m. Inr (m, snd s)))
      | IO_TYPE_INVALID \<Rightarrow> Inl Bug)"

definition do_read_many ::
  "(16 word \<Rightarrow> nat \<Rightarrow> 'd \<Rightarrow> 64 word \<times> 'd) \<Rightarrow> io_window \<Rightarrow> 64 word \<Rightarrow> 8 word \<Rightarrow> 64 word \<Rightarrow> nat \<Rightarrow> memory \<times> 'd \<Rightarrow> (memory \<times> 'd) res"
where
  "do_read_many dev_in iow offset width out count s =
     (case io_window_get_type iow of
        IO_TYPE_PORT_IO \<Rightarrow>
          bind_res (port_io_window_get_port iow offset) (\<lambda>addr. arch_port_io_read dev_in addr width out count s)
      | IO_TYPE_MEM_IO \<Rightarrow>
          bind_res (mem_io_window_get_ptr iow offset) (\<lambda>addr.
          bind_res (arch_memory_io_read addr width out count (fst s)) (\<lambda>m. Inr (m, snd s)))
      | IO_TYPE_INVALID \<Rightarrow> Inl Bug)"

text \<open>The functions of \<^verbatim>\<open>MAKE_IO_FN\<close>, for a width in bits. \<open>local\<close> is the address of the variable
  \<^verbatim>\<open>out\<close> or of the parameter \<^verbatim>\<open>value\<close>.\<close>

definition ioread_at ::
  "nat \<Rightarrow> (16 word \<Rightarrow> nat \<Rightarrow> 'd \<Rightarrow> 64 word \<times> 'd) \<Rightarrow> io_window \<Rightarrow> 64 word \<Rightarrow> 64 word \<Rightarrow> memory \<times> 'd \<Rightarrow> (64 word \<times> memory \<times> 'd) res"
where
  "ioread_at width dev_in iow offset local s =
     bind_res (do_read_many dev_in iow offset (of_nat (width div 8)) local 1 s) (\<lambda>(m', dev').
     bind_res (load_le m' local (width div 8)) (\<lambda>v. Inr (v, m', dev')))"

definition ioread_many ::
  "nat \<Rightarrow> (16 word \<Rightarrow> nat \<Rightarrow> 'd \<Rightarrow> 64 word \<times> 'd) \<Rightarrow> io_window \<Rightarrow> 64 word \<Rightarrow> 64 word \<Rightarrow> nat \<Rightarrow> memory \<times> 'd \<Rightarrow> (memory \<times> 'd) res"
where
  "ioread_many width dev_in iow offset buf count s = do_read_many dev_in iow offset (of_nat (width div 8)) buf count s"

definition iowrite_at ::
  "nat \<Rightarrow> (16 word \<Rightarrow> nat \<Rightarrow> 64 word \<Rightarrow> 'd \<Rightarrow> 'd) \<Rightarrow> io_window \<Rightarrow> 64 word \<Rightarrow> 64 word \<Rightarrow> 64 word \<Rightarrow> memory \<times> 'd \<Rightarrow> (memory \<times> 'd) res"
where
  "iowrite_at width dev_out iow offset local value s =
     bind_res (store_le (fst s) local (width div 8) value) (\<lambda>m'.
       do_write_many dev_out iow offset (of_nat (width div 8)) local 1 (m', snd s))"

definition iowrite_many ::
  "nat \<Rightarrow> (16 word \<Rightarrow> nat \<Rightarrow> 64 word \<Rightarrow> 'd \<Rightarrow> 'd) \<Rightarrow> io_window \<Rightarrow> 64 word \<Rightarrow> 64 word \<Rightarrow> nat \<Rightarrow> memory \<times> 'd \<Rightarrow> (memory \<times> 'd) res"
where
  "iowrite_many width dev_out iow offset buf count s = do_write_many dev_out iow offset (of_nat (width div 8)) buf count s"

definition ioread ::
  "nat \<Rightarrow> (16 word \<Rightarrow> nat \<Rightarrow> 'd \<Rightarrow> 64 word \<times> 'd) \<Rightarrow> io_window \<Rightarrow> 64 word \<Rightarrow> memory \<times> 'd \<Rightarrow> (64 word \<times> memory \<times> 'd) res"
where
  "ioread width dev_in iow local s = ioread_at width dev_in iow 0 local s"

definition iowrite ::
  "nat \<Rightarrow> (16 word \<Rightarrow> nat \<Rightarrow> 64 word \<Rightarrow> 'd \<Rightarrow> 'd) \<Rightarrow> io_window \<Rightarrow> 64 word \<Rightarrow> 64 word \<Rightarrow> memory \<times> 'd \<Rightarrow> (memory \<times> 'd) res"
where
  "iowrite width dev_out iow local value s = iowrite_at width dev_out iow 0 local value s"

section \<open>Storing and loading\<close>

lemma store_le_mapped:
  assumes "mapped m a n" "n \<le> 8"
  shows "\<exists>m'. store_le m a n v = Inr m' \<and> holds_bytes m' a (le_bytes n (unat v)) \<and> dom m' = dom m \<and>
    (\<forall>x. x \<notin> region a n \<longrightarrow> m' x = m x)"
  using assms
proof (induction n arbitrary: m a v)
  case (Suc n)
  have a: "a \<in> dom m" "mapped m (a + 1) n"
    using Suc.prems by (simp_all add: mapped_Suc)
  let ?m = "m(a \<mapsto> ucast v)"
  from a(2) have "mapped ?m (a + 1) n"
    using a(1) by simp
  moreover have "n \<le> 8" using Suc.prems(2) by simp
  ultimately obtain m' where
    m': "store_le ?m (a + 1) n (drop_bit 8 v) = Inr m'" "holds_bytes m' (a + 1) (le_bytes n (unat (drop_bit 8 v)))"
    "dom m' = dom ?m" "\<forall>x. x \<notin> region (a + 1) n \<longrightarrow> m' x = ?m x"
    using Suc.IH [of ?m "a + 1" "drop_bit 8 v"] by blast
  have "m' a = Some (ucast v)"
    using m'(4) start_not_in_rest [of n a] Suc.prems(2) by simp
  moreover have "(ucast v :: 8 word) = of_nat (unat v mod 256)"
    by (simp add: word_unat_eq_iff unsigned_ucast_eq unsigned_of_nat take_bit_eq_mod)
  moreover have "unat (drop_bit 8 v) = unat v div 256"
    by (simp add: unsigned_drop_bit_eq drop_bit_eq_div unat_div)
  moreover have "store8 m a (ucast v) = Inr ?m"
    using a(1) by (auto simp: store8_def)
  ultimately show ?case
    using m' a(1) Suc.prems(2) by (auto simp: region_Suc)
qed simp

lemma load_le_value:
  assumes "holds_bytes m a (le_bytes n v)" "v < 256 ^ n"
  shows "load_le m a n = Inr (of_nat v)"
  using load_le_holds [OF assms(1), of n] assms(2) by simp

text \<open>An array of values of \<open>n\<close> bytes.\<close>

fun holds_values :: "memory \<Rightarrow> 64 word \<Rightarrow> nat \<Rightarrow> 64 word list \<Rightarrow> bool" where
  "holds_values m a n [] \<longleftrightarrow> True"
| "holds_values m a n (v # vs) \<longleftrightarrow> unat v < 256 ^ n \<and> holds_bytes m a (le_bytes n (unat v)) \<and> holds_values m (a + of_nat n) n vs"

lemma port_write_loop_eq:
  assumes "holds_values m src n vs" "n \<in> {1, 2, 4}"
  shows "port_write_loop dev_out port (of_nat n) (length vs) src (m, dev) = Inr (m, fold (dev_out port n) vs dev)"
  using assms(1)
proof (induction vs arbitrary: src dev)
  case (Cons v vs)
  have n: "unat (of_nat n :: 8 word) = n" "(ucast (of_nat n :: 8 word) :: 64 word) = of_nat n" "(of_nat n :: 8 word) \<in> {1, 2, 4}"
    using assms(2) by auto
  have "load_le m src n = Inr v"
    using load_le_value [of m src n "unat v"] Cons.prems by simp
  with Cons n show ?case
    by (simp add: WIDTH_SWITCH_def)
qed simp

section \<open>Windows on ports\<close>

lemma window_port:
  assumes "p + off < 2 ^ 16" "w = io_window_map_pio hardened True (of_nat p) len" "of_nat off < len"
  shows "\<not> error_ptr w" "io_window_get_type w = IO_TYPE_PORT_IO"
    "port_io_window_get_port w (of_nat off) = Inr (of_nat (p + off))"
proof -
  have p: "p < 2 ^ 16" using assms(1) by simp
  have phys: "(of_nat p :: 64 word) + 0x10000 = of_nat (p + 0x10000)"
    by simp
  have "unat (of_nat (p + 0x10000) :: 64 word) = p + 0x10000"
    using p by (simp add: unsigned_of_nat take_bit_nat_eq_self del: of_nat_add)
  then have in_range: "\<not> (of_nat p :: 64 word) + 0x10000 \<ge> 0x20000" "(of_nat p :: 64 word) + 0x10000 \<ge> 0x10000"
    "(of_nat p :: 64 word) + 0x10000 > 4095"
    unfolding phys using p by (simp_all add: word_le_nat_alt word_less_nat_alt del: of_nat_add)
  have ret: "(ucast (of_nat p :: 64 word) :: 32 word) = of_nat p"
    using p by (simp add: word_unat_eq_iff unsigned_ucast_eq unsigned_of_nat take_bit_nat_eq_self)
  have "unat (of_nat p :: 32 word) = p"
    using p by (simp add: unsigned_of_nat take_bit_nat_eq_self)
  then have ok: "\<not> (of_nat p :: 32 word) > 0xFFFF"
    using p by (simp add: word_less_nat_alt)
  have phys32: "(of_nat p :: 32 word) + 0x10000 = of_nat (p + 0x10000)"
    by simp
  have wide: "(ucast ((of_nat p :: 32 word) + 0x10000) :: 64 word) = of_nat p + 0x10000"
    unfolding phys phys32 using p
    by (simp add: word_unat_eq_iff unsigned_ucast_eq unsigned_of_nat take_bit_nat_eq_self del: of_nat_add)
  have w: "w = (if hardened
      then Checked \<lparr>iow_type = IO_TYPE_PORT_IO, iow_address = of_nat p + 0x10000, iow_length = len\<rparr>
      else Plain (of_nat p + 0x10000))"
    using in_range(1) ok wide
    by (simp add: assms(2) io_window_map_pio_def window_defs arch_map_port_io_def ret error_pio_addr_def Let_def)
  show "\<not> error_ptr w" "io_window_get_type w = IO_TYPE_PORT_IO"
    using in_range by (simp_all add: w window_defs MAX_ERRNO_def not_le [symmetric])
  have "(ucast (of_nat (p + off) :: 64 word) :: 32 word) = of_nat (p + off)"
    using assms(1) by (simp add: word_unat_eq_iff unsigned_ucast_eq unsigned_of_nat take_bit_nat_eq_self del: of_nat_add)
  then show "port_io_window_get_port w (of_nat off) = Inr (of_nat (p + off))"
    using in_range assms(3)
    by (simp add: w port_io_window_get_port_def window_defs Let_def not_le [symmetric])
qed

lemma port_write_eq:
  assumes "p + off < 2 ^ 16" "of_nat off < len" "n \<in> {1, 2, 4}" "holds_values m src n vs"
  shows "iowrite_many (8 * n) dev_out (io_window_map_pio hardened True (of_nat p) len) (of_nat off) src (length vs) (m, dev) =
    Inr (m, fold (dev_out (of_nat (p + off)) n) vs dev)"
proof -
  have "(ucast (of_nat (p + off) :: 32 word) :: 16 word) = of_nat (p + off)"
    using assms(1) by (simp add: word_unat_eq_iff unsigned_ucast_eq unsigned_of_nat take_bit_nat_eq_self del: of_nat_add)
  then show ?thesis
    using window_port [OF assms(1) refl assms(2), of hardened] port_write_loop_eq [OF assms(4,3)]
    by (simp add: iowrite_many_def do_write_many_def arch_port_io_write_def del: of_nat_add)
qed

lemma port_read_eq:
  assumes "p + off < 2 ^ 16" "of_nat off < len" "n \<in> {1, 2, 4}" "mapped m local n"
    and "dev_in (of_nat (p + off)) n dev = (v, dev')"
  shows "\<exists>m'. ioread_at (8 * n) dev_in (io_window_map_pio hardened True (of_nat p) len) (of_nat off) local (m, dev) =
      Inr (of_nat (unat v mod 256 ^ n), m', dev') \<and> dom m' = dom m \<and>
      (\<forall>x. x \<notin> region local n \<longrightarrow> m' x = m x)"
proof -
  have n: "unat (of_nat n :: 8 word) = n" "(of_nat n :: 8 word) \<in> {1, 2, 4}" "n \<le> 8"
    using assms(3) by auto
  have port: "(ucast (of_nat (p + off) :: 32 word) :: 16 word) = of_nat (p + off)"
    using assms(1) by (simp add: word_unat_eq_iff unsigned_ucast_eq unsigned_of_nat take_bit_nat_eq_self del: of_nat_add)
  obtain m' where m': "store_le m local n v = Inr m'" "holds_bytes m' local (le_bytes n (unat v))"
    "dom m' = dom m" "\<forall>x. x \<notin> region local n \<longrightarrow> m' x = m x"
    using store_le_mapped [OF assms(4) n(3), of v] by blast
  have "load_le m' local n = Inr (of_nat (unat v mod 256 ^ n))"
    using load_le_holds [OF m'(2), of n] by simp
  then show ?thesis
    using window_port [OF assms(1) refl assms(2), of hardened] m' n port assms(5)
    by (simp add: ioread_at_def do_read_many_def arch_port_io_read_def WIDTH_SWITCH_def del: of_nat_add)
qed



text \<open>
  The guard of \<^verbatim>\<open>io_window_map_pio\<close> adds without a check for overflow: an address in the last 64 KiB
  passes, its error is not recognised, and the result is a memory window.
\<close>

lemma port_guard_wraps:
  "io_window_map_pio False True 0xFFFFFFFFFFFF0000 1 = Plain 0xFFFE0000 \<and> \<not> error_ptr (Plain 0xFFFE0000) \<and>
   io_window_get_type (Plain 0xFFFE0000) = IO_TYPE_MEM_IO"
  by code_simp

text \<open>The bounds of a hardened window are checked for the first byte only.\<close>

lemma last_byte_wide_access:
  "port_io_window_get_port (Checked \<lparr>iow_type = IO_TYPE_PORT_IO, iow_address = 0x10000, iow_length = 1\<rparr>) 0 = Inr 0 \<and>
   do_write_many (\<lambda>port n v log. (port, n) # log) (Checked \<lparr>iow_type = IO_TYPE_PORT_IO, iow_address = 0x10000, iow_length = 1\<rparr>)
     0 4 0x1000 1 (bytes_at 0x1000 [0, 0, 0, 0], []) = Inr (bytes_at 0x1000 [0, 0, 0, 0], [(0, 4)])"
  by (simp add: port_io_window_get_port_def window_defs do_write_many_def arch_port_io_write_def WIDTH_SWITCH_def
      load_le_holds [OF holds_bytes_at, of "[0, 0, 0, 0]" 4 "0x1000"] Let_def)

end
