(* ===== verification/Earlycon.thy ===== *)
theory Earlycon
  imports Log IoWindow
begin

text \<open>
  The early console, \<^verbatim>\<open>arch/x86/earlycon.c\<close> with \<^verbatim>\<open>hypervisor.c\<close>: the command line parameter
  \<^verbatim>\<open>earlycon\<close> sends the log to port 0xE9 of an emulator. It brings the console list, the I/O windows
  and the log together. \<^verbatim>\<open>cpuid\<close> is the instruction, a function of its leaf; ports act on the state of
  the devices as in \<open>IoWindow\<close>; \<open>local\<close> and \<open>text_at\<close> are the addresses of a local variable and of the
  text being written. Other consoles write with \<open>other_write\<close>.
\<close>

section \<open>The hypervisor bit\<close>

record cpuid_res =
  cpuid_a :: "32 word"
  cpuid_b :: "32 word"
  cpuid_c :: "32 word"
  cpuid_d :: "32 word"

definition HYPERVISOR_BIT :: "32 word" where
  "HYPERVISOR_BIT = push_bit 31 1"

text \<open>The variable \<^verbatim>\<open>is_in_hyperv\<close> is \<open>- 1\<close> until the processor was asked.\<close>

definition in_hypervisor :: "(32 word \<Rightarrow> cpuid_res) \<Rightarrow> int \<Rightarrow> bool \<times> int" where
  "in_hypervisor cpuid is_in_hyperv =
     (let v = (if is_in_hyperv = - 1
               then if cpuid_c (cpuid 1) AND HYPERVISOR_BIT \<noteq> 0 then 1 else 0
               else is_in_hyperv)
      in (v \<noteq> 0, v))"

section \<open>The console on port 0xE9\<close>

datatype console_id = E9_CONSOLE | OTHER_CONSOLE nat

record early_state =
  ec_consoles :: "console_id console_state"
  e9_priv :: "io_window option"
  g_earlycon :: cstring
  is_in_hyperv :: int

text \<open>What the build and the machine decide.\<close>

record 'd machine =
  hardened :: bool
  alloc_ok :: bool
  cpuid :: "32 word \<Rightarrow> cpuid_res"
  dev_in :: "16 word \<Rightarrow> nat \<Rightarrow> 'd \<Rightarrow> 64 word \<times> 'd"
  dev_out :: "16 word \<Rightarrow> nat \<Rightarrow> 64 word \<Rightarrow> 'd \<Rightarrow> 'd"
  local :: "64 word"
  text_at :: "64 word"
  other_write :: "nat \<Rightarrow> char list \<Rightarrow> memory \<times> 'd \<Rightarrow> memory \<times> 'd"

text \<open>A null window is the address 0, or, hardened, a null pointer that is followed.\<close>

definition e9_write :: "'d machine \<Rightarrow> io_window option \<Rightarrow> char list \<Rightarrow> memory \<times> 'd \<Rightarrow> (memory \<times> 'd) res" where
  "e9_write mc priv str s =
     (case priv of
        None \<Rightarrow> if hardened mc then Inl Wild
                 else iowrite_many 8 (dev_out mc) (Plain 0) 0 (text_at mc) (length str) s
      | Some iow \<Rightarrow>
          bind_res (iowrite_many 8 (dev_out mc) iow 0 (text_at mc) (length str)
                      (bytes_at (text_at mc) (map of_char str), snd s))
            (\<lambda>(_, dev'). Inr (fst s, dev')))"

definition console_output :: "'d machine \<Rightarrow> early_state \<Rightarrow> console_id \<Rightarrow> char list \<Rightarrow> (memory \<times> 'd) res \<Rightarrow> (memory \<times> 'd) res" where
  "console_output mc st c str s = bind_res s (\<lambda>s'. case c of
       E9_CONSOLE \<Rightarrow> e9_write mc (e9_priv st) str s'
     | OTHER_CONSOLE n \<Rightarrow> Inr (other_write mc n str s'))"

definition e9_unmap :: "early_state \<Rightarrow> early_state" where
  "e9_unmap st = st\<lparr>e9_priv := None\<rparr>"

definition e9_console_init :: "'d machine \<Rightarrow> early_state \<times> memory \<times> 'd \<Rightarrow> (error_t \<times> early_state \<times> memory \<times> 'd) res" where
  "e9_console_init mc s = (case s of (st, io) \<Rightarrow>
     case in_hypervisor (cpuid mc) (is_in_hyperv st) of (hyp, v) \<Rightarrow>
       let st1 = st\<lparr>is_in_hyperv := v\<rparr>
       in if \<not> hyp then Inr (0, st1, io)
          else let iow = io_window_map_pio (hardened mc) (alloc_ok mc) 0xE9 1
               in if error_ptr iow then Inr (ucast (io_window_get_address iow), st1, io)
                  else bind_res (ioread 8 (dev_in mc) iow (local mc) io) (\<lambda>(answer, io').
                    if answer \<noteq> 0xE9 then Inr (0, e9_unmap st1, io')
                    else let st2 = st1\<lparr>e9_priv := Some iow\<rparr>
                         in case register_console E9_CONSOLE (ec_consoles st2) of
                              None \<Rightarrow> Inl Hang
                            | Some (Inl e, con) \<Rightarrow> Inr (E e, e9_unmap (st2\<lparr>ec_consoles := con\<rparr>), io')
                            | Some (Inr _, con) \<Rightarrow> Inr (0, st2\<lparr>ec_consoles := con\<rparr>, io')))"

definition EARLYCON_MODE_NONE :: cstring where "EARLYCON_MODE_NONE = STR_CONSTEXPR ''none''"
definition EARLYCON_MODE_E9 :: cstring where "EARLYCON_MODE_E9 = STR_CONSTEXPR ''e9''"

definition earlycon_destroy :: "early_state \<Rightarrow> (error_t \<times> early_state) res" where
  "earlycon_destroy st =
     bind_res (str_equals_caseless (g_earlycon st) EARLYCON_MODE_E9) (\<lambda>e9.
       if e9 then case unregister_console E9_CONSOLE (ec_consoles st) of
                    None \<Rightarrow> Inl Hang
                  | Some (Inl e, con) \<Rightarrow> Inr (E e, st\<lparr>ec_consoles := con\<rparr>)
                  | Some (Inr _, con) \<Rightarrow> Inr (0, st\<lparr>ec_consoles := con\<rparr>)
       else Inr (0, st))"

text \<open>\<^verbatim>\<open>earlycon_set\<close>, with the parameter's value the variable \<^verbatim>\<open>g_earlycon\<close> and the buffer of the log.\<close>

type_synonym 'd early_system = "early_state \<times> char list \<times> memory \<times> 'd"

definition earlycon_set :: "'d machine \<Rightarrow> cstring \<Rightarrow> 'd early_system \<Rightarrow> (error_t \<times> 'd early_system) res" where
  "earlycon_set mc mode s = (case s of (st, log_buf, io) \<Rightarrow>
     bind_res (earlycon_destroy st) (\<lambda>(ret, st1).
       if ret \<noteq> 0 then Inr (ret, st1, log_buf, io)
       else bind_res (str_equals_caseless mode EARLYCON_MODE_NONE) (\<lambda>none.
         if none then Inr (0, st1\<lparr>g_earlycon := EARLYCON_MODE_NONE\<rparr>, log_buf, io)
         else bind_res (str_equals_caseless mode EARLYCON_MODE_E9) (\<lambda>e9.
           if e9
           then bind_res (e9_console_init mc (st1, io)) (\<lambda>(ret, st2, io').
                  if ret \<noteq> 0 then Inr (ret, st2, log_buf, io')
                  else let st3 = st2\<lparr>g_earlycon := EARLYCON_MODE_E9\<rparr>
                       in bind_res (print (ec_consoles st3) (console_output mc st3)
                                      ([LOG_LEVEL_PREFIX_CHAR, CHR ''6''] @ ''earlycon: using '' @ [CHR 0x27] @ ''%pS'' @ [CHR 0x27] @
                                       '' as the early console'' @ [CHR 0x0A])
                                      [Va_string (Some (g_earlycon st3))] (log_buf, Inr io')) (\<lambda>(log_buf', out).
                          bind_res out (\<lambda>io''. Inr (0, st3, log_buf', io''))))
           else Inr (E EINVAL, st1, log_buf, io)))))"

section \<open>An emulator with the port\<close>

text \<open>The processor reports a hypervisor, port 0xE9 answers with its number, objects can be allocated
  and the local variable is in memory.\<close>

definition emulator :: "'d machine \<Rightarrow> memory \<Rightarrow> bool" where
  "emulator mc m \<longleftrightarrow> alloc_ok mc \<and> cpuid_c (cpuid mc 1) AND HYPERVISOR_BIT \<noteq> 0 \<and>
     (\<forall>dev. fst (dev_in mc 0xE9 1 dev) = 0xE9) \<and> mapped m (local mc) 1"

definition e9_window :: "'d machine \<Rightarrow> io_window" where
  "e9_window mc = io_window_map_pio (hardened mc) (alloc_ok mc) 0xE9 1"

lemma e9_window_ok: "emulator mc m \<Longrightarrow> \<not> error_ptr (e9_window mc)"
  using window_port(1) [of 233 0 _ "hardened mc" 1] by (simp add: e9_window_def emulator_def)

lemma e9_answers:
  assumes "emulator mc m"
  shows "\<exists>m' dev'. ioread 8 (dev_in mc) (e9_window mc) (local mc) (m, dev) = Inr (0xE9, m', dev') \<and> emulator mc m'"
proof -
  obtain dev' where dev': "dev_in mc (of_nat (233 + 0)) 1 dev = (0xE9, dev')"
    using assms by (cases "dev_in mc 0xE9 1 dev") (auto simp: emulator_def dest: spec [of _ dev])
  have "mapped m (local mc) 1" "alloc_ok mc"
    using assms by (simp_all add: emulator_def)
  from port_read_eq [of 233 0 1 1 m "local mc" "dev_in mc" dev, OF _ _ _ this(1) dev', of "hardened mc"]
  obtain m' where m': "ioread_at (8 * 1) (dev_in mc) (io_window_map_pio (hardened mc) True (of_nat 233) 1) (of_nat 0) (local mc) (m, dev) =
      Inr (of_nat (unat (0xE9 :: 64 word) mod 256 ^ 1), m', dev')" "dom m' = dom m"
    by auto
  then have "emulator mc m'"
    using assms by (simp add: emulator_def mapped_def)
  with m' \<open>alloc_ok mc\<close> show ?thesis
    by (auto simp: ioread_def e9_window_def)
qed

lemma byte_value: "unat (ucast (b :: 8 word) :: 64 word) = unat b" "unat b < 256"
  using unsigned_less [of b, where ?'a = nat] by (simp_all add: unsigned_ucast_eq take_bit_nat_eq_self)

lemma holds_text: "length bs < 2 ^ 64 \<Longrightarrow> holds_values (bytes_at a bs) a 1 (map ucast bs)"
proof -
  have "holds_bytes m a bs \<Longrightarrow> holds_values m a 1 (map ucast bs)" for m a and bs :: "8 word list"
    by (induction bs arbitrary: a) (auto simp: byte_value)
  then show "length bs < 2 ^ 64 \<Longrightarrow> ?thesis"
    using holds_bytes_at by blast
qed

text \<open>The characters of a text as the values the port gets.\<close>

definition char_values :: "char list \<Rightarrow> 64 word list" where
  "char_values str = map (\<lambda>c. ucast (of_char c :: 8 word)) str"

lemma e9_write_eq:
  assumes "emulator mc m" "length str < 2 ^ 64"
  shows "e9_write mc (Some (e9_window mc)) str (m', dev) = Inr (m', fold (dev_out mc 0xE9 1) (char_values str) dev)"
  using port_write_eq [of 233 0 1 1 _ _ "map ucast (map of_char str :: 8 word list)" "dev_out mc" "hardened mc" dev,
      OF _ _ _ holds_text [of "map of_char str" "text_at mc"]] assms
  by (simp add: e9_write_def e9_window_def emulator_def o_def char_values_def)

section \<open>Choosing the console twice\<close>

lemma in_hypervisor_eq: "emulator mc m \<Longrightarrow> v = - 1 \<or> v = 1 \<Longrightarrow> in_hypervisor (cpuid mc) v = (True, 1)"
  by (auto simp: in_hypervisor_def emulator_def)

lemma modes:
  "str_equals_caseless EARLYCON_MODE_NONE EARLYCON_MODE_E9 = Inr False"
  "str_equals_caseless EARLYCON_MODE_E9 EARLYCON_MODE_NONE = Inr False"
  "str_equals_caseless EARLYCON_MODE_E9 EARLYCON_MODE_E9 = Inr True"
  by code_simp+

text \<open>The message \<^verbatim>\<open>earlycon_set\<close> ends with.\<close>

definition early_message :: "char list" where
  "early_message = ''earlycon: using '' @ [CHR 0x27] @ ''e9'' @ [CHR 0x27] @ '' as the early console'' @ [CHR 0x0A]"

lemma early_message_printed:
  "vsnprintf (replicate 256 NUL) LOG_BUF_SIZE
     (Ptr ((''earlycon: using '' @ [CHR 0x27] @ ''%pS'' @ [CHR 0x27] @ '' as the early console'' @ [CHR 0x0A]) @ [NUL]))
     [Va_string (Some EARLYCON_MODE_E9)] = Inr (printed (replicate 256 NUL) LOG_BUF_SIZE early_message None)"
  by code_simp

definition initial_early :: early_state where
  "initial_early = \<lparr>ec_consoles = no_consoles, e9_priv = None, g_earlycon = EARLYCON_MODE_NONE, is_in_hyperv = - 1\<rparr>"

definition e9_only :: "io_window option \<Rightarrow> early_state" where
  "e9_only priv =
     \<lparr>ec_consoles = \<lparr>consoles = Some E9_CONSOLE, con_next = (\<lambda>_. None)\<rparr>, e9_priv = priv, g_earlycon = EARLYCON_MODE_E9,
      is_in_hyperv = 1\<rparr>"

lemma e9_only_registry: "registry (ec_consoles (e9_only priv)) [E9_CONSOLE]"
  by (simp add: registry_def e9_only_def)

lemma console_write_e9:
  "console_write (ec_consoles (e9_only priv)) write str dev = Some (write E9_CONSOLE str dev)"
  using e9_only_registry [of priv] write_from_eq [of "ec_consoles (e9_only priv)" "Some E9_CONSOLE" "[E9_CONSOLE]" "write" str dev]
  by (simp add: registry_def console_write_def)

lemma e9_output:
  assumes "emulator mc m" "length str < 2 ^ 64"
  shows "console_write (ec_consoles (e9_only (Some (e9_window mc)))) (console_output mc (e9_only (Some (e9_window mc)))) str
      (Inr (m', dev)) = Some (Inr (m', fold (dev_out mc 0xE9 1) (char_values str) dev))"
  unfolding console_write_e9 using e9_write_eq [OF assms, of m' dev]
  by (simp add: console_output_def e9_only_def)

lemma init_first:
  assumes "emulator mc m"
  shows "\<exists>m' dev'. e9_console_init mc (initial_early, m, dev) =
      Inr (0, (e9_only (Some (e9_window mc)))\<lparr>g_earlycon := EARLYCON_MODE_NONE\<rparr>, m', dev') \<and> emulator mc m'"
proof -
  obtain m' dev' where "ioread 8 (dev_in mc) (e9_window mc) (local mc) (m, dev) = Inr (0xE9, m', dev')" "emulator mc m'"
    using e9_answers [OF assms] by blast
  moreover have "in_hypervisor (cpuid mc) (is_in_hyperv initial_early) = (True, 1)"
    using in_hypervisor_eq [OF assms, of "- 1"] by (simp add: initial_early_def)
  ultimately show ?thesis
    using e9_window_ok [OF assms]
    by (simp add: e9_console_init_def e9_window_def [symmetric] Let_def)
      (simp add: initial_early_def register_console_def no_consoles_def e9_only_def)
qed

lemma init_again:
  assumes "emulator mc m"
  shows "\<exists>m' dev'. e9_console_init mc (e9_only priv, m, dev) = Inr (E EBUSY, e9_only None, m', dev')"
proof -
  have "register_console E9_CONSOLE (ec_consoles (e9_only priv)) = Some (Inl EBUSY, ec_consoles (e9_only priv))"
    using run_op_refines [OF e9_only_registry, of "Register E9_CONSOLE" priv]
      registered_from_eq [of "ec_consoles (e9_only priv)" "Some E9_CONSOLE" "[E9_CONSOLE]" E9_CONSOLE]
    by (simp add: register_console_def console_registered_def e9_only_def)
  moreover have "in_hypervisor (cpuid mc) (is_in_hyperv (e9_only priv)) = (True, 1)"
    using in_hypervisor_eq [OF assms, of 1] by (simp add: e9_only_def)
  ultimately show ?thesis
    using e9_answers [OF assms, of dev] e9_window_ok [OF assms]
    by (auto simp: e9_console_init_def e9_window_def [symmetric] Let_def e9_unmap_def) (simp_all add: e9_only_def)
qed

lemma set_first:
  assumes "emulator mc m"
  shows "\<exists>log_buf m' dev'. earlycon_set mc EARLYCON_MODE_E9 (initial_early, replicate 256 NUL, m, dev) =
      Inr (0, e9_only (Some (e9_window mc)), log_buf, m', dev') \<and> emulator mc m'"
proof -
  let ?w = "Some (e9_window mc)"
  obtain m' dev' where init: "e9_console_init mc (initial_early, m, dev) =
      Inr (0, (e9_only ?w)\<lparr>g_earlycon := EARLYCON_MODE_NONE\<rparr>, m', dev')" "emulator mc m'"
    using init_first [OF assms] by blast
  have st: "(e9_only ?w)\<lparr>g_earlycon := EARLYCON_MODE_NONE\<rparr>\<lparr>g_earlycon := EARLYCON_MODE_E9\<rparr> = e9_only ?w"
    and st': "(e9_only ?w)\<lparr>g_earlycon := EARLYCON_MODE_E9\<rparr> = e9_only ?w"
    and mode: "g_earlycon (e9_only ?w) = EARLYCON_MODE_E9"
    by (simp_all add: e9_only_def)
  let ?f = "''earlycon: using '' @ [CHR 0x27] @ ''%pS'' @ [CHR 0x27] @ '' as the early console'' @ [CHR 0x0A]"
  let ?m = "([LOG_LEVEL_PREFIX_CHAR, CHR ''6''] @ ?f) @ [NUL]"
  have "extract_msg_level (Ptr ?m) LOG_LEVEL_DEFAULT = Inr (2, 6)"
    by code_simp
  note vprint_eq [where con_write = "console_output mc (e9_only ?w)" and dev = "Inr (m', dev')",
      OF early_message_printed _ this _ e9_only_registry [of ?w]]
  then obtain log_buf' where "print (ec_consoles (e9_only ?w)) (console_output mc (e9_only ?w)) ([LOG_LEVEL_PREFIX_CHAR, CHR ''6''] @ ?f)
      [Va_string (Some EARLYCON_MODE_E9)] (replicate 256 NUL, Inr (m', dev')) =
      Inr (log_buf', console_output mc (e9_only ?w) E9_CONSOLE (take (LOG_BUF_SIZE - 1) early_message) (Inr (m', dev')))"
    by (auto simp: print_def early_message_def)
  moreover have "console_output mc (e9_only ?w) E9_CONSOLE (take (LOG_BUF_SIZE - 1) early_message) (Inr (m', dev')) =
      Inr (m', fold (dev_out mc 0xE9 1) (char_values (take (LOG_BUF_SIZE - 1) early_message)) dev')"
    using e9_write_eq [OF assms, of "take (LOG_BUF_SIZE - 1) early_message" m' dev']
    by (simp add: console_output_def e9_only_def LOG_BUF_SIZE_def)
  moreover have "earlycon_destroy initial_early = Inr (0, initial_early)"
    using modes by (simp add: earlycon_destroy_def initial_early_def)
  ultimately show ?thesis
    using init modes mode by (simp add: earlycon_set_def Let_def st')
qed

lemma set_again:
  assumes "emulator mc m"
  shows "\<exists>m' dev'. earlycon_set mc EARLYCON_MODE_E9 (e9_only priv, log_buf, m, dev) = Inr (E EBUSY, e9_only None, log_buf, m', dev')"
proof -
  have "unregister_console E9_CONSOLE (ec_consoles (e9_only priv)) = Some (Inr (), ec_consoles (e9_only priv))"
    unfolding unregister_console_def by (subst unregister_from.simps) (simp add: e9_only_def)
  then have "earlycon_destroy (e9_only priv) = Inr (0, e9_only priv)"
    using modes by (simp add: earlycon_destroy_def e9_only_def)
  with init_again [OF assms, of priv dev] modes show ?thesis
    by (auto simp: earlycon_set_def E_def)
qed

text \<open>
  C30: In an emulator the parameter \<^verbatim>\<open>earlycon=e9\<close> succeeds and from then on every message goes to port
  0xE9, character by character. Given a second time it fails with \<^verbatim>\<open>EBUSY\<close> and leaves the console
  registered without its window: the next message is a fault.
\<close>

theorem earlycon_e9_twice:
  assumes "emulator mc m"
  shows "\<exists>st log_buf m1 dev1 st2 m2 dev2.
    earlycon_set mc EARLYCON_MODE_E9 (initial_early, replicate 256 NUL, m, dev) = Inr (0, st, log_buf, m1, dev1) \<and>
    (\<forall>str dev'. length str < 2 ^ 64 \<longrightarrow>
       console_write (ec_consoles st) (console_output mc st) str (Inr (m1, dev')) =
         Some (Inr (m1, fold (dev_out mc 0xE9 1) (char_values str) dev'))) \<and>
    earlycon_set mc EARLYCON_MODE_E9 (st, log_buf, m1, dev1) = Inr (E EBUSY, st2, log_buf, m2, dev2) \<and>
    (\<forall>str dev'. console_write (ec_consoles st2) (console_output mc st2) str (Inr (m2, dev')) =
       Some (Inl (if hardened mc then Wild else Bug)))"
proof -
  obtain log_buf m1 dev1 where first: "earlycon_set mc EARLYCON_MODE_E9 (initial_early, replicate 256 NUL, m, dev) =
      Inr (0, e9_only (Some (e9_window mc)), log_buf, m1, dev1)" "emulator mc m1"
    using set_first [OF assms] by blast
  obtain m2 dev2 where "earlycon_set mc EARLYCON_MODE_E9 (e9_only (Some (e9_window mc)), log_buf, m1, dev1) =
      Inr (E EBUSY, e9_only None, log_buf, m2, dev2)"
    using set_again [OF first(2)] by blast
  moreover have "console_write (ec_consoles (e9_only None)) (console_output mc (e9_only None)) str (Inr (m2, dev')) =
      Some (Inl (if hardened mc then Wild else Bug))" for str dev'
    unfolding console_write_e9
    by (simp add: console_output_def e9_only_def e9_write_def iowrite_many_def do_write_many_def window_defs)
  ultimately show ?thesis
    using first e9_output [OF assms] by blast
qed

text \<open>A machine whose port collects what it gets.\<close>

definition demo_machine :: "64 word list machine" where
  "demo_machine = \<lparr>hardened = False, alloc_ok = True,
     cpuid = (\<lambda>_. \<lparr>cpuid_a = 0, cpuid_b = 0, cpuid_c = 0x80000000, cpuid_d = 0\<rparr>),
     dev_in = (\<lambda>port n dev. (0xE9, dev)), dev_out = (\<lambda>port n v dev. dev @ [v]),
     local = 0x1000, text_at = 0x2000, other_write = (\<lambda>n str s. s)\<rparr>"

theorem earlycon_e9_twice_witness:
  "\<exists>st log_buf m1 dev1 st2 m2 dev2.
    earlycon_set demo_machine EARLYCON_MODE_E9 (initial_early, replicate 256 NUL, [0x1000 \<mapsto> 0], []) =
      Inr (0, st, log_buf, m1, dev1) \<and>
    console_write (ec_consoles st) (console_output demo_machine st) ''hi'' (Inr (m1, [])) = Some (Inr (m1, [104, 105])) \<and>
    earlycon_set demo_machine EARLYCON_MODE_E9 (st, log_buf, m1, dev1) = Inr (E EBUSY, st2, log_buf, m2, dev2) \<and>
    console_write (ec_consoles st2) (console_output demo_machine st2) ''hi'' (Inr (m2, [])) = Some (Inl Bug)"
proof -
  have emu: "emulator demo_machine [0x1000 \<mapsto> 0]"
    by (auto simp: emulator_def demo_machine_def HYPERVISOR_BIT_def mapped_def region_def unat_eq_0)
  have out: "fold (dev_out demo_machine 0xE9 1) (char_values ''hi'') [] = [104, 105]"
    by code_simp
  have mc: "\<not> hardened demo_machine" "length ''hi'' < 2 ^ 64"
    by (simp_all add: demo_machine_def)
  from earlycon_e9_twice [OF emu, of "[]"]
  obtain st log_buf m1 dev1 st2 m2 dev2 where
    "earlycon_set demo_machine EARLYCON_MODE_E9 (initial_early, replicate 256 NUL, [0x1000 \<mapsto> 0], []) =
      Inr (0, st, log_buf, m1, dev1)"
    "\<forall>str dev'. length str < 2 ^ 64 \<longrightarrow>
       console_write (ec_consoles st) (console_output demo_machine st) str (Inr (m1, dev')) =
         Some (Inr (m1, fold (dev_out demo_machine 0xE9 1) (char_values str) dev'))"
    "earlycon_set demo_machine EARLYCON_MODE_E9 (st, log_buf, m1, dev1) = Inr (E EBUSY, st2, log_buf, m2, dev2)"
    "\<forall>str dev'. console_write (ec_consoles st2) (console_output demo_machine st2) str (Inr (m2, dev')) =
       Some (Inl (if hardened demo_machine then Wild else Bug))"
    by blast
  note run = this(1,3) this(2) [rule_format, of "''hi''" "[]", OF mc(2)] this(4) [rule_format, of "''hi''" "[]"]
  have "console_write (ec_consoles st) (console_output demo_machine st) ''hi'' (Inr (m1, [])) = Some (Inr (m1, [104, 105]))"
    "console_write (ec_consoles st2) (console_output demo_machine st2) ''hi'' (Inr (m2, [])) = Some (Inl Bug)"
    using run(3,4) out mc by simp_all
  with run(1,2) show ?thesis by blast
qed

end
