(* ===== verification/PageTable.thy ===== *)
theory PageTable
  imports Prelude
begin

text \<open>
  The x86 page tables, \<^verbatim>\<open>arch/x86/memory.c\<close>, \<^verbatim>\<open>arch/x86/include/arch/page_table.h\<close>,
  \<^verbatim>\<open>include/memory/page_table.h\<close> and \<^verbatim>\<open>vm_flags.h\<close>. A \<^verbatim>\<open>struct ptN\<close> is one 64-bit entry, so memory is a
  function from the virtual address of an entry to its value and a pointer is an address. \<open>base\<close> is
  \<^verbatim>\<open>g_direct_map_base\<close>. The functions that a macro makes for several levels are defined once, for the
  parameters of the macro, and named for each level.
\<close>

section \<open>Entries\<close>

definition X86_MAX_PHYS_BITS :: nat where "X86_MAX_PHYS_BITS = 52"
definition X86_PHYS_MASK :: "64 word" where "X86_PHYS_MASK = push_bit X86_MAX_PHYS_BITS 1 - 1"

definition X86_PT_PRESENT :: "64 word" where "X86_PT_PRESENT = push_bit 0 1"
definition X86_PT_WRITE :: "64 word" where "X86_PT_WRITE = push_bit 1 1"
definition X86_PT_USER :: "64 word" where "X86_PT_USER = push_bit 2 1"
definition X86_PT_ACCESSED :: "64 word" where "X86_PT_ACCESSED = push_bit 5 1"
definition X86_PT_DIRTY :: "64 word" where "X86_PT_DIRTY = push_bit 6 1"
definition X86_PT_NX :: "64 word" where "X86_PT_NX = push_bit 63 1"
definition X86_PT_MASK :: "64 word" where "X86_PT_MASK = X86_PT_PRESENT OR X86_PT_WRITE OR X86_PT_USER"
definition X86_KNL4_ERRATUM_MASK :: "64 word" where "X86_KNL4_ERRATUM_MASK = X86_PT_ACCESSED OR X86_PT_DIRTY"

type_synonym vm_prot = "32 word"

definition VM_PROT_NONE :: vm_prot where "VM_PROT_NONE = 0"
definition VM_PROT_READ :: vm_prot where "VM_PROT_READ = push_bit 0 1"
definition VM_PROT_WRITE :: vm_prot where "VM_PROT_WRITE = push_bit 1 1"
definition VM_PROT_EXEC :: vm_prot where "VM_PROT_EXEC = push_bit 2 1"
definition VM_PROT_KERNEL :: vm_prot where "VM_PROT_KERNEL = push_bit 3 1"

record pt_prot =
  prot_value :: "64 word"

definition pt_prot_from_vm_prot :: "vm_prot \<Rightarrow> pt_prot" where
  "pt_prot_from_vm_prot vm_prot =
     (let prot0 = \<lparr>prot_value = 0\<rparr>
      in if vm_prot = VM_PROT_NONE then prot0
         else let prot1 = (if vm_prot AND VM_PROT_READ \<noteq> 0 then prot0\<lparr>prot_value := prot_value prot0 OR X86_PT_PRESENT\<rparr> else prot0);
                  prot2 = (if vm_prot AND VM_PROT_WRITE \<noteq> 0 then prot1\<lparr>prot_value := prot_value prot1 OR X86_PT_WRITE\<rparr> else prot1);
                  prot3 = (if vm_prot AND VM_PROT_EXEC = 0 then prot2\<lparr>prot_value := prot_value prot2 OR X86_PT_NX\<rparr> else prot2)
              in if vm_prot AND VM_PROT_KERNEL = 0 then prot3\<lparr>prot_value := prot_value prot3 OR X86_PT_USER\<rparr> else prot3)"

section \<open>Levels\<close>

text \<open>The globals of \<^verbatim>\<open>memory.c\<close>: four levels, until five are found to be supported.\<close>

record paging =
  g_la57 :: bool
  g_pt5_shift :: "64 word"
  g_pt4_num_entries :: "64 word"

definition X86_PT_LVL_SHIFT :: nat where "X86_PT_LVL_SHIFT = 9"
definition X86_PT_LVL_ENTRIES :: "64 word" where "X86_PT_LVL_ENTRIES = push_bit X86_PT_LVL_SHIFT 1"
definition PT1_SHIFT :: nat where "PT1_SHIFT = PAGE_SHIFT"
definition PT2_SHIFT :: nat where "PT2_SHIFT = PT1_SHIFT + X86_PT_LVL_SHIFT"
definition PT3_SHIFT :: nat where "PT3_SHIFT = PT2_SHIFT + X86_PT_LVL_SHIFT"
definition PT4_SHIFT :: nat where "PT4_SHIFT = PT3_SHIFT + X86_PT_LVL_SHIFT"

definition initial_paging :: paging where
  "initial_paging = \<lparr>g_la57 = False, g_pt5_shift = of_nat PT4_SHIFT, g_pt4_num_entries = 1\<rparr>"

definition X86_PAGE_MASK :: "64 word" where "X86_PAGE_MASK = X86_PHYS_MASK AND NOT (PAGE_SIZE - 1)"
definition X86_PT3_MASK :: "64 word" where "X86_PT3_MASK = X86_PHYS_MASK AND NOT (push_bit PT3_SHIFT 1 - 1)"
definition X86_PT2_MASK :: "64 word" where "X86_PT2_MASK = X86_PHYS_MASK AND NOT (push_bit PT2_SHIFT 1 - 1)"

definition PT5_PFN_MASK :: "64 word" where "PT5_PFN_MASK = X86_PAGE_MASK"
definition PT4_PFN_MASK :: "64 word" where "PT4_PFN_MASK = X86_PAGE_MASK"
definition PT3_PFN_MASK :: "64 word" where "PT3_PFN_MASK = X86_PT3_MASK"
definition PT2_PFN_MASK :: "64 word" where "PT2_PFN_MASK = X86_PT2_MASK"
definition PT1_PFN_MASK :: "64 word" where "PT1_PFN_MASK = X86_PAGE_MASK"

type_synonym pt_memory = "64 word \<Rightarrow> 64 word"

text \<open>\<^verbatim>\<open>MAKE_X86_PT_HELPERS\<close>: on the value of an entry.\<close>

definition pt_present :: "64 word \<Rightarrow> bool" where
  "pt_present v \<longleftrightarrow> v AND X86_PT_PRESENT \<noteq> 0"

definition pt_none :: "64 word \<Rightarrow> bool" where
  "pt_none v \<longleftrightarrow> v AND NOT X86_KNL4_ERRATUM_MASK = 0"

definition pt_to_virt :: "64 word \<Rightarrow> 64 word \<Rightarrow> 64 word \<Rightarrow> 64 word" where
  "pt_to_virt pfn_mask base v = phys_to_virt base (v AND pfn_mask)"

abbreviation "pt4_to_virt \<equiv> pt_to_virt PT4_PFN_MASK"
abbreviation "pt3_to_virt \<equiv> pt_to_virt PT3_PFN_MASK"
abbreviation "pt2_to_virt \<equiv> pt_to_virt PT2_PFN_MASK"
abbreviation "pt1_to_virt \<equiv> pt_to_virt PT1_PFN_MASK"

definition pt5_present :: "paging \<Rightarrow> 64 word \<Rightarrow> bool" where
  "pt5_present pg v \<longleftrightarrow> (if \<not> g_la57 pg then True else v AND X86_PT_PRESENT \<noteq> 0)"

definition pt5_none :: "paging \<Rightarrow> 64 word \<Rightarrow> bool" where
  "pt5_none pg v \<longleftrightarrow> (if \<not> g_la57 pg then False else v AND NOT X86_KNL4_ERRATUM_MASK = 0)"

definition pt5_to_virt :: "64 word \<Rightarrow> 64 word \<Rightarrow> 64 word" where
  "pt5_to_virt base v = phys_to_virt base (v AND PT5_PFN_MASK)"

text \<open>\<^verbatim>\<open>MAKE_X86_PT_POPULATE\<close> and the first and last level.\<close>

definition pt_populate :: "64 word \<Rightarrow> 64 word \<Rightarrow> 64 word \<Rightarrow> pt_memory \<Rightarrow> pt_memory" where
  "pt_populate base parent child m = m(parent := virt_to_phys base child OR X86_PT_MASK)"

abbreviation "pt4_populate \<equiv> pt_populate"
abbreviation "pt3_populate \<equiv> pt_populate"
abbreviation "pt2_populate \<equiv> pt_populate"

definition pt5_populate :: "paging \<Rightarrow> 64 word \<Rightarrow> 64 word \<Rightarrow> 64 word \<Rightarrow> pt_memory \<Rightarrow> pt_memory" where
  "pt5_populate pg base parent child m =
     (if \<not> g_la57 pg then m else m(parent := virt_to_phys base child OR X86_PT_MASK))"

definition pt1_populate :: "64 word \<Rightarrow> 64 word \<Rightarrow> pt_prot \<Rightarrow> pt_memory \<Rightarrow> pt_memory" where
  "pt1_populate parent phys_addr prot m = m(parent := phys_addr OR prot_value prot)"

definition pt1_make_writeable :: "64 word \<Rightarrow> 64 word" where
  "pt1_make_writeable v = v OR X86_PT_WRITE"

section \<open>Walking\<close>

text \<open>\<^verbatim>\<open>DO_MAKE_GENERIC_PTN_INDEX\<close>\<close>

definition ptn_index :: "nat \<Rightarrow> 64 word \<Rightarrow> 64 word \<Rightarrow> 64 word" where
  "ptn_index shift num_entries addr = drop_bit shift addr AND (num_entries - 1)"

definition pt5_index :: "paging \<Rightarrow> 64 word \<Rightarrow> 64 word" where
  "pt5_index pg = ptn_index (unat (g_pt5_shift pg)) X86_PT_LVL_ENTRIES"

definition pt4_index :: "paging \<Rightarrow> 64 word \<Rightarrow> 64 word" where
  "pt4_index pg = ptn_index PT4_SHIFT (g_pt4_num_entries pg)"

definition pt3_index :: "64 word \<Rightarrow> 64 word" where "pt3_index = ptn_index PT3_SHIFT X86_PT_LVL_ENTRIES"
definition pt2_index :: "64 word \<Rightarrow> 64 word" where "pt2_index = ptn_index PT2_SHIFT X86_PT_LVL_ENTRIES"
definition pt1_index :: "64 word \<Rightarrow> 64 word" where "pt1_index = ptn_index PT1_SHIFT X86_PT_LVL_ENTRIES"

text \<open>The address of an element of a table.\<close>

definition entry_of :: "64 word \<Rightarrow> 64 word \<Rightarrow> 64 word" where
  "entry_of table i = table + 8 * i"

definition pt5_from_pt5_base :: "paging \<Rightarrow> 64 word \<Rightarrow> 64 word \<Rightarrow> 64 word" where
  "pt5_from_pt5_base pg pt5 addr = entry_of pt5 (pt5_index pg addr)"

definition pt4_from_pt5 :: "paging \<Rightarrow> 64 word \<Rightarrow> pt_memory \<Rightarrow> 64 word \<Rightarrow> 64 word \<Rightarrow> 64 word" where
  "pt4_from_pt5 pg base m pt5 addr =
     (if \<not> g_la57 pg then pt5 else entry_of (pt5_to_virt base (m pt5)) (pt4_index pg addr))"

text \<open>\<^verbatim>\<open>MAKE_GENERIC_PTN_FROM_PTN\<close>\<close>

definition pt3_from_pt4 :: "64 word \<Rightarrow> pt_memory \<Rightarrow> 64 word \<Rightarrow> 64 word \<Rightarrow> 64 word" where
  "pt3_from_pt4 base m pt4 addr = entry_of (pt4_to_virt base (m pt4)) (pt3_index addr)"

definition pt2_from_pt3 :: "64 word \<Rightarrow> pt_memory \<Rightarrow> 64 word \<Rightarrow> 64 word \<Rightarrow> 64 word" where
  "pt2_from_pt3 base m pt3 addr = entry_of (pt3_to_virt base (m pt3)) (pt2_index addr)"

definition pt1_from_pt2 :: "64 word \<Rightarrow> pt_memory \<Rightarrow> 64 word \<Rightarrow> 64 word \<Rightarrow> 64 word" where
  "pt1_from_pt2 base m pt2 addr = entry_of (pt2_to_virt base (m pt2)) (pt1_index addr)"

section \<open>Masks and indices as numbers\<close>

lemma masks:
  "X86_PT_MASK = mask 3" "X86_PHYS_MASK = mask 52" "PAGE_SIZE - 1 = mask 12"
  "push_bit PT3_SHIFT 1 - 1 = (mask 30 :: 64 word)" "push_bit PT2_SHIFT 1 - 1 = (mask 21 :: 64 word)"
  "X86_PT_LVL_ENTRIES - 1 = mask 9"
  by (simp_all add: X86_PT_MASK_def X86_PT_PRESENT_def X86_PT_WRITE_def X86_PT_USER_def X86_PHYS_MASK_def
      X86_MAX_PHYS_BITS_def PAGE_SIZE_def PT3_SHIFT_def PT2_SHIFT_def PT1_SHIFT_def PAGE_SHIFT_def X86_PT_LVL_SHIFT_def
      X86_PT_LVL_ENTRIES_def push_bit_eq_mult mask_eq_exp_minus_1)

lemma pfn_masks:
  "PT5_PFN_MASK = mask 52 AND NOT (mask 12)" "PT4_PFN_MASK = mask 52 AND NOT (mask 12)"
  "PT3_PFN_MASK = mask 52 AND NOT (mask 30)" "PT2_PFN_MASK = mask 52 AND NOT (mask 21)"
  "PT1_PFN_MASK = mask 52 AND NOT (mask 12)"
  by (simp_all only: PT5_PFN_MASK_def PT4_PFN_MASK_def PT3_PFN_MASK_def PT2_PFN_MASK_def PT1_PFN_MASK_def
      X86_PAGE_MASK_def X86_PT3_MASK_def X86_PT2_MASK_def masks)

lemmas shifts = PT1_SHIFT_def PT2_SHIFT_def PT3_SHIFT_def PT4_SHIFT_def PAGE_SHIFT_def X86_PT_LVL_SHIFT_def

lemma aligned_iff: "take_bit s (p :: 64 word) = 0 \<longleftrightarrow> unat p mod 2 ^ s = 0"
  by (simp only: word_unat_eq_iff unsigned_take_bit_eq) (simp add: take_bit_eq_mod)

lemma below_iff: "n < 64 \<Longrightarrow> take_bit n (p :: 64 word) = p \<longleftrightarrow> unat p < 2 ^ n"
  by (simp add: word_unat_eq_iff unsigned_take_bit_eq take_bit_nat_eq_self_iff)

lemma entry_masked:
  fixes p :: "64 word"
  assumes "3 \<le> s" "unat p < 2 ^ 52"
  shows "(p OR mask 3) AND (mask 52 AND NOT (mask s)) = p \<longleftrightarrow> unat p mod 2 ^ s = 0"
proof -
  have "take_bit 52 p = p"
    using assms(2) below_iff [of 52 p] by simp
  then have high: "bit p n \<Longrightarrow> n < 52" for n
    by (metis bit_take_bit_iff)
  have "(p OR mask 3) AND (mask 52 AND NOT (mask s)) = p \<longleftrightarrow> take_bit s p = 0"
    using assms(1) high by (auto simp: bit_eq_iff bit_simps)
  then show ?thesis by (simp add: aligned_iff)
qed

text \<open>A table at an address of the direct map, on a page of its own.\<close>

definition table_at :: "64 word \<Rightarrow> 64 word \<Rightarrow> bool" where
  "table_at base t \<longleftrightarrow> unat (virt_to_phys base t) < 2 ^ 52 \<and> unat (virt_to_phys base t) mod 2 ^ 12 = 0"

lemma to_virt_populated:
  assumes "3 \<le> s" "unat (virt_to_phys base t) < 2 ^ 52"
  shows "phys_to_virt base ((virt_to_phys base t OR X86_PT_MASK) AND (mask 52 AND NOT (mask s))) = t \<longleftrightarrow>
    unat (virt_to_phys base t) mod 2 ^ s = 0"
proof -
  have "phys_to_virt base q = t \<longleftrightarrow> q = virt_to_phys base t" for q
    by (auto simp: phys_to_virt_def virt_to_phys_def)
  then show ?thesis
    using entry_masked [OF assms] by (simp add: masks)
qed

lemma entries_apart:
  assumes "table_at base t" "table_at base t'" "unat i < 512" "unat j < 512"
  shows "entry_of t i = entry_of t' j \<longleftrightarrow> t = t' \<and> i = j"
proof -
  have entry: "unat (virt_to_phys base (entry_of t i)) = unat (virt_to_phys base t) + 8 * unat i"
    if "table_at base t" "unat i < 512" for t i
  proof -
    have "virt_to_phys base (entry_of t i) = virt_to_phys base t + of_nat (8 * unat i)"
      by (simp add: virt_to_phys_def entry_of_def)
    moreover have "unat (of_nat (8 * unat i) :: 64 word) = 8 * unat i"
      using that(2) by (simp only: unsigned_of_nat) (simp add: take_bit_nat_eq_self)
    ultimately show ?thesis
      using that by (simp add: unat_add_no_wrap table_at_def)
  qed
  show ?thesis
  proof
    assume "entry_of t i = entry_of t' j"
    then have eq: "unat (virt_to_phys base t) + 8 * unat i = unat (virt_to_phys base t') + 8 * unat j"
      using entry [OF assms(1,3)] entry [OF assms(2,4)] by simp
    obtain x y where xy: "unat (virt_to_phys base t) = 4096 * x" "unat (virt_to_phys base t') = 4096 * y"
      using assms(1,2) by (auto simp: table_at_def elim!: dvdE)
    then have "x * 512 + unat i = y * 512 + unat j"
      using eq by simp
    then have "unat i = unat j" "x = y"
      using assms(3,4) by (metis mod_less mod_mult_self3, metis add_0_right div_less div_mult_self3 zero_neq_numeral)
    then have "unat i = unat j" "unat (virt_to_phys base t) = unat (virt_to_phys base t')"
      using xy by simp_all
    then show "t = t' \<and> i = j"
      by (simp add: word_unat_eq_iff [symmetric] virt_to_phys_def)
  qed simp
qed

lemma ptn_index_eq: "ptn_index shift X86_PT_LVL_ENTRIES addr = take_bit 9 (drop_bit shift addr)"
  by (simp add: ptn_index_def masks take_bit_eq_mask)

lemma ptn_index_less: "unat (ptn_index shift X86_PT_LVL_ENTRIES addr) < 512"
  by (simp add: ptn_index_eq unsigned_take_bit_eq take_bit_nat_less_exp [of 9, simplified])

text \<open>Addresses that agree in the bits from 21 to below \<open>B\<close> have the same upper indices.\<close>

lemma index_bits: "bit (ptn_index shift X86_PT_LVL_ENTRIES addr) n \<longleftrightarrow> n < 9 \<and> bit addr (shift + n)"
  by (simp add: ptn_index_eq bit_simps)

lemma upper_bits_agree:
  assumes "unat a mod 2 ^ B div 2 ^ 21 = unat (b :: 64 word) mod 2 ^ B div 2 ^ 21" "21 \<le> n" "n < B"
  shows "bit a n \<longleftrightarrow> bit b n"
proof -
  have "drop_bit 21 (take_bit B (unat a)) = drop_bit 21 (take_bit B (unat b))"
    using assms(1) by (simp add: take_bit_eq_mod drop_bit_eq_div)
  then have "bit (drop_bit 21 (take_bit B (unat a))) (n - 21) = bit (drop_bit 21 (take_bit B (unat b))) (n - 21)"
    by simp
  then have "bit (unat a) n = bit (unat b) n"
    using assms(2,3) by (simp add: bit_drop_bit_eq bit_take_bit_iff)
  then show ?thesis
    by (simp add: bit_unsigned_iff)
qed

lemma upper_index_agree:
  assumes "unat a mod 2 ^ B div 2 ^ 21 = unat (b :: 64 word) mod 2 ^ B div 2 ^ 21" "21 \<le> shift" "shift + 9 \<le> B"
  shows "ptn_index shift X86_PT_LVL_ENTRIES a = ptn_index shift X86_PT_LVL_ENTRIES b"
  using assms upper_bits_agree [OF assms(1)] by (intro bit_word_eqI) (auto simp: index_bits)

section \<open>What the masks keep\<close>

text \<open>
  C19: A lower table on a page of its own is found again through the entry that was made for it on the
  fifth and fourth level. On the third level it is found only when it is aligned to 1 GiB and on the
  second level only when it is aligned to 2 MiB, because the masks of these levels are those of the
  large pages they can map.
\<close>

theorem populated_table_found:
  assumes "unat (virt_to_phys base child) < 2 ^ 52" "unat (virt_to_phys base child) mod 2 ^ 12 = 0"
  shows "pt5_to_virt base (pt5_populate (pg\<lparr>g_la57 := True\<rparr>) base parent child m parent) = child \<and>
    pt4_to_virt base (pt4_populate base parent child m parent) = child \<and>
    (pt3_to_virt base (pt3_populate base parent child m parent) = child \<longleftrightarrow> unat (virt_to_phys base child) mod 2 ^ 30 = 0) \<and>
    (pt2_to_virt base (pt2_populate base parent child m parent) = child \<longleftrightarrow> unat (virt_to_phys base child) mod 2 ^ 21 = 0)"
  using to_virt_populated [OF _ assms(1), of 12] to_virt_populated [OF _ assms(1), of 30]
    to_virt_populated [OF _ assms(1), of 21] assms(2)
  by (simp add: pt5_to_virt_def pt_to_virt_def pt5_populate_def pt_populate_def pfn_masks)

theorem populated_table_found_witness:
  "pt3_to_virt 0xFFFF800000000000 (pt3_populate 0xFFFF800000000000 8 0xFFFF800000201000 (\<lambda>_. 0) 8) \<noteq> 0xFFFF800000201000"
  using populated_table_found [of "0xFFFF800000000000" "0xFFFF800000201000" initial_paging 8 "\<lambda>_. 0"]
  by (simp add: virt_to_phys_def)

section \<open>Mapping a page and walking to it\<close>

definition five_level_paging :: paging where
  "five_level_paging = \<lparr>g_la57 = True, g_pt5_shift = 48, g_pt4_num_entries = X86_PT_LVL_ENTRIES\<rparr>"

text \<open>The walk from the top table to the last entry, and the steps that map a page with the tables given.\<close>

definition pt_walk :: "paging \<Rightarrow> 64 word \<Rightarrow> pt_memory \<Rightarrow> 64 word \<Rightarrow> 64 word \<Rightarrow> 64 word" where
  "pt_walk pg base m root addr =
     (let pt5 = pt5_from_pt5_base pg root addr;
          pt4 = pt4_from_pt5 pg base m pt5 addr;
          pt3 = pt3_from_pt4 base m pt4 addr;
          pt2 = pt2_from_pt3 base m pt3 addr
      in pt1_from_pt2 base m pt2 addr)"

definition map_page ::
  "paging \<Rightarrow> 64 word \<Rightarrow> 64 word \<Rightarrow> 64 word \<Rightarrow> 64 word \<Rightarrow> 64 word \<Rightarrow> 64 word \<Rightarrow> 64 word \<Rightarrow> 64 word \<Rightarrow> pt_prot \<Rightarrow> pt_memory \<Rightarrow> pt_memory"
where
  "map_page pg base root t4 t3 t2 t1 addr phys prot m =
     (let pt5 = pt5_from_pt5_base pg root addr;
          m5 = pt5_populate pg base pt5 t4 m;
          pt4 = pt4_from_pt5 pg base m5 pt5 addr;
          m4 = pt4_populate base pt4 t3 m5;
          pt3 = pt3_from_pt4 base m4 pt4 addr;
          m3 = pt3_populate base pt3 t2 m4;
          pt2 = pt2_from_pt3 base m3 pt3 addr;
          m2 = pt2_populate base pt2 t1 m3
      in pt1_populate (pt1_from_pt2 base m2 pt2 addr) phys prot m2)"

lemma walk_steps:
  assumes "table_at base t3" "table_at base t2" "table_at base t1"
    and "unat (virt_to_phys base t2) mod 2 ^ 30 = 0" "unat (virt_to_phys base t1) mod 2 ^ 21 = 0"
  shows "m p4 = virt_to_phys base t3 OR X86_PT_MASK \<Longrightarrow> pt3_from_pt4 base m p4 addr = entry_of t3 (pt3_index addr)"
    "m p3 = virt_to_phys base t2 OR X86_PT_MASK \<Longrightarrow> pt2_from_pt3 base m p3 addr = entry_of t2 (pt2_index addr)"
    "m p2 = virt_to_phys base t1 OR X86_PT_MASK \<Longrightarrow> pt1_from_pt2 base m p2 addr = entry_of t1 (pt1_index addr)"
  using assms to_virt_populated [of 12 base t3] to_virt_populated [of 30 base t2] to_virt_populated [of 21 base t1]
  by (simp_all add: pt3_from_pt4_def pt2_from_pt3_def pt1_from_pt2_def pt_to_virt_def pfn_masks table_at_def)

lemma first_step:
  assumes "table_at base t4" "m p5 = virt_to_phys base t4 OR X86_PT_MASK" "g_la57 pg"
  shows "pt4_from_pt5 pg base m p5 addr = entry_of t4 (pt4_index pg addr)"
  using assms to_virt_populated [of 12 base t4]
  by (simp add: pt4_from_pt5_def pt5_to_virt_def pfn_masks table_at_def)

lemma indices_less:
  "unat (pt3_index a) < 512" "unat (pt2_index a) < 512" "unat (pt1_index a) < 512" "unat (pt5_index pg a) < 512"
  "unat (pt4_index five_level_paging a) < 512"
  using ptn_index_less
  by (simp_all add: pt3_index_def pt2_index_def pt1_index_def pt5_index_def pt4_index_def five_level_paging_def)

lemma indices_agree:
  assumes "unat a mod 2 ^ 48 div 2 ^ 21 = unat (b :: 64 word) mod 2 ^ 48 div 2 ^ 21"
  shows "pt5_index initial_paging a = pt5_index initial_paging b" "pt3_index a = pt3_index b" "pt2_index a = pt2_index b"
  using upper_index_agree [OF assms]
  by (simp_all add: pt5_index_def pt3_index_def pt2_index_def initial_paging_def shifts)

lemma indices_agree5:
  assumes "unat a mod 2 ^ 57 div 2 ^ 21 = unat (b :: 64 word) mod 2 ^ 57 div 2 ^ 21"
  shows "pt5_index five_level_paging a = pt5_index five_level_paging b" "pt4_index five_level_paging a = pt4_index five_level_paging b"
    "pt3_index a = pt3_index b" "pt2_index a = pt2_index b"
  using upper_index_agree [OF assms]
  by (simp_all add: pt5_index_def pt4_index_def pt3_index_def pt2_index_def five_level_paging_def shifts)

text \<open>What mapping a page writes, with four and with five levels.\<close>

lemma map_page_four:
  fixes base root t4 t3 t2 t1 addr phys :: "64 word" and prot :: pt_prot and m :: pt_memory
  assumes "list_all (table_at base) [root, t3, t2, t1]" "distinct [root, t3, t2, t1]"
    and "unat (virt_to_phys base t2) mod 2 ^ 30 = 0" "unat (virt_to_phys base t1) mod 2 ^ 21 = 0"
    and "unat addr' mod 2 ^ 48 div 2 ^ 21 = unat addr mod 2 ^ 48 div 2 ^ 21"
  defines "m' \<equiv> map_page initial_paging base root t4 t3 t2 t1 addr phys prot m"
  shows "m' = m(entry_of root (pt5_index initial_paging addr) := virt_to_phys base t3 OR X86_PT_MASK,
      entry_of t3 (pt3_index addr) := virt_to_phys base t2 OR X86_PT_MASK,
      entry_of t2 (pt2_index addr) := virt_to_phys base t1 OR X86_PT_MASK,
      entry_of t1 (pt1_index addr) := phys OR prot_value prot)"
    and "pt_walk initial_paging base m' root addr' = entry_of t1 (pt1_index addr')"
proof -
  have la57: "\<not> g_la57 initial_paging"
    by (simp add: initial_paging_def)
  have apart: "t = t'"
    if "entry_of t i = entry_of t' j" "t \<in> set [root, t3, t2, t1]" "t' \<in> set [root, t3, t2, t1]" "unat i < 512" "unat j < 512" for t t' i j
    using entries_apart [of base t t' i j] that assms(1) by (auto simp: list_all_iff)
  note steps = walk_steps [of base t3 t2 t1, OF _ _ _ assms(3,4)]
  show m': "m' = m(entry_of root (pt5_index initial_paging addr) := virt_to_phys base t3 OR X86_PT_MASK,
      entry_of t3 (pt3_index addr) := virt_to_phys base t2 OR X86_PT_MASK,
      entry_of t2 (pt2_index addr) := virt_to_phys base t1 OR X86_PT_MASK,
      entry_of t1 (pt1_index addr) := phys OR prot_value prot)"
    using assms(1) la57
    by (simp add: m'_def map_page_def Let_def pt5_from_pt5_base_def pt5_populate_def pt4_from_pt5_def pt_populate_def
        pt1_populate_def steps)
  have different: "distinct [entry_of root (pt5_index initial_paging addr), entry_of t3 (pt3_index addr),
      entry_of t2 (pt2_index addr), entry_of t1 (pt1_index addr)]"
    using assms(2) by simp (intro conjI notI; drule apart; simp add: indices_less)
  have stored: "m' (entry_of root (pt5_index initial_paging addr)) = virt_to_phys base t3 OR X86_PT_MASK"
    "m' (entry_of t3 (pt3_index addr)) = virt_to_phys base t2 OR X86_PT_MASK"
    "m' (entry_of t2 (pt2_index addr)) = virt_to_phys base t1 OR X86_PT_MASK"
    using different unfolding m' by simp_all
  show "pt_walk initial_paging base m' root addr' = entry_of t1 (pt1_index addr')"
    using assms(1) stored la57
    by (simp add: pt_walk_def Let_def pt5_from_pt5_base_def pt4_from_pt5_def indices_agree [OF assms(5)] steps)
qed

lemma map_page_five:
  fixes base root t4 t3 t2 t1 addr phys :: "64 word" and prot :: pt_prot and m :: pt_memory
  assumes "list_all (table_at base) [root, t4, t3, t2, t1]" "distinct [root, t4, t3, t2, t1]"
    and "unat (virt_to_phys base t2) mod 2 ^ 30 = 0" "unat (virt_to_phys base t1) mod 2 ^ 21 = 0"
    and "unat addr' mod 2 ^ 57 div 2 ^ 21 = unat addr mod 2 ^ 57 div 2 ^ 21"
  defines "m' \<equiv> map_page five_level_paging base root t4 t3 t2 t1 addr phys prot m"
  shows "m' = m(entry_of root (pt5_index five_level_paging addr) := virt_to_phys base t4 OR X86_PT_MASK,
      entry_of t4 (pt4_index five_level_paging addr) := virt_to_phys base t3 OR X86_PT_MASK,
      entry_of t3 (pt3_index addr) := virt_to_phys base t2 OR X86_PT_MASK,
      entry_of t2 (pt2_index addr) := virt_to_phys base t1 OR X86_PT_MASK,
      entry_of t1 (pt1_index addr) := phys OR prot_value prot)"
    and "pt_walk five_level_paging base m' root addr' = entry_of t1 (pt1_index addr')"
proof -
  have la57: "g_la57 five_level_paging"
    by (simp add: five_level_paging_def)
  have apart: "t = t'"
    if "entry_of t i = entry_of t' j" "t \<in> set [root, t4, t3, t2, t1]" "t' \<in> set [root, t4, t3, t2, t1]" "unat i < 512" "unat j < 512" for t t' i j
    using entries_apart [of base t t' i j] that assms(1) by (auto simp: list_all_iff)
  note steps = walk_steps [of base t3 t2 t1, OF _ _ _ assms(3,4)] first_step [of base t4, OF _ _ la57]
  show m': "m' = m(entry_of root (pt5_index five_level_paging addr) := virt_to_phys base t4 OR X86_PT_MASK,
      entry_of t4 (pt4_index five_level_paging addr) := virt_to_phys base t3 OR X86_PT_MASK,
      entry_of t3 (pt3_index addr) := virt_to_phys base t2 OR X86_PT_MASK,
      entry_of t2 (pt2_index addr) := virt_to_phys base t1 OR X86_PT_MASK,
      entry_of t1 (pt1_index addr) := phys OR prot_value prot)"
    using assms(1) la57
    by (simp add: m'_def map_page_def Let_def pt5_from_pt5_base_def pt5_populate_def pt_populate_def pt1_populate_def steps)
  have different: "distinct [entry_of root (pt5_index five_level_paging addr), entry_of t4 (pt4_index five_level_paging addr),
      entry_of t3 (pt3_index addr), entry_of t2 (pt2_index addr), entry_of t1 (pt1_index addr)]"
    using assms(2) by simp (intro conjI notI; drule apart; simp add: indices_less)
  have stored: "m' (entry_of root (pt5_index five_level_paging addr)) = virt_to_phys base t4 OR X86_PT_MASK"
    "m' (entry_of t4 (pt4_index five_level_paging addr)) = virt_to_phys base t3 OR X86_PT_MASK"
    "m' (entry_of t3 (pt3_index addr)) = virt_to_phys base t2 OR X86_PT_MASK"
    "m' (entry_of t2 (pt2_index addr)) = virt_to_phys base t1 OR X86_PT_MASK"
    using different unfolding m' by simp_all
  show "pt_walk five_level_paging base m' root addr' = entry_of t1 (pt1_index addr')"
    using assms(1) stored
    by (simp add: pt_walk_def Let_def pt5_from_pt5_base_def indices_agree5 [OF assms(5)] steps)
qed

section \<open>The last entry\<close>

lemma bit_iff_and: "(x :: 'a::len word) AND push_bit n 1 = 0 \<longleftrightarrow> \<not> bit x n"
  by (simp add: push_bit_eq_mult and_exp_eq_0_iff_not_bit)

lemma prot_bits:
  "bit (prot_value (pt_prot_from_vm_prot prot)) n \<longleftrightarrow> prot \<noteq> VM_PROT_NONE \<and>
     (n = 0 \<and> prot AND VM_PROT_READ \<noteq> 0 \<or> n = 1 \<and> prot AND VM_PROT_WRITE \<noteq> 0 \<or>
      n = 63 \<and> prot AND VM_PROT_EXEC = 0 \<or> n = 2 \<and> prot AND VM_PROT_KERNEL = 0)"
proof -
  have one: "bit (push_bit k (1 :: 64 word)) n \<longleftrightarrow> n = k" if "k < 64" for k
    using that by (auto simp: bit_exp_iff)
  show ?thesis
    using one [of 0] one [of 1] one [of 2] one [of 63]
    by (simp add: pt_prot_from_vm_prot_def Let_def X86_PT_PRESENT_def X86_PT_WRITE_def X86_PT_NX_def X86_PT_USER_def
        bit_or_iff del: push_bit_of_1)
qed

lemma pte_fields:
  fixes phys base :: "64 word" and prot :: vm_prot
  assumes "unat phys < 2 ^ 52" "unat phys mod 2 ^ 12 = 0"
  defines "pte \<equiv> phys OR prot_value (pt_prot_from_vm_prot prot)"
  shows "pt1_to_virt base pte = phys_to_virt base phys"
    "pt_present pte \<longleftrightarrow> prot AND VM_PROT_READ \<noteq> 0"
    "pte AND X86_PT_WRITE \<noteq> 0 \<longleftrightarrow> prot AND VM_PROT_WRITE \<noteq> 0"
    "pte AND X86_PT_NX = 0 \<longleftrightarrow> prot = VM_PROT_NONE \<or> prot AND VM_PROT_EXEC \<noteq> 0"
    "pte AND X86_PT_USER \<noteq> 0 \<longleftrightarrow> prot \<noteq> VM_PROT_NONE \<and> prot AND VM_PROT_KERNEL = 0"
proof -
  have "take_bit 12 phys = 0" "take_bit 52 phys = phys"
    using assms(1,2) below_iff [of 52 phys] by (simp_all add: aligned_iff)
  then have phys: "bit phys n \<Longrightarrow> 12 \<le> n \<and> n < 52" for n
    by (metis bit_0_eq bit_take_bit_iff bot2E bot_apply bot_bool_def not_less)
  then have none: "\<not> bit phys 0" "\<not> bit phys (Suc 0)" "\<not> bit phys 2" "\<not> bit phys 63"
    by fastforce+
  have "pte AND (mask 52 AND NOT (mask 12)) = phys"
    by (rule bit_word_eqI) (use phys in \<open>auto simp: pte_def bit_and_iff bit_or_iff bit_not_iff bit_mask_iff prot_bits dest: phys\<close>)
  then show "pt1_to_virt base pte = phys_to_virt base phys"
    by (simp add: pt_to_virt_def pfn_masks)
  show "pt_present pte \<longleftrightarrow> prot AND VM_PROT_READ \<noteq> 0" "pte AND X86_PT_WRITE \<noteq> 0 \<longleftrightarrow> prot AND VM_PROT_WRITE \<noteq> 0"
    "pte AND X86_PT_NX = 0 \<longleftrightarrow> prot = VM_PROT_NONE \<or> prot AND VM_PROT_EXEC \<noteq> 0"
    "pte AND X86_PT_USER \<noteq> 0 \<longleftrightarrow> prot \<noteq> VM_PROT_NONE \<and> prot AND VM_PROT_KERNEL = 0"
    unfolding pt_present_def X86_PT_PRESENT_def X86_PT_WRITE_def X86_PT_NX_def X86_PT_USER_def bit_iff_and
    by (auto simp: pte_def bit_or_iff prot_bits none VM_PROT_NONE_def)
qed



end
