(* ===== verification/Division.thy ===== *)
theory Division
  imports Prelude
begin

text \<open>
  The 64-bit division of the 32-bit kernel, \<^verbatim>\<open>arch/x86/builtins.c\<close>. The output parameter \<^verbatim>\<open>c\<close> is a
  flag, whether the pointer is not null, and the value stored through it is the second result.
\<close>

definition QWORD_HI :: "64 word \<Rightarrow> 32 word" where
  "QWORD_HI x = ucast (drop_bit 32 (x AND 0xFFFFFFFF00000000))"

definition QWORD_LO :: "64 word \<Rightarrow> 32 word" where
  "QWORD_LO x = ucast (x AND 0x00000000FFFFFFFF)"

text \<open>The number of leading zero bits; the builtin is undefined for 0.\<close>

definition builtin_clzll :: "64 word \<Rightarrow> nat res" where
  "builtin_clzll a = (if a = 0 then Inl Wild else Inr (length (takeWhile (\<lambda>i. \<not> bit a i) (rev [0..<64]))))"

text \<open>The loop, \<open>bit_no\<close> the counter before it is tested and decremented,
  \<open>q\<close> the quotient and \<open>r\<close> the remainder.\<close>

fun division_loop :: "nat \<Rightarrow> 64 word \<Rightarrow> 64 word \<Rightarrow> 64 word \<Rightarrow> 64 word \<Rightarrow> 64 word \<times> 64 word" where
  "division_loop 0 a b q r = (q, r)"
| "division_loop (Suc bit_no) a b q r =
     (let r' = push_bit 1 r OR (drop_bit bit_no a AND 1)
      in if b \<le> r' then division_loop bit_no a b (q OR push_bit bit_no 1) (r' - b)
         else division_loop bit_no a b q r')"

definition store_if :: "bool \<Rightarrow> 'a \<Rightarrow> 'a option" where
  "store_if c v = (if c then Some v else None)"

definition do_64bit_division :: "64 word \<Rightarrow> 64 word \<Rightarrow> bool \<Rightarrow> (64 word \<times> 64 word option) res" where
  "do_64bit_division a b c =
     bind_res (builtin_clzll a) (\<lambda>clz.
       case division_loop (64 - clz) a b 0 0 of (q, r) \<Rightarrow>
         Inr (q, store_if c r))"

definition udivmoddi4 :: "64 word \<Rightarrow> 64 word \<Rightarrow> bool \<Rightarrow> (64 word \<times> 64 word option) res" where
  "udivmoddi4 a b c =
     (if a < b then Inr (0, store_if c a)
      else if b = a then Inr (1, store_if c 0)
      else if QWORD_HI b = 0 then
        BUG_ON (b = 0)
          (if b = 1 then Inr (a, store_if c 0)
           else if QWORD_HI a = 0 then
             (let lo_a = QWORD_LO a; lo_b = QWORD_LO b
              in Inr (ucast (lo_a div lo_b), store_if c (ucast (lo_a mod lo_b))))
           else do_64bit_division a b c)
      else do_64bit_division a b c)"

definition umoddi3 :: "64 word \<Rightarrow> 64 word \<Rightarrow> 64 word res" where
  "umoddi3 a b = bind_res (udivmoddi4 a b True) (\<lambda>(_, c). Inr (the c))"

definition udivdi3 :: "64 word \<Rightarrow> 64 word \<Rightarrow> 64 word res" where
  "udivdi3 a b = bind_res (udivmoddi4 a b False) (\<lambda>(q, _). Inr q)"

section \<open>The loop divides\<close>

lemma shift_in:
  assumes "2 * unat r + v < 2 ^ 64" "v < 2"
  shows "unat (push_bit 1 (r :: 64 word) OR of_nat v) = 2 * unat r + v"
proof -
  have "of_nat v OR push_bit 1 r = of_nat (v + unat r * 2 ^ 1)"
    using or_shifted [of v 1 "unat r", where 'a = 64] assms(2) by (simp add: push_bit_eq_mult)
  then show ?thesis
    using assms(1) by (simp add: or.commute unsigned_of_nat take_bit_nat_eq_self del: of_nat_add of_nat_mult)
qed

lemma next_bit: "drop_bit n (a :: 64 word) AND 1 = of_nat (unat a div 2 ^ n mod 2)"
  by (rule word_unat_eq_iff [THEN iffD2])
    (simp add: unat_and_mask [of _ 1, simplified] unat_drop_bit unat_of_nat)

lemma set_quotient_bit:
  assumes "unat q = Q * 2 ^ Suc n" "n < 64"
  shows "unat (q OR push_bit n (1 :: 64 word)) = (2 * Q + 1) * 2 ^ n"
proof -
  have "of_nat (unat q) = q" by simp
  note q = this [unfolded assms(1), symmetric]
  have K: "(2::nat) ^ 64 = 2 ^ (63 - n) * (2 * 2 ^ n)"
    using assms(2) by (simp flip: power_add power_Suc)
  have "Q * (2 * 2 ^ n) < (2 ^ (63 - n)) * (2 * 2 ^ n)"
    using assms(1) unsigned_less [of q, where ?'a = nat] unfolding K [symmetric] by simp
  then have "Q + 1 \<le> 2 ^ (63 - n)"
    by simp
  then have "(Q + 1) * (2 * 2 ^ n) \<le> 2 ^ 64"
    unfolding K by (intro mult_le_mono) simp_all
  moreover have "2 ^ n + Q * 2 ^ Suc n < (Q + 1) * (2 * 2 ^ n)"
    by simp
  ultimately have "2 ^ n + Q * 2 ^ Suc n < 2 ^ 64"
    by linarith
  moreover have "q OR push_bit n 1 = of_nat (2 ^ n + Q * 2 ^ Suc n)"
  proof -
    have "push_bit n 1 = (of_nat (2 ^ n) :: 64 word)"
      by (simp add: push_bit_eq_mult)
    then show ?thesis
      using or_shifted [of "2 ^ n" "Suc n" Q, where 'a = 64] by (simp only: q or.commute) simp
  qed
  ultimately have "unat (q OR push_bit n (1 :: 64 word)) = 2 ^ n + Q * 2 ^ Suc n"
    by (simp only: unsigned_of_nat) (simp add: take_bit_nat_eq_self)
  then show ?thesis
    by (simp add: algebra_simps)
qed

lemma division_step:
  fixes A b R v :: nat
  assumes "0 < b" "R = A mod b"
  shows "b \<le> 2 * R + v \<Longrightarrow> v < 2 \<Longrightarrow> (2 * A + v) div b = 2 * (A div b) + 1 \<and> (2 * A + v) mod b = 2 * R + v - b"
    "2 * R + v < b \<Longrightarrow> (2 * A + v) div b = 2 * (A div b) \<and> (2 * A + v) mod b = 2 * R + v"
proof -
  have "A = b * (A div b) + R" "b * (2 * (A div b)) = 2 * (b * (A div b))"
    using assms(2) by simp_all
  then have A: "2 * A + v = b * (2 * (A div b)) + (2 * R + v)"
    by linarith
  have "R < b" using assms by simp
  have whole: "(b * q + r) div b = q \<and> (b * q + r) mod b = r" if "r < b" for q r
    using assms(1) that by simp
  show "(2 * A + v) div b = 2 * (A div b) \<and> (2 * A + v) mod b = 2 * R + v" if "2 * R + v < b"
    unfolding A using that assms(1) by simp
  show "(2 * A + v) div b = 2 * (A div b) + 1 \<and> (2 * A + v) mod b = 2 * R + v - b" if "b \<le> 2 * R + v" "v < 2"
  proof -
    have A': "2 * A + v = b * (2 * (A div b) + 1) + (2 * R + v - b)"
      using A that(1) by simp
    have "2 * R + v - b < b"
      using \<open>R < b\<close> that by linarith
    then show ?thesis
      unfolding A' by (rule whole)
  qed
qed

text \<open>After the upper bits of \<open>a\<close>, the quotient and the remainder are those of what was read so far.\<close>

lemma division_loop_eq:
  assumes "0 < unat b" "n \<le> 64" "unat q = unat a div 2 ^ n div unat b * 2 ^ n" "unat r = unat a div 2 ^ n mod unat b"
  shows "division_loop n a b q r = (a div b, a mod b)"
  using assms(2-)
proof (induction n arbitrary: q r)
  case 0
  then have "q = a div b" "r = a mod b"
    by (simp_all add: word_unat_eq_iff unat_div_distrib unat_mod_distrib)
  then show ?case by simp
next
  case (Suc n)
  define A v where "A = unat a div 2 ^ Suc n" and "v = unat a div 2 ^ n mod 2"
  have A: "unat a div 2 ^ n = 2 * A + v" and v: "v < 2"
    by (simp_all only: A_def v_def power_Suc2 div_mult2_eq) simp_all
  let ?r = "push_bit 1 r OR (drop_bit n a AND 1)"
  have "unat r \<le> A"
    using Suc.prems(3) by (simp add: A_def)
  moreover have "2 * A + v < 2 ^ 64"
    unfolding A [symmetric] using unsigned_less [of a, where ?'a = nat] by (intro le_less_trans [OF div_le_dividend]) simp
  ultimately have r: "unat ?r = 2 * unat r + v"
    using shift_in [of r v] v unfolding next_bit v_def [symmetric] by simp
  show ?case
  proof (cases "b \<le> ?r")
    case True
    then have le: "unat b \<le> 2 * unat r + v"
      using r by (simp add: word_le_nat_alt)
    note step = division_step(1) [OF assms(1) Suc.prems(3) [folded A_def] le v, folded A]
    have "unat (q OR push_bit n 1) = unat a div 2 ^ n div unat b * 2 ^ n"
      using set_quotient_bit [of q "A div unat b" n] Suc.prems(1,2) step by (simp add: A_def)
    moreover have "unat (?r - b) = unat a div 2 ^ n mod unat b"
      using step r True by (simp add: unat_sub)
    ultimately show ?thesis
      using Suc.IH [of "q OR push_bit n 1" "?r - b"] Suc.prems(1) True by (simp add: Let_def)
  next
    case False
    then have less: "2 * unat r + v < unat b"
      using r by (simp add: word_le_nat_alt)
    note step = division_step(2) [OF assms(1) Suc.prems(3) [folded A_def] less, folded A]
    then show ?thesis
      using Suc.IH [of q ?r] Suc.prems(1,2) False r by (simp add: Let_def A_def)
  qed
qed

section \<open>Leading zeros, and the whole function\<close>

lemma clz_drops_zeros:
  assumes "a \<noteq> 0" "builtin_clzll a = Inr clz"
  shows "unat a div 2 ^ (64 - clz) = 0"
proof -
  have clz: "clz = length (takeWhile (\<lambda>i. \<not> bit a i) (rev [0..<64]))"
    using assms by (simp add: builtin_clzll_def)
  have "\<not> bit a i" if "64 - clz \<le> i" for i
  proof (cases "i < 64")
    case True
    then have j: "63 - i < clz" using that by linarith
    then have "rev [0..<64] ! (63 - i) \<in> set (takeWhile (\<lambda>i. \<not> bit a i) (rev [0..<64]))"
      unfolding clz by (metis nth_mem takeWhile_nth)
    moreover have "rev [0..<64] ! (63 - i) = i"
      using True by (simp add: rev_nth)
    ultimately show ?thesis
      by (metis set_takeWhileD)
  next
    case False
    then show ?thesis using bit_imp_le_length [of a i] by auto
  qed
  then have "drop_bit (64 - clz) a = 0"
    by (intro bit_word_eqI) (simp add: bit_drop_bit_eq)
  then have "unat (drop_bit (64 - clz) a) = 0" by simp
  then show ?thesis
    by (simp only: unat_drop_bit)
qed

lemma do_64bit_division_eq:
  assumes "a \<noteq> 0" "b \<noteq> 0"
  shows "do_64bit_division a b c = Inr (a div b, store_if c (a mod b))"
proof -
  obtain clz where clz: "builtin_clzll a = Inr clz"
    using assms(1) by (simp add: builtin_clzll_def)
  have "division_loop (64 - clz) a b 0 0 = (a div b, a mod b)"
    using clz_drops_zeros [OF assms(1) clz] assms(2)
    by (intro division_loop_eq) (simp_all add: unat_gt_0)
  with clz show ?thesis by (simp add: do_64bit_division_def)
qed

lemma low_half:
  assumes "QWORD_HI x = 0"
  shows "unat (QWORD_LO x) = unat x"
proof -
  have hi: "0xFFFFFFFF00000000 = NOT (mask 32 :: 64 word)" and lo: "0x00000000FFFFFFFF = (mask 32 :: 64 word)"
    by (simp_all add: mask_eq_exp_minus_1)
  have "unat (drop_bit 32 (x AND NOT (mask 32))) = unat x div 2 ^ 32"
    by (simp only: unat_drop_bit unat_and_not_mask) (simp add: minus_mod_eq_mult_div)
  then have "take_bit 32 (unat x div 2 ^ 32) = unat (QWORD_HI x)"
    unfolding QWORD_HI_def hi by (simp only: unsigned_ucast_eq) simp
  then have "unat x div 2 ^ 32 = 0"
    using assms unat_lt_64 [of x] by (subst (asm) take_bit_nat_eq_self) (simp_all add: less_mult_imp_div_less)
  then have x: "unat x < 2 ^ 32" by simp
  have "unat (x AND mask 32) = unat x"
    using x by (simp add: unat_and_mask)
  then show ?thesis
    unfolding QWORD_LO_def lo using x by (simp only: unsigned_ucast_eq) (simp add: take_bit_nat_eq_self)
qed

lemma low_half_division:
  assumes "QWORD_HI a = 0" "QWORD_HI b = 0"
  shows "ucast (QWORD_LO a div QWORD_LO b) = a div b" "ucast (QWORD_LO a mod QWORD_LO b) = a mod b"
proof -
  have "unat (ucast (y :: 32 word) :: 64 word) = unat y" for y
    using unsigned_less [of y, where ?'a = nat] by (simp add: unsigned_ucast_eq take_bit_nat_eq_self)
  then show "ucast (QWORD_LO a div QWORD_LO b) = a div b" "ucast (QWORD_LO a mod QWORD_LO b) = a mod b"
    using assms by (simp_all add: word_unat_eq_iff unat_div_distrib unat_mod_distrib low_half)
qed

lemma division_of_less: "a < b \<Longrightarrow> a div b = 0 \<and> a mod b = (a :: 64 word)"
  by (simp add: word_unat_eq_iff word_less_nat_alt unat_div_distrib unat_mod_distrib)

lemma division_of_self: "b \<noteq> 0 \<Longrightarrow> b div b = 1 \<and> b mod b = (0 :: 64 word)"
  by (simp add: word_unat_eq_iff unat_div_distrib unat_mod_distrib)

text \<open>Dividing by 0 is a \<^verbatim>\<open>BUG\<close>, but for 0 / 0, which the test for equal operands answers with 1.\<close>

lemma division_by_zero: "udivmoddi4 a 0 c = (if a = 0 then Inr (1, store_if c 0) else Inl Bug)"
  by (simp add: udivmoddi4_def QWORD_HI_def)

text \<open>
  C18: The 64-bit division the compiler calls on a 32-bit machine returns quotient and remainder for every
  divisor but 0, on the early returns, the 32-bit path and the long division; the two functions built on
  it return one of them.
\<close>

theorem udivmoddi4_divides:
  assumes "b \<noteq> 0"
  shows "udivmoddi4 a b c = Inr (a div b, if c then Some (a mod b) else None) \<and>
    umoddi3 a b = Inr (a mod b) \<and> udivdi3 a b = Inr (a div b)"
proof -
  have eq: "udivmoddi4 a b c = Inr (a div b, store_if c (a mod b))" for c
  proof (cases "a \<le> b")
    case True
    then show ?thesis
      using assms division_of_less [of a b] division_of_self [of b] by (cases "a = b") (auto simp: udivmoddi4_def)
  next
    case False
    then have "a \<noteq> 0" "\<not> a < b" "b \<noteq> a" by auto
    then show ?thesis
      using assms do_64bit_division_eq [of a b c] low_half_division [of a b]
      by (simp add: udivmoddi4_def Let_def)
  qed
  then show ?thesis
    by (simp add: store_if_def umoddi3_def udivdi3_def)
qed

theorem udivmoddi4_divides_witness:
  "udivmoddi4 0xFFFFFFFFFFFFFFFF 0x100000001 True = Inr (0xFFFFFFFF, Some 0)"
  using udivmoddi4_divides [of "0x100000001" "0xFFFFFFFFFFFFFFFF" True] by simp

end
