(* ===== verification/BootContext.thy ===== *)
theory BootContext
  imports StringContainer Memory
begin

text \<open>
  What the loader hands to the kernel: \<^verbatim>\<open>include/boot/ultra_protocol.h\<close>, \<^verbatim>\<open>include/boot/boot.h\<close> and
  \<^verbatim>\<open>boot_context_init\<close> of \<^verbatim>\<open>kernel/entry.c\<close>. The context with its attributes is one object in memory, the
  list \<open>blob\<close> of its bytes; a pointer into it is an offset and \<open>None\<close> is \<^verbatim>\<open>NULL\<close>. Reading beyond its end
  is \<open>Wild\<close>.
\<close>

section \<open>The protocol\<close>

definition ULTRA_ATTRIBUTE_PLATFORM_INFO :: "32 word" where "ULTRA_ATTRIBUTE_PLATFORM_INFO = 1"
definition ULTRA_ATTRIBUTE_KERNEL_INFO :: "32 word" where "ULTRA_ATTRIBUTE_KERNEL_INFO = 2"
definition ULTRA_ATTRIBUTE_MEMORY_MAP :: "32 word" where "ULTRA_ATTRIBUTE_MEMORY_MAP = 3"
definition ULTRA_ATTRIBUTE_MODULE_INFO :: "32 word" where "ULTRA_ATTRIBUTE_MODULE_INFO = 4"
definition ULTRA_ATTRIBUTE_COMMAND_LINE :: "32 word" where "ULTRA_ATTRIBUTE_COMMAND_LINE = 5"
definition ULTRA_ATTRIBUTE_FRAMEBUFFER_INFO :: "32 word" where "ULTRA_ATTRIBUTE_FRAMEBUFFER_INFO = 6"

lemmas attribute_types = ULTRA_ATTRIBUTE_PLATFORM_INFO_def ULTRA_ATTRIBUTE_KERNEL_INFO_def ULTRA_ATTRIBUTE_MEMORY_MAP_def
  ULTRA_ATTRIBUTE_MODULE_INFO_def ULTRA_ATTRIBUTE_COMMAND_LINE_def ULTRA_ATTRIBUTE_FRAMEBUFFER_INFO_def

text \<open>A little-endian field of \<open>n\<close> bytes.\<close>

definition field_at :: "8 word list \<Rightarrow> nat \<Rightarrow> nat \<Rightarrow> nat res" where
  "field_at blob off n = (if off + n \<le> length blob then Inr (le_nat (take n (drop off blob))) else Inl Wild)"

text \<open>The fields of an attribute header, of the context and of the platform attribute.\<close>

definition attribute_type :: "8 word list \<Rightarrow> nat \<Rightarrow> 32 word res" where
  "attribute_type blob hdr = bind_res (field_at blob hdr 4) (\<lambda>v. Inr (of_nat v))"

definition attribute_size :: "8 word list \<Rightarrow> nat \<Rightarrow> 32 word res" where
  "attribute_size blob hdr = bind_res (field_at blob (hdr + 4) 4) (\<lambda>v. Inr (of_nat v))"

definition attribute_count :: "8 word list \<Rightarrow> 32 word res" where
  "attribute_count blob = bind_res (field_at blob 4 4) (\<lambda>v. Inr (of_nat v))"

definition attributes_offset :: nat where "attributes_offset = 8"

definition platform_type :: "8 word list \<Rightarrow> nat \<Rightarrow> 32 word res" where
  "platform_type blob pi = bind_res (field_at blob (pi + 8) 4) (\<lambda>v. Inr (of_nat v))"

definition loader_name :: "nat \<Rightarrow> nat" where "loader_name pi = pi + 16"

definition higher_half_base :: "8 word list \<Rightarrow> nat \<Rightarrow> 64 word res" where
  "higher_half_base blob pi = bind_res (field_at blob (pi + 56) 8) (\<lambda>v. Inr (of_nat v))"

definition page_table_depth :: "8 word list \<Rightarrow> nat \<Rightarrow> 8 word res" where
  "page_table_depth blob pi = bind_res (field_at blob (pi + 64) 1) (\<lambda>v. Inr (of_nat v))"

definition ULTRA_NEXT_ATTRIBUTE :: "8 word list \<Rightarrow> nat \<Rightarrow> nat res" where
  "ULTRA_NEXT_ATTRIBUTE blob current = bind_res (attribute_size blob current) (\<lambda>n. Inr (current + unat n))"

text \<open>Characters from an offset on, and the text of a command line attribute.\<close>

definition chars_from :: "8 word list \<Rightarrow> nat \<Rightarrow> cptr" where
  "chars_from blob off = Ptr (map (char_of \<circ> unat) (drop off blob))"

definition ULTRA_MAGIC :: "32 word" where "ULTRA_MAGIC = 0x554C5442"

section \<open>Reading the attributes\<close>

record boot_context =
  platform_info :: "nat option"
  kernel_info :: "nat option"
  boot_memory_map :: "nat option"
  boot_fb :: "nat option"
  boot_modules :: "nat option"
  num_modules :: "64 word"
  boot_cmdline :: cstring

definition zero_boot_context :: boot_context where
  "zero_boot_context =
     \<lparr>platform_info = None, kernel_info = None, boot_memory_map = None, boot_fb = None, boot_modules = None,
      num_modules = 0, boot_cmdline = \<lparr>str_text = Null, str_size = 0\<rparr>\<rparr>"

text \<open>The two warnings that are printed: \<^verbatim>\<open>WARN()\<close> for an attribute given twice, and one for an unknown type.\<close>

datatype boot_warning = Warn_On | Unhandled "32 word"

text \<open>\<^verbatim>\<open>UATTR_EXTRACT\<close>: the new value of the field and the warning. A header is the first field of its
  attribute, so that \<^verbatim>\<open>container_of\<close> is the same address.\<close>

definition UATTR_EXTRACT :: "nat option \<Rightarrow> nat \<Rightarrow> nat option \<times> boot_warning list" where
  "UATTR_EXTRACT ctx_field hdr = (Some hdr, if ctx_field \<noteq> None then [Warn_On] else [])"

definition attribute_step ::
  "8 word list \<Rightarrow> nat \<Rightarrow> boot_context \<times> boot_warning list \<Rightarrow> (boot_context \<times> boot_warning list) res"
where
  "attribute_step blob hdr s = (case s of (ctx, warnings) \<Rightarrow>
     bind_res (attribute_type blob hdr) (\<lambda>type.
       if type = ULTRA_ATTRIBUTE_PLATFORM_INFO then
         (case UATTR_EXTRACT (platform_info ctx) hdr of (p, w) \<Rightarrow> Inr (ctx\<lparr>platform_info := p\<rparr>, warnings @ w))
       else if type = ULTRA_ATTRIBUTE_KERNEL_INFO then
         (case UATTR_EXTRACT (kernel_info ctx) hdr of (p, w) \<Rightarrow> Inr (ctx\<lparr>kernel_info := p\<rparr>, warnings @ w))
       else if type = ULTRA_ATTRIBUTE_MEMORY_MAP then
         (case UATTR_EXTRACT (boot_memory_map ctx) hdr of (p, w) \<Rightarrow> Inr (ctx\<lparr>boot_memory_map := p\<rparr>, warnings @ w))
       else if type = ULTRA_ATTRIBUTE_COMMAND_LINE then
         bind_res (STR_RUNTIME (chars_from blob (hdr + 8))) (\<lambda>str. Inr (ctx\<lparr>boot_cmdline := str\<rparr>, warnings))
       else if type = ULTRA_ATTRIBUTE_FRAMEBUFFER_INFO then
         (case UATTR_EXTRACT (boot_fb ctx) hdr of (p, w) \<Rightarrow> Inr (ctx\<lparr>boot_fb := p\<rparr>, warnings @ w))
       else if type = ULTRA_ATTRIBUTE_MODULE_INFO then
         (let (ctx', w) =
            (if num_modules ctx = 0
             then case UATTR_EXTRACT (boot_modules ctx) hdr of (p, w) \<Rightarrow> (ctx\<lparr>boot_modules := p\<rparr>, w)
             else (ctx, []))
          in Inr (ctx'\<lparr>num_modules := num_modules ctx' + 1\<rparr>, warnings @ w))
       else Inr (ctx, warnings @ [Unhandled type])))"

text \<open>The loop, with \<open>n\<close> attributes left.\<close>

fun attribute_loop ::
  "8 word list \<Rightarrow> nat \<Rightarrow> nat \<Rightarrow> boot_context \<times> boot_warning list \<Rightarrow> (boot_context \<times> boot_warning list) res"
where
  "attribute_loop blob 0 hdr s = Inr s"
| "attribute_loop blob (Suc n) hdr s =
     bind_res (attribute_step blob hdr s) (\<lambda>s'.
     bind_res (ULTRA_NEXT_ATTRIBUTE blob hdr) (\<lambda>hdr'. attribute_loop blob n hdr' s'))"

definition boot_context_init :: "8 word list \<Rightarrow> boot_context \<Rightarrow> (boot_context \<times> boot_warning list) res" where
  "boot_context_init blob g_boot_ctx =
     bind_res (attribute_count blob) (\<lambda>count.
     bind_res (attribute_loop blob (unat count) attributes_offset (g_boot_ctx, [])) (\<lambda>(ctx, warnings).
       BUG_ON (kernel_info ctx = None \<or> platform_info ctx = None \<or> boot_memory_map ctx = None)
         (Inr (ctx, warnings))))"

definition platform_type_to_string :: "32 word \<Rightarrow> char list" where
  "platform_type_to_string type =
     (if type = 1 then ''BIOS'' else if type = 2 then ''UEFI'' else ''<unknown platform>'')"

section \<open>What a loader writes\<close>

text \<open>An attribute is its type and its bytes after the header.\<close>

record attr =
  a_type :: "32 word"
  a_payload :: "8 word list"

definition encode_attr :: "attr \<Rightarrow> 8 word list" where
  "encode_attr a = le_bytes 4 (unat (a_type a)) @ le_bytes 4 (8 + length (a_payload a)) @ a_payload a"

definition encode_attrs :: "attr list \<Rightarrow> 8 word list" where
  "encode_attrs as = concat (map encode_attr as)"

definition wf_attr :: "attr \<Rightarrow> bool" where
  "wf_attr a \<longleftrightarrow> 8 + length (a_payload a) < 2 ^ 32 \<and> (a_type a = ULTRA_ATTRIBUTE_COMMAND_LINE \<longrightarrow> 0 \<in> set (a_payload a))"

text \<open>The attributes with their offsets, from an offset on.\<close>

fun placed :: "nat \<Rightarrow> attr list \<Rightarrow> (nat \<times> attr) list" where
  "placed off [] = []"
| "placed off (a # as) = (off, a) # placed (off + length (encode_attr a)) as"

definition of_type :: "32 word \<Rightarrow> (nat \<times> attr) list \<Rightarrow> (nat \<times> attr) list" where
  "of_type t ps = filter (\<lambda>p. a_type (snd p) = t) ps"

definition last_of :: "32 word \<Rightarrow> (nat \<times> attr) list \<Rightarrow> nat option" where
  "last_of t ps = (if of_type t ps = [] then None else Some (fst (last (of_type t ps))))"

definition first_of :: "32 word \<Rightarrow> (nat \<times> attr) list \<Rightarrow> nat option" where
  "first_of t ps = (if of_type t ps = [] then None else Some (fst (hd (of_type t ps))))"

text \<open>The text of the last command line.\<close>

definition last_text :: "(nat \<times> attr) list \<Rightarrow> char list" where
  "last_text ps =
     (if of_type ULTRA_ATTRIBUTE_COMMAND_LINE ps = [] then []
      else map (char_of \<circ> unat) (takeWhile (\<lambda>b. b \<noteq> 0) (a_payload (snd (last (of_type ULTRA_ATTRIBUTE_COMMAND_LINE ps))))))"

text \<open>The warnings, given the types seen before.\<close>

fun warned :: "32 word set \<Rightarrow> attr list \<Rightarrow> boot_warning list" where
  "warned seen [] = []"
| "warned seen (a # as) =
     (if a_type a \<in> {ULTRA_ATTRIBUTE_PLATFORM_INFO, ULTRA_ATTRIBUTE_KERNEL_INFO, ULTRA_ATTRIBUTE_MEMORY_MAP,
                     ULTRA_ATTRIBUTE_FRAMEBUFFER_INFO}
      then if a_type a \<in> seen then [Warn_On] else []
      else if a_type a \<in> {ULTRA_ATTRIBUTE_COMMAND_LINE, ULTRA_ATTRIBUTE_MODULE_INFO} then []
      else [Unhandled (a_type a)]) @ warned (insert (a_type a) seen) as"

section \<open>The loop finds every attribute\<close>

lemma field_at_le_bytes:
  assumes "drop off blob = le_bytes n v @ rest" "0 < n"
  shows "field_at blob off n = Inr (v mod 256 ^ n)"
proof -
  have "length (drop off blob) = n + length rest"
    unfolding assms by simp
  then have "off + n \<le> length blob"
    using assms(2) by simp
  then show ?thesis
    using assms(1) by (simp add: field_at_def)
qed

lemma drop_later: "drop off blob = xs @ rest \<Longrightarrow> k = length xs \<Longrightarrow> drop (off + k) blob = rest"
  by (metis add.commute append_eq_conv_conj drop_drop)

lemma header_fields:
  assumes "drop hdr blob = encode_attr a @ rest" "wf_attr a"
  shows "attribute_type blob hdr = Inr (a_type a)"
    "ULTRA_NEXT_ATTRIBUTE blob hdr = Inr (hdr + length (encode_attr a))"
    "drop (hdr + 8) blob = a_payload a @ rest"
proof -
  have parts: "drop hdr blob = le_bytes 4 (unat (a_type a)) @ le_bytes 4 (8 + length (a_payload a)) @ a_payload a @ rest"
    using assms(1) by (simp add: encode_attr_def)
  then show "drop (hdr + 8) blob = a_payload a @ rest"
    using drop_later [of hdr blob "le_bytes 4 (unat (a_type a)) @ le_bytes 4 (8 + length (a_payload a))"] by simp
  have "drop (hdr + 4) blob = le_bytes 4 (8 + length (a_payload a)) @ a_payload a @ rest"
    using drop_later [OF parts] by simp
  note sz = field_at_le_bytes [OF this]
  have "unat (of_nat (8 + length (a_payload a)) :: 32 word) = 8 + length (a_payload a)"
    using assms(2) by (simp only: unsigned_of_nat wf_attr_def) (simp add: take_bit_nat_eq_self)
  then show "ULTRA_NEXT_ATTRIBUTE blob hdr = Inr (hdr + length (encode_attr a))"
    using sz assms(2) by (simp add: ULTRA_NEXT_ATTRIBUTE_def attribute_size_def encode_attr_def wf_attr_def)
  show "attribute_type blob hdr = Inr (a_type a)"
    using field_at_le_bytes [OF parts] unsigned_less [of "a_type a", where ?'a = nat]
    by (simp add: attribute_type_def)
qed

lemma of_type_snoc: "of_type t (ps @ [p]) = of_type t ps @ (if a_type (snd p) = t then [p] else [])"
  by (simp add: of_type_def)

lemma last_of_snoc: "last_of t (ps @ [p]) = (if a_type (snd p) = t then Some (fst p) else last_of t ps)"
  by (simp add: last_of_def of_type_snoc)

lemma first_of_snoc:
  "first_of t (ps @ [p]) = (if a_type (snd p) = t \<and> of_type t ps = [] then Some (fst p) else first_of t ps)"
  by (simp add: first_of_def of_type_snoc)

lemma last_of_None: "last_of t ps = None \<longleftrightarrow> t \<notin> a_type ` snd ` set ps"
  by (auto simp: last_of_def of_type_def filter_empty_conv)

text \<open>The context after the attributes \<open>ps\<close>.\<close>

definition describes :: "(nat \<times> attr) list \<Rightarrow> boot_context \<Rightarrow> bool" where
  "describes ps ctx \<longleftrightarrow>
     platform_info ctx = last_of ULTRA_ATTRIBUTE_PLATFORM_INFO ps \<and>
     kernel_info ctx = last_of ULTRA_ATTRIBUTE_KERNEL_INFO ps \<and>
     boot_memory_map ctx = last_of ULTRA_ATTRIBUTE_MEMORY_MAP ps \<and>
     boot_fb ctx = last_of ULTRA_ATTRIBUTE_FRAMEBUFFER_INFO ps \<and>
     boot_modules ctx = first_of ULTRA_ATTRIBUTE_MODULE_INFO ps \<and>
     num_modules ctx = of_nat (length (of_type ULTRA_ATTRIBUTE_MODULE_INFO ps)) \<and>
     bytes (boot_cmdline ctx) = last_text ps \<and> wf_str (boot_cmdline ctx)"

lemma describes_zero: "describes [] zero_boot_context"
  by (simp add: describes_def zero_boot_context_def last_of_def first_of_def of_type_def last_text_def bytes_def wf_str_def)

lemma command_line_text:
  assumes "drop (hdr + 8) blob = payload @ rest" "0 \<in> set payload"
  obtains str where "STR_RUNTIME (chars_from blob (hdr + 8)) = Inr str" "wf_str str"
    "bytes str = map (char_of \<circ> unat) (takeWhile (\<lambda>b. b \<noteq> 0) payload)"
proof -
  let ?c = "char_of \<circ> unat :: 8 word \<Rightarrow> char"
  have nul: "?c b = NUL \<longleftrightarrow> b = 0" for b
    using unsigned_less [of b, where ?'a = nat]
    by (simp add: char_of_eq_iff take_bit_nat_eq_self unat_eq_0)
  have "NUL \<in> set (map ?c (payload @ rest))"
    using assms(2) nul by force
  then obtain str where str: "STR_RUNTIME (Ptr (map ?c (payload @ rest))) = Inr str" "wf_str str"
      "bytes str = takeWhile (\<lambda>c. c \<noteq> NUL) (map ?c (payload @ rest))"
    by (rule STR_RUNTIME_eq)
  have "takeWhile (\<lambda>c. c \<noteq> NUL) (map ?c bs) = map ?c (takeWhile (\<lambda>b. b \<noteq> 0) bs)" for bs
    using nul by (induction bs) simp_all
  then have "takeWhile (\<lambda>c. c \<noteq> NUL) (map ?c (payload @ rest)) = map ?c (takeWhile (\<lambda>b. b \<noteq> 0) (payload @ rest))" .
  also have "takeWhile (\<lambda>b. b \<noteq> 0) (payload @ rest) = takeWhile (\<lambda>b. b \<noteq> 0) payload"
    using assms(2) by (auto simp: takeWhile_append)
  finally have "bytes str = map ?c (takeWhile (\<lambda>b. b \<noteq> 0) payload)"
    unfolding str(3) .
  moreover have "STR_RUNTIME (chars_from blob (hdr + 8)) = Inr str"
    unfolding chars_from_def assms(1) by (rule str(1))
  ultimately show thesis
    using that str(2) by blast
qed

lemma no_modules_iff:
  "length ps < 2 ^ 32 \<Longrightarrow> (of_nat (length (of_type t ps)) = (0 :: 64 word)) \<longleftrightarrow> of_type t ps = []"
proof -
  assume "length ps < 2 ^ 32"
  moreover have "length (of_type t ps) \<le> length ps"
    by (simp add: of_type_def)
  ultimately have "length (of_type t ps) < 2 ^ 64"
    by simp
  then show ?thesis
    by (simp add: word_unat_eq_iff unsigned_of_nat take_bit_nat_eq_self)
qed

lemma attribute_step_exact:
  assumes "drop hdr blob = encode_attr a @ rest" "wf_attr a" "length ps < 2 ^ 32" "describes ps ctx"
  shows "\<exists>ctx'. attribute_step blob hdr (ctx, warnings) = Inr (ctx', warnings @ warned (a_type ` snd ` set ps) [a]) \<and>
    describes (ps @ [(hdr, a)]) ctx'"
proof (cases "a_type a = ULTRA_ATTRIBUTE_COMMAND_LINE")
  case True
  then have "0 \<in> set (a_payload a)"
    using assms(2) by (simp add: wf_attr_def)
  then obtain str where "STR_RUNTIME (chars_from blob (hdr + 8)) = Inr str" "wf_str str"
    "bytes str = map (char_of \<circ> unat) (takeWhile (\<lambda>b. b \<noteq> 0) (a_payload a))"
    using command_line_text [OF header_fields(3) [OF assms(1,2)]] by blast
  with True header_fields(1) [OF assms(1,2)] assms(4) show ?thesis
    by (simp add: attribute_step_def describes_def last_of_snoc first_of_snoc of_type_snoc last_text_def attribute_types)
next
  case False
  then have "last_text (ps @ [(hdr, a)]) = last_text ps"
    by (simp add: last_text_def of_type_snoc)
  with False header_fields(1) [OF assms(1,2)] assms(4) no_modules_iff [OF assms(3), of ULTRA_ATTRIBUTE_MODULE_INFO] show ?thesis
    by (auto simp: attribute_step_def describes_def last_of_snoc first_of_snoc of_type_snoc attribute_types UATTR_EXTRACT_def
        last_of_None Let_def first_of_def)
qed

lemma warned_Cons: "warned seen (a # as) = warned seen [a] @ warned (insert (a_type a) seen) as"
  by simp

lemma attribute_loop_exact:
  assumes "drop hdr blob = encode_attrs as @ rest" "list_all wf_attr as" "length ps + length as < 2 ^ 32" "describes ps ctx"
  shows "\<exists>ctx'. attribute_loop blob (length as) hdr (ctx, warnings) =
      Inr (ctx', warnings @ warned (a_type ` snd ` set ps) as) \<and> describes (ps @ placed hdr as) ctx'"
  using assms
proof (induction as arbitrary: hdr ps ctx warnings)
  case Nil
  then show ?case by simp
next
  case (Cons a as)
  have blob: "drop hdr blob = encode_attr a @ encode_attrs as @ rest" and a: "wf_attr a"
    using Cons.prems(1,2) by (simp_all add: encode_attrs_def)
  obtain ctx1 where step: "attribute_step blob hdr (ctx, warnings) = Inr (ctx1, warnings @ warned (a_type ` snd ` set ps) [a])"
      "describes (ps @ [(hdr, a)]) ctx1"
    using attribute_step_exact [OF blob a _ Cons.prems(4)] Cons.prems(3) by fastforce
  have "drop (hdr + length (encode_attr a)) blob = encode_attrs as @ rest"
    using drop_later [OF blob] by simp
  from Cons.IH [OF this _ _ step(2), of "warnings @ warned (a_type ` snd ` set ps) [a]"]
  obtain ctx' where "attribute_loop blob (length as) (hdr + length (encode_attr a)) (ctx1, warnings @ warned (a_type ` snd ` set ps) [a]) =
        Inr (ctx', (warnings @ warned (a_type ` snd ` set ps) [a]) @ warned (insert (a_type a) (a_type ` snd ` set ps)) as)"
      "describes ((ps @ [(hdr, a)]) @ placed (hdr + length (encode_attr a)) as) ctx'"
    using Cons.prems(2,3) by auto
  with step(1) header_fields(2) [OF blob a] show ?case
    by (simp del: warned.simps add: warned_Cons [of _ a as])
qed

text \<open>The context of a loader: its version, the number of attributes and the attributes.\<close>

definition encode_context :: "8 word list \<Rightarrow> attr list \<Rightarrow> 8 word list" where
  "encode_context version as = version @ le_bytes 4 (length as) @ encode_attrs as"

lemma boot_context_init_finds:
  assumes "length version = 4" "list_all wf_attr as" "length as < 2 ^ 32"
  shows "let ps = placed 8 as in
    if \<forall>t \<in> {ULTRA_ATTRIBUTE_KERNEL_INFO, ULTRA_ATTRIBUTE_PLATFORM_INFO, ULTRA_ATTRIBUTE_MEMORY_MAP}. t \<in> a_type ` set as
    then \<exists>ctx. boot_context_init (encode_context version as) zero_boot_context = Inr (ctx, warned {} as) \<and>
      platform_info ctx = last_of ULTRA_ATTRIBUTE_PLATFORM_INFO ps \<and>
      kernel_info ctx = last_of ULTRA_ATTRIBUTE_KERNEL_INFO ps \<and>
      boot_memory_map ctx = last_of ULTRA_ATTRIBUTE_MEMORY_MAP ps \<and>
      boot_fb ctx = last_of ULTRA_ATTRIBUTE_FRAMEBUFFER_INFO ps \<and>
      boot_modules ctx = first_of ULTRA_ATTRIBUTE_MODULE_INFO ps \<and>
      num_modules ctx = of_nat (length (of_type ULTRA_ATTRIBUTE_MODULE_INFO ps)) \<and>
      bytes (boot_cmdline ctx) = last_text ps \<and> wf_str (boot_cmdline ctx)
    else boot_context_init (encode_context version as) zero_boot_context = Inl Bug"
proof -
  let ?blob = "encode_context version as"
  have "drop 4 ?blob = le_bytes 4 (length as) @ encode_attrs as" "drop 8 ?blob = encode_attrs as @ []"
    using assms(1) by (simp_all add: encode_context_def)
  note count = field_at_le_bytes [OF this(1)] and attrs = this(2)
  obtain ctx where run: "attribute_loop ?blob (length as) 8 (zero_boot_context, []) = Inr (ctx, warned {} as)"
      "describes (placed 8 as) ctx"
    using attribute_loop_exact [OF attrs assms(2) _ describes_zero, of "[]"] assms(3) by auto
  have "unat (of_nat (length as) :: 32 word) = length as"
    using assms(3) by (simp add: unsigned_of_nat take_bit_nat_eq_self)
  then have init: "boot_context_init ?blob zero_boot_context =
      BUG_ON (kernel_info ctx = None \<or> platform_info ctx = None \<or> boot_memory_map ctx = None) (Inr (ctx, warned {} as))"
    using count run(1) assms(3) by (simp add: boot_context_init_def attribute_count_def attributes_offset_def)
  have types: "a_type ` snd ` set (placed off as) = a_type ` set as" for off
    by (induction as arbitrary: off) simp_all
  show ?thesis
    using init run(2) by (simp add: Let_def describes_def last_of_None types BUG_ON_def)
qed

text \<open>
  C13: From the context a loader writes, \<^verbatim>\<open>boot_context_init\<close> finds the last attribute of each kind, the
  first module and the number of modules, and the text of the last command line, and warns of exactly
  the attributes given twice or of unknown type; when the platform, the kernel or the memory map is
  missing it panics.
\<close>

theorem boot_context_init_exact:
  assumes "length version = 4" "list_all wf_attr as" "length as < 2 ^ 32"
  shows "let ps = placed 8 as in
    if \<forall>t \<in> {ULTRA_ATTRIBUTE_KERNEL_INFO, ULTRA_ATTRIBUTE_PLATFORM_INFO, ULTRA_ATTRIBUTE_MEMORY_MAP}. t \<in> a_type ` set as
    then \<exists>ctx. boot_context_init (encode_context version as) zero_boot_context = Inr (ctx, warned {} as) \<and>
      platform_info ctx = last_of ULTRA_ATTRIBUTE_PLATFORM_INFO ps \<and>
      kernel_info ctx = last_of ULTRA_ATTRIBUTE_KERNEL_INFO ps \<and>
      boot_memory_map ctx = last_of ULTRA_ATTRIBUTE_MEMORY_MAP ps \<and>
      boot_fb ctx = last_of ULTRA_ATTRIBUTE_FRAMEBUFFER_INFO ps \<and>
      boot_modules ctx = first_of ULTRA_ATTRIBUTE_MODULE_INFO ps \<and>
      num_modules ctx = of_nat (length (of_type ULTRA_ATTRIBUTE_MODULE_INFO ps)) \<and>
      bytes (boot_cmdline ctx) = last_text ps \<and> wf_str (boot_cmdline ctx)
    else boot_context_init (encode_context version as) zero_boot_context = Inl Bug"
  using assms by (rule boot_context_init_finds)

definition example_attrs :: "attr list" where
  "example_attrs =
     [\<lparr>a_type = 1, a_payload = []\<rparr>, \<lparr>a_type = 3, a_payload = []\<rparr>, \<lparr>a_type = 4, a_payload = []\<rparr>,
      \<lparr>a_type = 2, a_payload = []\<rparr>, \<lparr>a_type = 5, a_payload = [104, 105, 0]\<rparr>, \<lparr>a_type = 4, a_payload = []\<rparr>,
      \<lparr>a_type = 1, a_payload = []\<rparr>]"

theorem boot_context_init_exact_witness:
  "\<exists>ctx. boot_context_init (encode_context [1, 0, 0, 0] example_attrs) zero_boot_context = Inr (ctx, [Warn_On]) \<and>
    platform_info ctx = Some 59 \<and> kernel_info ctx = Some 32 \<and> boot_memory_map ctx = Some 16 \<and> boot_fb ctx = None \<and>
    boot_modules ctx = Some 24 \<and> num_modules ctx = 2 \<and> bytes (boot_cmdline ctx) = ''hi''"
proof -
  have hi: "map (char_of \<circ> unat) [104 :: 8 word, 105] = ''hi''"
    by code_simp
  have places: "placed 8 example_attrs = zip [8, 16, 24, 32, 40, 51, 59] example_attrs"
    by (simp add: example_attrs_def encode_attr_def)
  have "list_all wf_attr example_attrs" "length example_attrs < 2 ^ 32" "length [1, 0, 0, 0 :: 8 word] = 4"
    by (simp_all add: example_attrs_def wf_attr_def attribute_types)
  from boot_context_init_exact [OF this(3,1,2)] show ?thesis
    unfolding places using hi
    by (auto simp: Let_def example_attrs_def attribute_types last_of_def first_of_def of_type_def last_text_def)
qed

end
