(* ===== verification/Descriptors.thy ===== *)
theory Descriptors
  imports Prelude
begin

text \<open>
  The segment and interrupt descriptors of x86: \<^verbatim>\<open>arch/x86/include/arch/private/descriptors.h\<close>,
  \<^verbatim>\<open>idt.c\<close>, \<^verbatim>\<open>idt.h\<close> and \<^verbatim>\<open>entry.c\<close>. The tables are lists; their addresses and that of the linker symbol
  \<^verbatim>\<open>idt_thunks\<close> are arguments. The fields of a descriptor, as the processor reads them, are the
  specification.
\<close>

section \<open>Selectors\<close>

definition DESC_SIZE :: nat where "DESC_SIZE = 8"
definition DESC_AFTER :: "nat \<Rightarrow> nat" where "DESC_AFTER x = x + DESC_SIZE"
definition DESC_IDX :: "nat \<Rightarrow> nat" where "DESC_IDX x = x div DESC_SIZE"
definition KERNEL_CS :: nat where "KERNEL_CS = DESC_AFTER 0"
definition KERNEL_SS :: nat where "KERNEL_SS = DESC_AFTER KERNEL_CS"
definition USER_CS_COMPAT :: nat where "USER_CS_COMPAT = DESC_AFTER KERNEL_SS"
definition USER_SS :: nat where "USER_SS = DESC_AFTER USER_CS_COMPAT"
definition USER_CS :: nat where "USER_CS = DESC_AFTER USER_SS"
definition NUM_GDT_ENTRIES :: nat where "NUM_GDT_ENTRIES = DESC_IDX (DESC_AFTER USER_CS)"

lemmas selectors = DESC_SIZE_def DESC_AFTER_def DESC_IDX_def KERNEL_CS_def KERNEL_SS_def USER_CS_COMPAT_def
  USER_SS_def USER_CS_def NUM_GDT_ENTRIES_def

section \<open>Descriptors\<close>

type_synonym descriptor_t = "64 word"

record descriptor_ptr =
  dp_limit :: "16 word"
  dp_base :: "64 word"

definition DESC_PRESENT :: descriptor_t where "DESC_PRESENT = push_bit 47 1"
definition DESC_DPL :: "descriptor_t \<Rightarrow> descriptor_t" where "DESC_DPL x = push_bit 45 x"
definition DESC_ACCESSED :: descriptor_t where "DESC_ACCESSED = push_bit 40 1"
definition DESC_DATA_WRITABLE :: descriptor_t where "DESC_DATA_WRITABLE = push_bit 41 1"
definition DESC_CODE_READABLE :: descriptor_t where "DESC_CODE_READABLE = push_bit 41 1"
definition DESC_EXECUTABLE :: descriptor_t where "DESC_EXECUTABLE = push_bit 43 1"
definition DESC_CODE_OR_DATA :: descriptor_t where "DESC_CODE_OR_DATA = push_bit 44 1"
definition DESC_64 :: descriptor_t where "DESC_64 = push_bit 53 1"
definition DESC_DEFAULT :: descriptor_t where "DESC_DEFAULT = push_bit 54 1"
definition DESC_BIG :: descriptor_t where "DESC_BIG = push_bit 54 1"
definition DESC_GRANULARITY_4K :: descriptor_t where "DESC_GRANULARITY_4K = push_bit 55 1"
definition DESC_IST :: "descriptor_t \<Rightarrow> descriptor_t" where "DESC_IST x = push_bit 32 x"
definition DESC_INTERRUPT_GATE :: descriptor_t where "DESC_INTERRUPT_GATE = push_bit 40 14"
definition SEGMENT_LIMIT_MAX :: descriptor_t where "SEGMENT_LIMIT_MAX = push_bit 20 1 - 1"
definition SEGMENT_LIMIT0 :: "descriptor_t \<Rightarrow> descriptor_t" where "SEGMENT_LIMIT0 x = push_bit 0 (x AND 0xFFFF)"
definition SEGMENT_LIMIT1 :: "descriptor_t \<Rightarrow> descriptor_t" where "SEGMENT_LIMIT1 x = push_bit 48 (x AND 0xF)"

definition SEGMENT_DESCRIPTOR :: "descriptor_t \<Rightarrow> descriptor_t" where
  "SEGMENT_DESCRIPTOR fl = SEGMENT_LIMIT0 SEGMENT_LIMIT_MAX OR SEGMENT_LIMIT1 SEGMENT_LIMIT_MAX OR fl"

definition SEGMENT_CODE_OR_DATA_TEMPLATE :: descriptor_t where
  "SEGMENT_CODE_OR_DATA_TEMPLATE = DESC_PRESENT OR DESC_CODE_OR_DATA OR DESC_ACCESSED OR DESC_GRANULARITY_4K"

definition SEGMENT_KERNEL_CODE_TEMPLATE :: descriptor_t where
  "SEGMENT_KERNEL_CODE_TEMPLATE = SEGMENT_CODE_OR_DATA_TEMPLATE OR DESC_CODE_READABLE OR DESC_EXECUTABLE"

definition SEGMENT_KERNEL_CODE32 :: descriptor_t where
  "SEGMENT_KERNEL_CODE32 = SEGMENT_DESCRIPTOR (SEGMENT_KERNEL_CODE_TEMPLATE OR DESC_DEFAULT)"

definition SEGMENT_KERNEL_CODE64 :: descriptor_t where
  "SEGMENT_KERNEL_CODE64 = SEGMENT_DESCRIPTOR (SEGMENT_KERNEL_CODE_TEMPLATE OR DESC_64)"

definition SEGMENT_KERNEL_DATA32 :: descriptor_t where
  "SEGMENT_KERNEL_DATA32 = SEGMENT_DESCRIPTOR (SEGMENT_CODE_OR_DATA_TEMPLATE OR DESC_DATA_WRITABLE OR DESC_BIG)"

definition SEGMENT_KERNEL_DATA64 :: descriptor_t where
  "SEGMENT_KERNEL_DATA64 = SEGMENT_KERNEL_DATA32"

definition SEGMENT_USER_CODE32 :: descriptor_t where
  "SEGMENT_USER_CODE32 = SEGMENT_DESCRIPTOR (SEGMENT_KERNEL_CODE32 OR DESC_DPL 3)"

definition SEGMENT_USER_CODE64 :: descriptor_t where
  "SEGMENT_USER_CODE64 = SEGMENT_DESCRIPTOR (SEGMENT_KERNEL_CODE64 OR DESC_DPL 3)"

definition SEGMENT_USER_DATA64 :: descriptor_t where
  "SEGMENT_USER_DATA64 = SEGMENT_DESCRIPTOR (SEGMENT_KERNEL_DATA64 OR DESC_DPL 3)"

definition INTERRUPT_DESCRIPTOR_LOW :: "64 word \<Rightarrow> descriptor_t \<Rightarrow> descriptor_t \<Rightarrow> descriptor_t" where
  "INTERRUPT_DESCRIPTOR_LOW addr ist dpl =
     push_bit 16 (of_nat KERNEL_CS) OR (addr AND 0xFFFF) OR DESC_IST ist OR
     DESC_INTERRUPT_GATE OR DESC_DPL dpl OR DESC_PRESENT OR
     push_bit 48 (drop_bit 16 addr AND 0xFFFF)"

definition INTERRUPT_DESCRIPTOR_HIGH :: "64 word \<Rightarrow> descriptor_t" where
  "INTERRUPT_DESCRIPTOR_HIGH addr = drop_bit 32 addr"

lemmas segment_defs = DESC_PRESENT_def DESC_DPL_def DESC_ACCESSED_def DESC_DATA_WRITABLE_def DESC_CODE_READABLE_def
  DESC_EXECUTABLE_def DESC_CODE_OR_DATA_def DESC_64_def DESC_DEFAULT_def DESC_BIG_def DESC_GRANULARITY_4K_def
  SEGMENT_LIMIT_MAX_def SEGMENT_LIMIT0_def SEGMENT_LIMIT1_def SEGMENT_DESCRIPTOR_def SEGMENT_CODE_OR_DATA_TEMPLATE_def
  SEGMENT_KERNEL_CODE_TEMPLATE_def SEGMENT_KERNEL_CODE32_def SEGMENT_KERNEL_CODE64_def SEGMENT_KERNEL_DATA32_def
  SEGMENT_KERNEL_DATA64_def SEGMENT_USER_CODE32_def SEGMENT_USER_CODE64_def SEGMENT_USER_DATA64_def

section \<open>The tables\<close>

definition g_gdt :: "descriptor_t list" where
  "g_gdt = (replicate NUM_GDT_ENTRIES 0)
     [DESC_IDX KERNEL_CS := SEGMENT_KERNEL_CODE64, DESC_IDX KERNEL_SS := SEGMENT_KERNEL_DATA64,
      DESC_IDX USER_CS_COMPAT := SEGMENT_USER_CODE32, DESC_IDX USER_SS := SEGMENT_USER_DATA64,
      DESC_IDX USER_CS := SEGMENT_USER_CODE64]"

definition NUM_IDT_ENTRIES :: nat where "NUM_IDT_ENTRIES = 256"
definition IDT_THUNK_SIZE :: nat where "IDT_THUNK_SIZE = 8"

record interrupt_descriptor =
  gate_low :: descriptor_t
  gate_high :: descriptor_t

text \<open>The loop of \<^verbatim>\<open>idt_init\<close>; \<open>n\<close> entries are left to fill. A thunk is \<^verbatim>\<open>IDT_THUNK_SIZE\<close> bytes.\<close>

fun idt_loop :: "64 word \<Rightarrow> nat \<Rightarrow> nat \<Rightarrow> interrupt_descriptor list \<Rightarrow> interrupt_descriptor list" where
  "idt_loop idt_thunks 0 i idt = idt"
| "idt_loop idt_thunks (Suc n) i idt =
     (let this_thunk = idt_thunks + of_nat (IDT_THUNK_SIZE * i)
      in idt_loop idt_thunks n (Suc i)
           (idt[i := \<lparr>gate_low = INTERRUPT_DESCRIPTOR_LOW this_thunk 0 0,
                      gate_high = INTERRUPT_DESCRIPTOR_HIGH this_thunk\<rparr>]))"

text \<open>What \<^verbatim>\<open>lidt\<close> is given, and the table.\<close>

definition idt_load :: "64 word \<Rightarrow> interrupt_descriptor list \<Rightarrow> descriptor_ptr" where
  "idt_load idt_address idt = \<lparr>dp_limit = of_nat (16 * length idt - 1), dp_base = idt_address\<rparr>"

definition idt_init ::
  "64 word \<Rightarrow> 64 word \<Rightarrow> interrupt_descriptor list \<Rightarrow> descriptor_ptr \<times> interrupt_descriptor list"
where
  "idt_init idt_thunks idt_address idt =
     (let idt' = idt_loop idt_thunks NUM_IDT_ENTRIES 0 idt in (idt_load idt_address idt', idt'))"

text \<open>What \<^verbatim>\<open>lgdt\<close> and \<^verbatim>\<open>lidt\<close> are given by \<^verbatim>\<open>arch_init_early\<close>, and the interrupt table.\<close>

definition arch_init_early ::
  "64 word \<Rightarrow> 64 word \<Rightarrow> 64 word \<Rightarrow> interrupt_descriptor list \<Rightarrow> descriptor_ptr \<times> descriptor_ptr \<times> interrupt_descriptor list"
where
  "arch_init_early gdt_address idt_thunks idt_address idt =
     (\<lparr>dp_limit = of_nat (DESC_SIZE * length g_gdt - 1), dp_base = gdt_address\<rparr>,
      idt_init idt_thunks idt_address idt)"

section \<open>How the processor reads them\<close>

text \<open>Bits \<open>lo\<close> to \<open>hi\<close> of a descriptor.\<close>

definition bits_of :: "nat \<Rightarrow> nat \<Rightarrow> descriptor_t \<Rightarrow> descriptor_t" where
  "bits_of hi lo d = take_bit (hi + 1 - lo) (drop_bit lo d)"

record gate =
  gate_offset :: "64 word"
  gate_selector :: "64 word"
  gate_ist :: "64 word"
  gate_type :: "64 word"
  gate_dpl :: "64 word"
  gate_present :: bool

definition read_gate :: "interrupt_descriptor \<Rightarrow> gate" where
  "read_gate d =
     \<lparr>gate_offset = bits_of 15 0 (gate_low d) + 2 ^ 16 * bits_of 63 48 (gate_low d) + 2 ^ 32 * bits_of 31 0 (gate_high d),
      gate_selector = bits_of 31 16 (gate_low d), gate_ist = bits_of 34 32 (gate_low d),
      gate_type = bits_of 44 40 (gate_low d), gate_dpl = bits_of 46 45 (gate_low d),
      gate_present = bit (gate_low d) 47\<rparr>"

record segment =
  seg_base :: "64 word"
  seg_limit :: "64 word"
  seg_executable :: bool
  seg_rw :: bool
  seg_dpl :: "64 word"
  seg_present :: bool
  seg_64 :: bool
  seg_32 :: bool

text \<open>A code or data segment; with the granularity bit the limit counts pages.\<close>

definition read_segment :: "descriptor_t \<Rightarrow> segment option" where
  "read_segment d =
     (if \<not> bit d 44 then None
      else let lim = bits_of 15 0 d + 2 ^ 16 * bits_of 51 48 d
           in Some \<lparr>seg_base = bits_of 39 16 d + 2 ^ 24 * bits_of 63 56 d,
                seg_limit = (if bit d 55 then 4096 * lim + 4095 else lim),
                seg_executable = bit d 43, seg_rw = bit d 41, seg_dpl = bits_of 46 45 d, seg_present = bit d 47,
                seg_64 = bit d 53, seg_32 = bit d 54\<rparr>)"

section \<open>Every vector leads to its thunk\<close>

lemma join_address:
  "take_bit 16 x + 2 ^ 16 * take_bit 16 (drop_bit 16 x) + 2 ^ 32 * take_bit 32 (drop_bit 32 x) = (x :: 64 word)"
proof -
  have "push_bit 32 (drop_bit 32 x) + take_bit 32 x = x"
    by (rule bits_ident)
  moreover have "push_bit 16 (take_bit 16 (drop_bit 16 x)) + take_bit 16 x = take_bit 32 x"
    using bits_ident [of 16 "take_bit 32 x"] by (simp add: drop_bit_take_bit)
  moreover have "take_bit 32 (drop_bit 32 x) = drop_bit 32 x"
    by (rule bit_word_eqI) (auto simp: bit_take_bit_iff bit_drop_bit_eq dest: bit_imp_le_length)
  ultimately show ?thesis
    by (simp add: push_bit_eq_mult algebra_simps)
qed

lemma low_eq:
  "INTERRUPT_DESCRIPTOR_LOW addr 0 0 =
     take_bit 16 addr OR (0x8E0000080000 OR push_bit 48 (take_bit 16 (drop_bit 16 addr)))"
proof -
  have mask: "(0xFFFF :: 64 word) = mask 16"
    by (simp add: mask_eq_exp_minus_1)
  have fixed: "(push_bit 16 (of_nat KERNEL_CS) OR DESC_IST 0) OR (DESC_INTERRUPT_GATE OR DESC_DPL 0 OR DESC_PRESENT) = 0x8E0000080000"
    by (simp add: selectors DESC_IST_def DESC_INTERRUPT_GATE_def DESC_DPL_def DESC_PRESENT_def)
  have "INTERRUPT_DESCRIPTOR_LOW addr 0 0 =
    (addr AND 0xFFFF) OR (((push_bit 16 (of_nat KERNEL_CS) OR DESC_IST 0) OR (DESC_INTERRUPT_GATE OR DESC_DPL 0 OR DESC_PRESENT)) OR
      push_bit 48 (drop_bit 16 addr AND 0xFFFF))"
    by (simp only: INTERRUPT_DESCRIPTOR_LOW_def ac_simps)
  then show ?thesis
    by (simp only: fixed mask take_bit_eq_mask)
qed

lemma field_parts:
  "16 \<le> n \<Longrightarrow> drop_bit n (take_bit 16 (x :: 64 word)) = 0"
  "n + k \<le> 48 \<Longrightarrow> take_bit k (drop_bit n (push_bit 48 (x :: 64 word))) = 0"
  "drop_bit 48 (push_bit 48 (take_bit 16 (x :: 64 word))) = take_bit 16 x"
  by (rule bit_word_eqI, auto simp: bit_take_bit_iff bit_drop_bit_eq bit_push_bit_iff dest: bit_imp_le_length)+

lemma read_thunk_gate:
  "read_gate \<lparr>gate_low = INTERRUPT_DESCRIPTOR_LOW addr 0 0, gate_high = INTERRUPT_DESCRIPTOR_HIGH addr\<rparr> =
     \<lparr>gate_offset = addr, gate_selector = of_nat KERNEL_CS, gate_ist = 0, gate_type = 14, gate_dpl = 0, gate_present = True\<rparr>"
  by (simp add: read_gate_def low_eq bits_of_def take_bit_or drop_bit_or selectors field_parts field_parts(2) [of 0, simplified]
      bit_or_iff INTERRUPT_DESCRIPTOR_HIGH_def join_address [simplified])

lemma idt_loop_eq:
  "i + n \<le> length idt \<Longrightarrow> length (idt_loop t n i idt) = length idt \<and>
     (\<forall>j < length idt. idt_loop t n i idt ! j =
        (if i \<le> j \<and> j < i + n
         then \<lparr>gate_low = INTERRUPT_DESCRIPTOR_LOW (t + of_nat (IDT_THUNK_SIZE * j)) 0 0,
               gate_high = INTERRUPT_DESCRIPTOR_HIGH (t + of_nat (IDT_THUNK_SIZE * j))\<rparr>
         else idt ! j))"
  by (induction t n i idt rule: idt_loop.induct) (auto simp: Let_def nth_list_update)

lemma code_segment:
  "read_segment (g_gdt ! DESC_IDX KERNEL_CS) = Some \<lparr>seg_base = 0, seg_limit = 0xFFFFFFFF, seg_executable = True, seg_rw = True,
     seg_dpl = 0, seg_present = True, seg_64 = True, seg_32 = False\<rparr>"
  by (simp add: read_segment_def g_gdt_def selectors segment_defs bits_of_def Let_def)

text \<open>The order \<^verbatim>\<open>SYSCALL\<close> and \<^verbatim>\<open>SYSRET\<close> ask for, and the segments of user space.\<close>

lemma user_selectors:
  "KERNEL_SS = KERNEL_CS + 8" "USER_SS = USER_CS_COMPAT + 8" "USER_CS = USER_CS_COMPAT + 16"
  by (simp_all add: selectors)

lemma user_code_segment:
  "read_segment (g_gdt ! DESC_IDX USER_CS) = Some \<lparr>seg_base = 0, seg_limit = 0xFFFFFFFF, seg_executable = True, seg_rw = True,
     seg_dpl = 3, seg_present = True, seg_64 = True, seg_32 = False\<rparr>"
  by (simp add: read_segment_def g_gdt_def selectors segment_defs bits_of_def Let_def)

lemma user_data_segment:
  "read_segment (g_gdt ! DESC_IDX USER_SS) = Some \<lparr>seg_base = 0, seg_limit = 0xFFFFFFFF, seg_executable = False, seg_rw = True,
     seg_dpl = 3, seg_present = True, seg_64 = False, seg_32 = True\<rparr>"
  by (simp add: read_segment_def g_gdt_def selectors segment_defs bits_of_def Let_def)

text \<open>
  C15: After \<^verbatim>\<open>arch_init_early\<close> every interrupt vector has a present interrupt gate, for the kernel only and
  without a stack of its own, that leads to its thunk in the segment \<^verbatim>\<open>KERNEL_CS\<close>; that segment is a
  present 64-bit code segment of the kernel over all of memory, and the two table registers are given
  the addresses and limits of the tables.
\<close>

theorem interrupts_reach_their_thunks:
  assumes "length idt = NUM_IDT_ENTRIES" "vector < NUM_IDT_ENTRIES"
  shows "case arch_init_early gdt_address idt_thunks idt_address idt of (gdtr, idtr, idt') \<Rightarrow>
    read_gate (idt' ! vector) =
      \<lparr>gate_offset = idt_thunks + of_nat (IDT_THUNK_SIZE * vector), gate_selector = of_nat KERNEL_CS, gate_ist = 0,
       gate_type = 14, gate_dpl = 0, gate_present = True\<rparr> \<and>
    read_segment (g_gdt ! DESC_IDX KERNEL_CS) =
      Some \<lparr>seg_base = 0, seg_limit = 0xFFFFFFFF, seg_executable = True, seg_rw = True, seg_dpl = 0,
            seg_present = True, seg_64 = True, seg_32 = False\<rparr> \<and>
    gdtr = \<lparr>dp_limit = 47, dp_base = gdt_address\<rparr> \<and> idtr = \<lparr>dp_limit = 4095, dp_base = idt_address\<rparr>"
  using idt_loop_eq [of 0 NUM_IDT_ENTRIES idt idt_thunks] assms read_thunk_gate code_segment
  by (simp add: arch_init_early_def idt_init_def idt_load_def Let_def NUM_IDT_ENTRIES_def g_gdt_def selectors)

theorem interrupts_reach_their_thunks_witness:
  "gate_offset (read_gate (snd (snd (arch_init_early 0x1000 0xFFFFFFFF80100000 0x2000
     (replicate 256 \<lparr>gate_low = 0, gate_high = 0\<rparr>))) ! 14)) = 0xFFFFFFFF80100070"
  using interrupts_reach_their_thunks [of "replicate 256 \<lparr>gate_low = 0, gate_high = 0\<rparr>" 14 "0xFFFFFFFF80100000" "0x1000" "0x2000"]
  by (auto simp: NUM_IDT_ENTRIES_def IDT_THUNK_SIZE_def split: prod.splits)

end
