(* ===== verification/Entry.thy ===== *)
theory Entry
  imports BootContext Descriptors ParamTheorems BootAllocTheorems Unwind
begin

text \<open>
  The start of the kernel: \<^verbatim>\<open>entry\<close> of \<^verbatim>\<open>kernel/entry.c\<close> and \<^verbatim>\<open>x86_entry\<close> of \<^verbatim>\<open>arch/x86/entry.c\<close>, which
  bring the components together: the descriptor tables, the context of the loader, the command line,
  the unwinder and the allocator. The result is the state in which the final endless loop is reached,
  with the messages of \<^verbatim>\<open>entry\<close> itself in order, as format and arguments.
\<close>

section \<open>The memory map of the loader\<close>

text \<open>\<^verbatim>\<open>ULTRA_MEMORY_MAP_ENTRY_COUNT\<close>; \<open>sizeof\<close> is a 64-bit number.\<close>

definition ULTRA_MEMORY_MAP_ENTRY_COUNT :: "32 word \<Rightarrow> 64 word" where
  "ULTRA_MEMORY_MAP_ENTRY_COUNT n = (ucast n - 8) div 24"

definition map_entry_at :: "8 word list \<Rightarrow> nat \<Rightarrow> ultra_memory_map_entry res" where
  "map_entry_at blob off =
     bind_res (field_at blob off 8) (\<lambda>p.
     bind_res (field_at blob (off + 8) 8) (\<lambda>n.
     bind_res (field_at blob (off + 16) 8) (\<lambda>t.
       Inr \<lparr>entry_physical_address = of_nat p, entry_size = of_nat n, entry_type = of_nat t\<rparr>)))"

fun map_entries :: "8 word list \<Rightarrow> nat \<Rightarrow> nat \<Rightarrow> ultra_memory_map_entry list res" where
  "map_entries blob off 0 = Inr []"
| "map_entries blob off (Suc n) =
     bind_res (map_entry_at blob off) (\<lambda>e. bind_res (map_entries blob (off + 24) n) (\<lambda>es. Inr (e # es)))"

definition memory_map_entries :: "8 word list \<Rightarrow> nat \<Rightarrow> ultra_memory_map_entry list res" where
  "memory_map_entries blob mm =
     bind_res (attribute_size blob mm) (\<lambda>n. map_entries blob (mm + 8) (unat (ULTRA_MEMORY_MAP_ENTRY_COUNT n)))"

section \<open>The entry point\<close>

text \<open>What the tables of the architecture are given is in \<open>k_tables\<close>.\<close>

record kernel =
  k_tables :: "descriptor_ptr \<times> descriptor_ptr \<times> interrupt_descriptor list"
  k_boot_ctx :: boot_context
  k_direct_map_base :: "64 word"
  k_params :: "param list"
  k_param_events :: "cmdline_event list"
  k_unwinder :: unwinder
  k_allocator :: boot_alloc_state
  k_messages :: "(char list \<times> va_arg list) list"

text \<open>What comes with the image: its addresses, its parameters, and the strings the compiler puts in.\<close>

record kernel_image =
  i_gdt_address :: "64 word"
  i_idt_thunks :: "64 word"
  i_idt_address :: "64 word"
  i_idt :: "interrupt_descriptor list"
  i_eh :: eh_image
  i_unwinder :: unwinder
  i_params :: "param list"
  i_build_strings :: "va_arg list"
  i_warn_args :: "va_arg list"

definition info_message :: "char list \<Rightarrow> char list" where
  "info_message msg = [CHR 0x01, CHR ''6''] @ ''entry: '' @ msg @ [CHR 0x0A]"

definition warn_message :: "char list \<Rightarrow> char list" where
  "warn_message msg = [CHR 0x01, CHR ''4''] @ ''entry: '' @ msg @ [CHR 0x0A]"

definition c_text :: "char list \<Rightarrow> va_arg" where
  "c_text str = Va_chars (Ptr (str @ [NUL]))"

fun boot_warning_message :: "va_arg list \<Rightarrow> boot_warning \<Rightarrow> char list \<times> va_arg list" where
  "boot_warning_message warn_args Warn_On = (warn_message ''WARNING: At %s() in file %s:%d'', warn_args)"
| "boot_warning_message warn_args (Unhandled type) = (warn_message ''Unhandled ultra attribute 0x%08X'', [Va_int type])"

definition entry :: "nat \<Rightarrow> kernel_image \<Rightarrow> 8 word list \<Rightarrow> kernel res" where
  "entry fuel img ctx =
     bind_res (boot_context_init ctx zero_boot_context) (\<lambda>(g_boot_ctx, warnings).
     let pi = the (platform_info g_boot_ctx)
     in bind_res (higher_half_base ctx pi) (\<lambda>base.
        bind_res (cmdline_parse (boot_cmdline g_boot_ctx) (i_params img) False) (\<lambda>(rest, params, events).
        bind_res (platform_type ctx pi) (\<lambda>ptype.
        bind_res (page_table_depth ctx pi) (\<lambda>depth.
        bind_res (unwind_init (i_eh img) (i_unwinder img)) (\<lambda>(ret, unwinder).
        bind_res (memory_map_entries ctx (the (boot_memory_map g_boot_ctx))) (\<lambda>entries.
        bind_res (boot_alloc_init fuel (initial_state base) entries) (\<lambda>allocator.
          Inr \<lparr>k_tables = arch_init_early (i_gdt_address img) (i_idt_thunks img) (i_idt_address img) (i_idt img),
               k_boot_ctx = g_boot_ctx, k_direct_map_base = base, k_params = params, k_param_events = events,
               k_unwinder = unwinder, k_allocator = allocator,
               k_messages =
                 [(''Starting ultra kernel v0.0.1 on %s (@%s, built on %s %s)'' @ [CHR 0x0A], i_build_strings img)] @
                 map (boot_warning_message (i_warn_args img)) warnings @
                 [(info_message ''booted via %s (by %s)'',
                    [c_text (platform_type_to_string ptype), Va_chars (chars_from ctx (loader_name pi))]),
                  (info_message ''direct map set at 0x%016zX (%d pt levels)'', [Va_long base, Va_int (ucast depth)]),
                  (''Kernel command line: '' @ [CHR 0x22] @ ''%s'' @ [CHR 0x22, CHR 0x0A],
                    [if str_empty (boot_cmdline g_boot_ctx) then c_text ''<empty>''
                     else Va_chars (str_text (boot_cmdline g_boot_ctx))])] @
                 (if ret \<noteq> 0
                  then [(warn_message (''unwind_init() error %d, stack traces won'' @ [CHR 0x27] @ ''t be available''), [Va_int ret])]
                  else [])\<rparr>))))))))"

text \<open>Without the magic number of the protocol the kernel loops.\<close>

definition x86_entry :: "nat \<Rightarrow> kernel_image \<Rightarrow> 8 word list \<Rightarrow> 32 word \<Rightarrow> kernel res" where
  "x86_entry fuel img ctx magic = (if magic \<noteq> ULTRA_MAGIC then Inl Hang else entry fuel img ctx)"

section \<open>Booting\<close>

definition encode_map_entry :: "ultra_memory_map_entry \<Rightarrow> 8 word list" where
  "encode_map_entry e =
     le_bytes 8 (unat (entry_physical_address e)) @ le_bytes 8 (unat (entry_size e)) @ le_bytes 8 (unat (entry_type e))"

definition encode_map :: "ultra_memory_map_entry list \<Rightarrow> 8 word list" where
  "encode_map es = concat (map encode_map_entry es)"

definition last_attr :: "32 word \<Rightarrow> attr list \<Rightarrow> attr" where
  "last_attr t as = last (filter (\<lambda>a. a_type a = t) as)"

lemma field_inside:
  assumes "drop off blob = bs @ rest" "k + n \<le> length bs" "0 < n"
  shows "field_at blob (off + k) n = Inr (le_nat (take n (drop k bs)))"
proof -
  have "length (drop off blob) = length bs + length rest"
    unfolding assms(1) by simp
  then have "off + k + n \<le> length blob"
    using assms(2,3) by simp
  moreover have "drop (off + k) blob = drop k bs @ rest"
    using drop_later [of off blob "take k bs" "drop k bs @ rest" k] assms by simp
  ultimately show ?thesis
    using assms(2) by (simp add: field_at_def)
qed

lemma map_entry_read:
  assumes "drop off blob = encode_map_entry e @ rest"
  shows "map_entry_at blob off = Inr e"
proof -
  note parts = assms [unfolded encode_map_entry_def, simplified]
  note size_at = drop_later [OF parts, of 8, simplified] and type_at = drop_later [OF drop_later [OF parts, of 8, simplified], of 8, simplified]
  show ?thesis
    using field_at_le_bytes [OF parts] field_at_le_bytes [OF size_at] field_at_le_bytes [OF type_at]
    by (simp add: map_entry_at_def add.commute [of 16])
qed

lemma map_entries_read:
  "drop off blob = encode_map es @ rest \<Longrightarrow> map_entries blob off (length es) = Inr es"
proof (induction es arbitrary: off)
  case (Cons e es)
  then have e: "drop off blob = encode_map_entry e @ (encode_map es @ rest)"
    by (simp add: encode_map_def)
  have "length (encode_map_entry e) = 24"
    by (simp add: encode_map_entry_def)
  with Cons.IH [OF drop_later [OF e]] map_entry_read [OF e] show ?case
    by simp
qed simp

lemma length_encode_map: "length (encode_map es) = 24 * length es"
  by (induction es) (simp_all add: encode_map_def encode_map_entry_def)

lemma memory_map_read:
  assumes "drop mm blob = encode_attr a @ rest" "wf_attr a" "a_payload a = encode_map es"
  shows "memory_map_entries blob mm = Inr es"
proof -
  have "drop (mm + 4) blob = le_bytes 4 (8 + length (a_payload a)) @ a_payload a @ rest"
    using drop_later [of mm blob "le_bytes 4 (unat (a_type a))" _ 4] assms(1) by (simp add: encode_attr_def)
  note sz = field_at_le_bytes [OF this]
  let ?n = "8 + 24 * length es"
  have n: "?n < 2 ^ 32"
    using assms(2,3) by (simp add: wf_attr_def length_encode_map)
  then have "attribute_size blob mm = Inr (of_nat ?n)"
    using sz assms(3) by (simp add: attribute_size_def length_encode_map)
  moreover have "unat (ULTRA_MEMORY_MAP_ENTRY_COUNT (of_nat ?n)) = length es"
  proof -
    have "(ucast (of_nat ?n :: 32 word) :: 64 word) = of_nat ?n"
      using n by (simp only: word_unat_eq_iff unsigned_ucast_eq unsigned_of_nat) (simp add: take_bit_nat_eq_self)
    then have "(ucast (of_nat ?n :: 32 word) :: 64 word) - 8 = of_nat (24 * length es)"
      by simp
    moreover have "unat (of_nat (24 * length es) :: 64 word) = 24 * length es"
      using n by (simp only: unsigned_of_nat) (simp add: take_bit_nat_eq_self)
    ultimately show ?thesis
      by (simp add: ULTRA_MEMORY_MAP_ENTRY_COUNT_def unat_div_distrib del: of_nat_add of_nat_mult)
  qed
  ultimately show ?thesis
    using map_entries_read [of "mm + 8" blob es rest] header_fields(3) [OF assms(1,2)] assms(3)
    by (simp add: memory_map_entries_def)
qed

text \<open>Where an attribute is.\<close>

lemma placed_snd: "map snd (placed off as) = as"
  by (induction as arbitrary: off) simp_all

lemma placed_at:
  "(p, a) \<in> set (placed off as) \<Longrightarrow> drop off blob = encode_attrs as \<Longrightarrow> \<exists>rest. drop p blob = encode_attr a @ rest"
proof (induction as arbitrary: off)
  case (Cons b as)
  then have b: "drop off blob = encode_attr b @ encode_attrs as"
    by (simp add: encode_attrs_def)
  show ?case
    using Cons.prems(1) Cons.IH [of "off + length (encode_attr b)"] drop_later [OF b] b by auto
qed simp

lemma last_of_placed:
  assumes "t \<in> a_type ` set as" "drop off blob = encode_attrs as"
  shows "\<exists>p rest. last_of t (placed off as) = Some p \<and> drop p blob = encode_attr (last_attr t as) @ rest \<and>
    last_attr t as \<in> set as \<and> a_type (last_attr t as) = t"
proof -
  let ?ps = "of_type t (placed off as)"
  have snds: "map snd ?ps = filter (\<lambda>a. a_type a = t) as"
    using placed_snd [of off as] unfolding of_type_def by (metis (mono_tags, lifting) filter_map comp_apply filter_cong)
  have "filter (\<lambda>a. a_type a = t) as \<noteq> []"
    using assms(1) by (auto simp: filter_empty_conv)
  then have "last_attr t as \<in> set (filter (\<lambda>a. a_type a = t) as)"
    unfolding last_attr_def by (rule last_in_set)
  moreover have ps: "?ps \<noteq> []"
    using snds \<open>filter _ as \<noteq> []\<close> by fastforce
  moreover have "snd (last ?ps) = last_attr t as"
    unfolding last_attr_def snds [symmetric] using ps by (simp add: last_map)
  moreover have "last ?ps \<in> set (placed off as)"
    using last_in_set [OF ps] by (simp add: of_type_def)
  ultimately have "(fst (last ?ps), last_attr t as) \<in> set (placed off as)" "last_attr t as \<in> set (filter (\<lambda>a. a_type a = t) as)"
    by (metis prod.collapse, blast)
  then show ?thesis
    using placed_at [OF _ assms(2)] ps by (auto simp: last_of_def)
qed


definition example_image :: kernel_image where
  "example_image =
     \<lparr>i_gdt_address = 0, i_idt_thunks = 0, i_idt_address = 0, i_idt = [],
      i_eh = \<lparr>image_mem = Map.empty, text_begin = 0, eh_frame_hdr_begin = 0, eh_frame_hdr_end = 0, eh_frame_begin = 0\<rparr>,
      i_unwinder = \<lparr>g_unwinder_available = False, g_fde_binary_search_table = 0, g_fde_table_encoding = 0,
        g_fde_table_entry_width = 0, g_num_fdes = 0\<rparr>,
      i_params = [], i_build_strings = [], i_warn_args = []\<rparr>"

definition example_boot :: "attr list" where
  "example_boot =
     [\<lparr>a_type = 1, a_payload = replicate 64 1\<rparr>, \<lparr>a_type = 2, a_payload = []\<rparr>,
      \<lparr>a_type = 3, a_payload = encode_map sample_entries\<rparr>]"


end
