(* ===== verification/Interrupts.thy ===== *)
theory Interrupts
  imports Descriptors Log
begin

text \<open>
  Interrupts and exceptions on x86: the thunks and the saving of registers in \<^verbatim>\<open>arch/x86/interrupts.S\<close>
  with the layout of \<^verbatim>\<open>asm_registers.h\<close>, and the handlers of \<^verbatim>\<open>exceptions.c\<close> and \<^verbatim>\<open>irq.c\<close>. The stack is the
  list of its 64-bit words, the top first; \<open>registers\<close> is both the state of the processor and, read from
  the stack, the \<^verbatim>\<open>struct registers\<close> a handler gets.
\<close>

section \<open>Layout\<close>

definition REG_AFTER :: "nat \<Rightarrow> nat" where "REG_AFTER x = x + unat ULTRA_ARCH_WIDTH"
definition R15_OFFSET :: nat where "R15_OFFSET = 0"
definition R14_OFFSET :: nat where "R14_OFFSET = REG_AFTER R15_OFFSET"
definition R13_OFFSET :: nat where "R13_OFFSET = REG_AFTER R14_OFFSET"
definition R12_OFFSET :: nat where "R12_OFFSET = REG_AFTER R13_OFFSET"
definition RBP_OFFSET :: nat where "RBP_OFFSET = REG_AFTER R12_OFFSET"
definition RBX_OFFSET :: nat where "RBX_OFFSET = REG_AFTER RBP_OFFSET"
definition R11_OFFSET :: nat where "R11_OFFSET = REG_AFTER RBX_OFFSET"
definition R10_OFFSET :: nat where "R10_OFFSET = REG_AFTER R11_OFFSET"
definition R9_OFFSET :: nat where "R9_OFFSET = REG_AFTER R10_OFFSET"
definition R8_OFFSET :: nat where "R8_OFFSET = REG_AFTER R9_OFFSET"
definition RAX_OFFSET :: nat where "RAX_OFFSET = REG_AFTER R8_OFFSET"
definition RCX_OFFSET :: nat where "RCX_OFFSET = REG_AFTER RAX_OFFSET"
definition RDX_OFFSET :: nat where "RDX_OFFSET = REG_AFTER RCX_OFFSET"
definition RSI_OFFSET :: nat where "RSI_OFFSET = REG_AFTER RDX_OFFSET"
definition RDI_OFFSET :: nat where "RDI_OFFSET = REG_AFTER RSI_OFFSET"
definition GP_REGS_END_OFFSET :: nat where "GP_REGS_END_OFFSET = REG_AFTER RDI_OFFSET"
definition AUX_OFFSET :: nat where "AUX_OFFSET = GP_REGS_END_OFFSET"
definition IRETQ_FRAME_OFFSET :: nat where "IRETQ_FRAME_OFFSET = REG_AFTER AUX_OFFSET"
definition RIP_OFFSET :: nat where "RIP_OFFSET = IRETQ_FRAME_OFFSET"
definition CS_OFFSET :: nat where "CS_OFFSET = REG_AFTER RIP_OFFSET"
definition FLAGS_OFFSET :: nat where "FLAGS_OFFSET = REG_AFTER CS_OFFSET"
definition RSP_OFFSET :: nat where "RSP_OFFSET = REG_AFTER FLAGS_OFFSET"
definition SS_OFFSET :: nat where "SS_OFFSET = REG_AFTER RSP_OFFSET"
definition IRETQ_FRAME_END_OFFSET :: nat where "IRETQ_FRAME_END_OFFSET = REG_AFTER SS_OFFSET"
definition INTERRUPT_FRAME_SIZE :: nat where "INTERRUPT_FRAME_SIZE = IRETQ_FRAME_END_OFFSET - IRETQ_FRAME_OFFSET"

lemmas register_offsets = REG_AFTER_def R15_OFFSET_def R14_OFFSET_def R13_OFFSET_def R12_OFFSET_def RBP_OFFSET_def
  RBX_OFFSET_def R11_OFFSET_def R10_OFFSET_def R9_OFFSET_def R8_OFFSET_def RAX_OFFSET_def RCX_OFFSET_def RDX_OFFSET_def
  RSI_OFFSET_def RDI_OFFSET_def GP_REGS_END_OFFSET_def AUX_OFFSET_def IRETQ_FRAME_OFFSET_def RIP_OFFSET_def CS_OFFSET_def FLAGS_OFFSET_def RSP_OFFSET_def SS_OFFSET_def
  IRETQ_FRAME_END_OFFSET_def INTERRUPT_FRAME_SIZE_def
  ULTRA_ARCH_WIDTH_def

text \<open>The \<^verbatim>\<open>struct registers\<close> at the top of the stack.\<close>

definition word_at :: "64 word list \<Rightarrow> nat \<Rightarrow> 64 word" where
  "word_at st off = st ! (off div unat ULTRA_ARCH_WIDTH)"

definition registers_at :: "64 word list \<Rightarrow> registers" where
  "registers_at st =
     \<lparr>r15 = word_at st R15_OFFSET, r14 = word_at st R14_OFFSET, r13 = word_at st R13_OFFSET, r12 = word_at st R12_OFFSET,
      rbp = word_at st RBP_OFFSET, rbx = word_at st RBX_OFFSET, r11 = word_at st R11_OFFSET, r10 = word_at st R10_OFFSET,
      r9 = word_at st R9_OFFSET, r8 = word_at st R8_OFFSET, rax = word_at st RAX_OFFSET, rcx = word_at st RCX_OFFSET,
      rdx = word_at st RDX_OFFSET, rsi = word_at st RSI_OFFSET, rdi = word_at st RDI_OFFSET, error_code = word_at st AUX_OFFSET,
      rip = word_at st RIP_OFFSET, cs = word_at st CS_OFFSET, flags = word_at st FLAGS_OFFSET, rsp = word_at st RSP_OFFSET,
      ss = word_at st SS_OFFSET\<rparr>"

section \<open>The thunks\<close>

text \<open>Where a thunk jumps, and the byte it pushes, \<open>None\<close> when the processor pushes an error code.\<close>

datatype interrupt_handler = Handle string | Irq_Dispatch

record thunk =
  thunk_func :: interrupt_handler
  thunk_aux :: "8 word option"

definition exception_thunk :: "string \<Rightarrow> bool \<Rightarrow> thunk" where
  "exception_thunk name pushes_error_code =
     \<lparr>thunk_func = Handle name, thunk_aux = (if pushes_error_code then None else Some 0xFF)\<rparr>"

definition reserved_thunk :: "8 word \<Rightarrow> thunk" where
  "reserved_thunk number = \<lparr>thunk_func = Handle ''reserved_exception'', thunk_aux = Some number\<rparr>"

definition irq_thunk :: "nat \<Rightarrow> thunk" where
  "irq_thunk irq_num = \<lparr>thunk_func = Irq_Dispatch, thunk_aux = Some (of_nat irq_num)\<rparr>"

definition NUM_X86_EXCEPTIONS :: nat where "NUM_X86_EXCEPTIONS = 32"

definition exception_thunks :: "thunk list" where
  "exception_thunks =
     [exception_thunk ''division_error'' False, exception_thunk ''debug'' False, exception_thunk ''nmi'' False,
      exception_thunk ''breakpoint'' False, exception_thunk ''overflow'' False, exception_thunk ''bound_range_exceeded'' False,
      exception_thunk ''invalid_opcode'' False, exception_thunk ''device_not_available'' False,
      exception_thunk ''double_fault'' True, exception_thunk ''coprocessor_segment_overrun'' False,
      exception_thunk ''invalid_tss'' True, exception_thunk ''segment_not_preset'' True,
      exception_thunk ''stack_segment_fault'' True, exception_thunk ''general_protection_fault'' True,
      exception_thunk ''page_fault'' True, reserved_thunk 15, exception_thunk ''fpu_exception'' False,
      exception_thunk ''alignment_check'' True, exception_thunk ''mce'' False, exception_thunk ''simd_fpu_exception'' False,
      exception_thunk ''virtualization_exception'' False, exception_thunk ''control_protection'' True,
      reserved_thunk 22, reserved_thunk 23, reserved_thunk 24, reserved_thunk 25, reserved_thunk 26, reserved_thunk 27,
      exception_thunk ''hypervisor_injection_exception'' False, exception_thunk ''vmm_communication_exception'' True,
      exception_thunk ''security_exception'' True, reserved_thunk 31]"

definition idt_thunk_table :: "thunk list" where
  "idt_thunk_table = exception_thunks @ map irq_thunk [0..<NUM_IDT_ENTRIES - NUM_X86_EXCEPTIONS]"

section \<open>Saving and restoring the registers\<close>

text \<open>The instructions used, on the registers and the stack. \<^verbatim>\<open>rsp\<close> is the position in the list; \<^verbatim>\<open>cld\<close>
  and the unwind hints change neither.\<close>

datatype reg = R15 | R14 | R13 | R12 | RBP | RBX | R11 | R10 | R9 | R8 | RAX | RCX | RDX | RSI | RDI

primrec get_reg :: "reg \<Rightarrow> registers \<Rightarrow> 64 word" where
  "get_reg R15 = r15" | "get_reg R14 = r14" | "get_reg R13 = r13" | "get_reg R12 = r12" | "get_reg RBP = rbp"
| "get_reg RBX = rbx" | "get_reg R11 = r11" | "get_reg R10 = r10" | "get_reg R9 = r9" | "get_reg R8 = r8"
| "get_reg RAX = rax" | "get_reg RCX = rcx" | "get_reg RDX = rdx" | "get_reg RSI = rsi" | "get_reg RDI = rdi"

primrec set_reg :: "reg \<Rightarrow> 64 word \<Rightarrow> registers \<Rightarrow> registers" where
  "set_reg R15 v = r15_update (\<lambda>_. v)" | "set_reg R14 v = r14_update (\<lambda>_. v)" | "set_reg R13 v = r13_update (\<lambda>_. v)"
| "set_reg R12 v = r12_update (\<lambda>_. v)" | "set_reg RBP v = rbp_update (\<lambda>_. v)" | "set_reg RBX v = rbx_update (\<lambda>_. v)"
| "set_reg R11 v = r11_update (\<lambda>_. v)" | "set_reg R10 v = r10_update (\<lambda>_. v)" | "set_reg R9 v = r9_update (\<lambda>_. v)"
| "set_reg R8 v = r8_update (\<lambda>_. v)" | "set_reg RAX v = rax_update (\<lambda>_. v)" | "set_reg RCX v = rcx_update (\<lambda>_. v)"
| "set_reg RDX v = rdx_update (\<lambda>_. v)" | "set_reg RSI v = rsi_update (\<lambda>_. v)" | "set_reg RDI v = rdi_update (\<lambda>_. v)"

datatype instr =
    Push reg
  | Pop reg
  | Load_Second reg  \<comment> \<open>\<^verbatim>\<open>mov reg, [rsp + ULTRA_ARCH_WIDTH]\<close>\<close>
  | Store_Second reg  \<comment> \<open>\<^verbatim>\<open>mov [rsp + ULTRA_ARCH_WIDTH], reg\<close>\<close>
  | Drop  \<comment> \<open>\<^verbatim>\<open>add rsp, ULTRA_ARCH_WIDTH\<close>\<close>

type_synonym cpu = "registers \<times> 64 word list"

fun exec_instr :: "instr \<Rightarrow> cpu \<Rightarrow> cpu res" where
  "exec_instr (Push r) (regs, st) = Inr (regs, get_reg r regs # st)"
| "exec_instr (Pop r) (regs, st) = (case st of [] \<Rightarrow> Inl Wild | v # st' \<Rightarrow> Inr (set_reg r v regs, st'))"
| "exec_instr (Load_Second r) (regs, st) = (if 1 < length st then Inr (set_reg r (st ! 1) regs, st) else Inl Wild)"
| "exec_instr (Store_Second r) (regs, st) = (if 1 < length st then Inr (regs, st[1 := get_reg r regs]) else Inl Wild)"
| "exec_instr Drop (regs, st) = (case st of [] \<Rightarrow> Inl Wild | v # st' \<Rightarrow> Inr (regs, st'))"

fun exec_instrs :: "instr list \<Rightarrow> cpu \<Rightarrow> cpu res" where
  "exec_instrs [] s = Inr s"
| "exec_instrs (i # is) s = bind_res (exec_instr i s) (exec_instrs is)"

text \<open>\<^verbatim>\<open>PUSH_GP_REGS preserve_ret_addr=1\<close> and \<^verbatim>\<open>POP_GP_REGS\<close>.\<close>

definition PUSH_GP_REGS :: "instr list" where
  "PUSH_GP_REGS =
     [Push RSI, Load_Second RSI, Store_Second RDI] @
     map Push [RDX, RCX, RAX, R8, R9, R10, R11, RBX, RBP, R12, R13, R14, R15] @ [Push RSI]"

definition POP_GP_REGS :: "instr list" where
  "POP_GP_REGS = map Pop [R15, R14, R13, R12, RBP, RBX, R11, R10, R9, R8, RAX, RCX, RDX, RSI, RDI]"

text \<open>\<^verbatim>\<open>interrupt_begin\<close> after its \<^verbatim>\<open>call\<close> pushed a return address, with its \<^verbatim>\<open>ret\<close>: the address returned to
  is the second result.\<close>

definition interrupt_begin :: "cpu \<Rightarrow> (cpu \<times> 64 word) res" where
  "interrupt_begin s =
     bind_res (exec_instrs PUSH_GP_REGS s) (\<lambda>(regs, st).
       case st of [] \<Rightarrow> Inl Wild | ret # st' \<Rightarrow> Inr ((regs, st'), ret))"

text \<open>\<^verbatim>\<open>iretq\<close> takes its frame from the stack; the rest of the list is the stack of the handler.\<close>

definition iretq :: "cpu \<Rightarrow> cpu res" where
  "iretq s = (case s of (regs, new_rip # new_cs # new_flags # new_rsp # new_ss # st) \<Rightarrow>
       Inr (regs\<lparr>rip := new_rip, cs := new_cs, flags := new_flags, rsp := new_rsp, ss := new_ss\<rparr>, st)
     | _ \<Rightarrow> Inl Wild)"

definition interrupt_end :: "cpu \<Rightarrow> cpu res" where
  "interrupt_end s = bind_res (exec_instrs (POP_GP_REGS @ [Drop]) s) iretq"

text \<open>The processor enters a thunk: its frame, and the error code of the vectors that have one.\<close>

definition interrupt_frame :: "registers \<Rightarrow> 64 word option \<Rightarrow> 64 word list \<Rightarrow> 64 word list" where
  "interrupt_frame regs err st =
     (case err of None \<Rightarrow> [] | Some e \<Rightarrow> [e]) @ [rip regs, cs regs, flags regs, rsp regs, ss regs] @ st"

text \<open>A thunk with its trampoline up to the call of the handler: the sign-extended byte, the call of
  \<open>interrupt_begin\<close> with the return address \<open>here\<close>. The result is where execution goes on and the state in
  which the handler is called with the top of the stack.\<close>

definition enter_handler :: "thunk \<Rightarrow> 64 word \<Rightarrow> cpu \<Rightarrow> (interrupt_handler \<times> cpu \<times> 64 word) res" where
  "enter_handler t here s = (case s of (regs, st) \<Rightarrow>
     let st' = (case thunk_aux t of None \<Rightarrow> st | Some b \<Rightarrow> scast b # st)
     in bind_res (interrupt_begin (regs, here # st')) (\<lambda>(s', ret). Inr (thunk_func t, s', ret)))"

section \<open>The handlers\<close>

text \<open>\<^verbatim>\<open>STUB_EXCEPTION\<close> and the handler of page faults, \<open>cr2\<close> the address the processor left in that register.
  Both end in \<^verbatim>\<open>panic\<close>, which does not return.\<close>

definition handle_exception ::
  "nat \<Rightarrow> eh_image \<Rightarrow> unwinder \<Rightarrow> registers \<Rightarrow> unwind_state \<Rightarrow> bool \<Rightarrow> symbol_tables \<Rightarrow> 8 word list \<Rightarrow>
   'c console_state \<Rightarrow> ('c \<Rightarrow> char list \<Rightarrow> 'd \<Rightarrow> 'd) \<Rightarrow> 64 word \<Rightarrow> char list \<Rightarrow> string \<Rightarrow> 64 word \<Rightarrow>
   bool \<times> char list \<times> 'd \<Rightarrow> (bool \<times> char list \<times> 'd) res"
where
  "handle_exception fuel im u cpu st late t sym_buf reg con_write return_address panic_buf name cr2 s =
     (if name = ''page_fault''
      then panic fuel im u cpu st late t sym_buf reg con_write return_address panic_buf
             (''Page fault at 0x%016llX'' @ [CHR 0x0A]) [Va_long cr2] s
      else panic fuel im u cpu st late t sym_buf reg con_write return_address panic_buf
             (''Unexpected exception: %s'' @ [CHR 0x0A]) [Va_chars (Ptr (name @ [NUL]))] s)"

text \<open>\<^verbatim>\<open>interrupt_idx\<close> is the low byte of the word of the union.\<close>

definition interrupt_idx :: "registers \<Rightarrow> 8 word" where
  "interrupt_idx regs = ucast (error_code regs)"

definition irq_dispatch ::
  "'c console_state \<Rightarrow> ('c \<Rightarrow> char list \<Rightarrow> 'd \<Rightarrow> 'd) \<Rightarrow> registers \<Rightarrow> char list \<times> 'd \<Rightarrow> (char list \<times> 'd) res"
where
  "irq_dispatch reg con_write regs log =
     pr_warn reg con_write (''Unexpected irq %u'' @ [CHR 0x0A]) [Va_int (ucast (interrupt_idx regs))] log"

text \<open>\<^verbatim>\<open>X86_IRQ_DISPATCH_ASM\<close> after the thunk of a vector: the C code leaves the registers as \<open>clobber\<close> says
  and the saved ones on the stack as they are.\<close>

definition serve_irq ::
  "'c console_state \<Rightarrow> ('c \<Rightarrow> char list \<Rightarrow> 'd \<Rightarrow> 'd) \<Rightarrow> (registers \<Rightarrow> registers) \<Rightarrow> nat \<Rightarrow> 64 word \<Rightarrow>
   cpu \<times> char list \<times> 'd \<Rightarrow> (cpu \<times> char list \<times> 'd) res"
where
  "serve_irq reg con_write clobber vector here s = (case s of (c, log) \<Rightarrow>
     bind_res (enter_handler (idt_thunk_table ! vector) here c) (\<lambda>(_, (regs, st), _).
     bind_res (irq_dispatch reg con_write (registers_at st) log) (\<lambda>log'.
     bind_res (interrupt_end (clobber regs, st)) (\<lambda>c'. Inr (c', log')))))"

section \<open>What the handlers get, and what is restored\<close>

text \<open>The vectors for which the processor itself pushes an error code.\<close>

definition cpu_pushes_error_code :: "nat \<Rightarrow> bool" where
  "cpu_pushes_error_code v \<longleftrightarrow> v \<in> {8, 10, 11, 12, 13, 14, 17, 21, 29, 30}"

lemma length_exception_thunks: "length exception_thunks = NUM_X86_EXCEPTIONS"
  by (simp add: exception_thunks_def NUM_X86_EXCEPTIONS_def)

lemma length_idt_thunk_table: "length idt_thunk_table = NUM_IDT_ENTRIES"
  by (simp add: idt_thunk_table_def length_exception_thunks) (simp add: NUM_X86_EXCEPTIONS_def NUM_IDT_ENTRIES_def)

lemma idt_thunk_table_nth:
  "v < NUM_IDT_ENTRIES \<Longrightarrow>
     idt_thunk_table ! v = (if v < NUM_X86_EXCEPTIONS then exception_thunks ! v else irq_thunk (v - NUM_X86_EXCEPTIONS))"
  by (auto simp: idt_thunk_table_def nth_append length_exception_thunks)

lemma exception_thunk_aux:
  assumes "v < NUM_X86_EXCEPTIONS"
  shows "thunk_aux (exception_thunks ! v) = None \<longleftrightarrow> cpu_pushes_error_code v"
proof -
  have "\<forall>v \<in> set [0..<NUM_X86_EXCEPTIONS]. (thunk_aux (exception_thunks ! v) = None) = cpu_pushes_error_code v"
    by code_simp
  then show ?thesis using assms by auto
qed

lemma thunk_aux_None:
  "v < NUM_IDT_ENTRIES \<Longrightarrow> thunk_aux (idt_thunk_table ! v) = None \<longleftrightarrow> cpu_pushes_error_code v"
  by (auto simp: idt_thunk_table_nth exception_thunk_aux irq_thunk_def cpu_pushes_error_code_def NUM_X86_EXCEPTIONS_def)

text \<open>The hardware part of the frame is the five words an interrupt pushes.\<close>

lemma length_interrupt_frame:
  "unat ULTRA_ARCH_WIDTH * length (interrupt_frame regs None []) = INTERRUPT_FRAME_SIZE"
  by (simp add: interrupt_frame_def register_offsets)

text \<open>The words of \<^verbatim>\<open>struct registers\<close> in the order of the stack.\<close>

definition gp_words :: "registers \<Rightarrow> 64 word list" where
  "gp_words regs = map (\<lambda>r. get_reg r regs)
     [R15, R14, R13, R12, RBP, RBX, R11, R10, R9, R8, RAX, RCX, RDX, RSI, RDI]"

lemma interrupt_begin_pushes:
  "interrupt_begin (regs, here # st) = Inr ((regs\<lparr>rsi := here\<rparr>, gp_words regs @ st), here)"
  by (simp add: interrupt_begin_def PUSH_GP_REGS_def gp_words_def)

lemma registers_at_saved:
  "registers_at (gp_words regs @ aux # [rip regs, cs regs, flags regs, rsp regs, ss regs] @ st) = regs\<lparr>error_code := aux\<rparr>"
  by (simp add: registers_at_def word_at_def gp_words_def register_offsets)

lemma interrupt_end_restores:
  "interrupt_end (regs', gp_words regs @ aux # [rip regs, cs regs, flags regs, rsp regs, ss regs] @ st)
     = Inr (regs\<lparr>error_code := error_code regs'\<rparr>, st)"
  by (simp add: interrupt_end_def POP_GP_REGS_def gp_words_def iretq_def)

text \<open>The word above the general registers that the handler of vector \<open>v\<close> finds.\<close>

definition aux_word :: "nat \<Rightarrow> 64 word \<Rightarrow> 64 word" where
  "aux_word v e = (case thunk_aux (idt_thunk_table ! v) of None \<Rightarrow> e | Some b \<Rightarrow> scast b)"

lemma enter_handler_saves:
  assumes "v < NUM_IDT_ENTRIES"
  shows "enter_handler (idt_thunk_table ! v) here
           (regs, interrupt_frame regs (if cpu_pushes_error_code v then Some e else None) st)
         = Inr (thunk_func (idt_thunk_table ! v),
                (regs\<lparr>rsi := here\<rparr>, gp_words regs @ aux_word v e # [rip regs, cs regs, flags regs, rsp regs, ss regs] @ st), here)"
  using thunk_aux_None [OF assms]
  by (cases "thunk_aux (idt_thunk_table ! v)")
     (simp_all add: enter_handler_def interrupt_frame_def aux_word_def interrupt_begin_pushes)

section \<open>Properties\<close>

lemma scast_ucast_byte: "(ucast (scast b :: 64 word) :: 8 word) = b" for b :: "8 word"
  by (rule bit_word_eqI) (auto simp: bit_simps)

lemma aux_word_eq:
  assumes "v < NUM_IDT_ENTRIES"
  shows "cpu_pushes_error_code v \<Longrightarrow> aux_word v e = e"
    and "NUM_X86_EXCEPTIONS \<le> v \<Longrightarrow> ucast (aux_word v e) = (of_nat (v - NUM_X86_EXCEPTIONS) :: 8 word)"
proof -
  show "aux_word v e = e" if "cpu_pushes_error_code v"
    using that thunk_aux_None [OF assms] by (simp add: aux_word_def)
  show "ucast (aux_word v e) = (of_nat (v - NUM_X86_EXCEPTIONS) :: 8 word)" if "NUM_X86_EXCEPTIONS \<le> v"
    using that assms by (simp add: aux_word_def idt_thunk_table_nth irq_thunk_def scast_ucast_byte)
qed

text \<open>
  C20: Whatever the vector, its handler gets the interrupted registers, with the error code when the
  processor pushes one and the number of the interrupt as its low byte for the vectors from 32 on; and
  \<^verbatim>\<open>interrupt_end\<close>, whatever the handler left in the registers, gives back every register, the
  instruction pointer, the flags and the stack as they were at the interrupt.
\<close>

theorem interrupted_state_restored:
  assumes "v < NUM_IDT_ENTRIES"
  shows "\<exists>regs' st' aux.
    enter_handler (idt_thunk_table ! v) here (regs, interrupt_frame regs (if cpu_pushes_error_code v then Some e else None) st)
      = Inr (thunk_func (idt_thunk_table ! v), (regs', st'), here)
    \<and> registers_at st' = regs\<lparr>error_code := aux\<rparr>
    \<and> (cpu_pushes_error_code v \<longrightarrow> aux = e)
    \<and> (NUM_X86_EXCEPTIONS \<le> v \<longrightarrow> ucast aux = (of_nat (v - NUM_X86_EXCEPTIONS) :: 8 word))
    \<and> (\<forall>clobbered. interrupt_end (clobbered, st') = Inr (regs\<lparr>error_code := error_code clobbered\<rparr>, st))"
  unfolding enter_handler_saves [OF assms] using aux_word_eq [OF assms, of e]
  by (intro exI conjI) (rule refl, rule registers_at_saved, blast, blast, intro allI, rule interrupt_end_restores)

text \<open>A page fault, vector 14, with an error code; and the last interrupt, whose number is sign-extended.\<close>

theorem interrupted_state_restored_witness:
  "\<exists>regs' st'. enter_handler (idt_thunk_table ! 14) 0x1000
       (registers_at (map of_nat [0..<21]), interrupt_frame (registers_at (map of_nat [0..<21])) (Some 2) [])
     = Inr (Handle ''page_fault'', (regs', st'), 0x1000)
     \<and> registers_at st' = registers_at (map of_nat [0..<21])\<lparr>error_code := 2\<rparr>
     \<and> interrupt_end (regs', st') = Inr (registers_at (map of_nat [0..<21])\<lparr>error_code := error_code regs'\<rparr>, [])"
proof -
  have "thunk_func (idt_thunk_table ! 14) = Handle ''page_fault''"
    by (simp add: idt_thunk_table_nth NUM_IDT_ENTRIES_def NUM_X86_EXCEPTIONS_def exception_thunks_def exception_thunk_def)
  moreover have "cpu_pushes_error_code 14"
    by (simp add: cpu_pushes_error_code_def)
  moreover have "14 < NUM_IDT_ENTRIES"
    by (simp add: NUM_IDT_ENTRIES_def)
  ultimately show ?thesis
    using interrupted_state_restored [of 14 "0x1000" "registers_at (map of_nat [0..<21])" 2 "[]"]
    by (auto simp del: upt_rec_numeral; blast)
qed

text \<open>The text of the warning.\<close>

lemma irq_text:
  assumes "LOG_BUF_SIZE \<le> length buf"
  shows "vsnprintf buf LOG_BUF_SIZE (Ptr ((''Unexpected irq %u'' @ [CHR 0x0A]) @ [NUL])) [Va_int x]
    = Inr (printed buf LOG_BUF_SIZE (''Unexpected irq '' @ decimal (unat x) @ [CHR 0x0A]) None)"
proof -
  let ?fb = "\<lparr>buffer = buf, capacity = LOG_BUF_SIZE, bytes_written = 0\<rparr>"
  let ?l = "''Unexpected irq %u'' @ [CHR 0x0A]"
  have ok: "sink_ok ?fb"
    using assms by (simp add: sink_ok_def)
  have fmt: "STR_RUNTIME (Ptr (?l @ [NUL])) = Inr (STR_CONSTEXPR ?l)"
    by (rule str_runtime_literal) code_simp
  have u: "vsnprintf_step ?fb (STR_CONSTEXPR ?l) [Va_int x]
      = Inr (Continue (emit (emit ?fb ''Unexpected irq '') (integer_text initial_spec (ucast x))) (str_advance (STR_CONSTEXPR ?l) 17) [])"
    using step_u [OF ok, of "STR_CONSTEXPR ?l" "''Unexpected irq ''" "[CHR 0x0A]" x "[]"] by (simp add: eval_nat_numeral)
  have n: "vsnprintf_step fb (str_advance (STR_CONSTEXPR ?l) 17) [] = Inr (Finished (emit fb [CHR 0x0A]))" if "sink_ok fb" for fb
    using step_text [OF that, of "str_advance (STR_CONSTEXPR ?l) 17" "[]"] by simp
  have "unat (ucast x :: 64 word) = unat x"
    using unsigned_less [of x, where ?'a = nat] by (simp add: unsigned_ucast_eq take_bit_nat_eq_self)
  then have "vsnprintf_loop (Suc (Suc 17)) ?fb (STR_CONSTEXPR ?l) [Va_int x]
      = Inr (emit ?fb (''Unexpected irq '' @ decimal (unat x) @ [CHR 0x0A]), None)"
    using ok n unfolding vsnprintf_loop.simps u by (simp add: str_empty_def integer_text_unsigned)
  moreover have "str_size (STR_CONSTEXPR ?l) + 1 = Suc (Suc 17)"
    by simp
  ultimately show ?thesis
    by (intro vsnprintf_run [OF fmt assms]) (simp only:)
qed

text \<open>
  C21: An interrupt of a vector from 32 on, with the log buffer of the kernel, writes its number once to
  every registered console and then goes on where it came, with every register, the flags and the stack
  as they were.
\<close>

theorem unexpected_irq_exact:
  assumes "NUM_X86_EXCEPTIONS \<le> v" "v < NUM_IDT_ENTRIES" "registry reg ys" "LOG_BUF_SIZE \<le> length log_buf"
  shows "\<exists>log_buf' ec. serve_irq reg con_write clobber v here ((regs, interrupt_frame regs None st), log_buf, dev) =
    Inr ((regs\<lparr>error_code := ec\<rparr>, st), log_buf',
         fold (\<lambda>c. con_write c (''Unexpected irq '' @ decimal (v - NUM_X86_EXCEPTIONS) @ [CHR 0x0A])) ys dev)"
proof -
  let ?out = "''Unexpected irq '' @ decimal (v - NUM_X86_EXCEPTIONS) @ [CHR 0x0A]"
  let ?idx = "of_nat (v - NUM_X86_EXCEPTIONS) :: 8 word"
  have "v - NUM_X86_EXCEPTIONS < 2 ^ 8"
    using assms(2) by (simp add: NUM_IDT_ENTRIES_def)
  then have idx: "unat (ucast ?idx :: 32 word) = v - NUM_X86_EXCEPTIONS" "unat (ucast ?idx :: 64 word) = v - NUM_X86_EXCEPTIONS"
    by (simp_all add: unsigned_ucast_eq unsigned_of_nat take_bit_nat_eq_self)
  have "length ?out < LOG_BUF_SIZE"
    using decimal_length [of "ucast ?idx"] by (simp add: idx LOG_BUF_SIZE_def)
  then have len: "length ?out < 2 ^ 31" "take (LOG_BUF_SIZE - 1) ?out = ?out"
    by (simp_all add: LOG_BUF_SIZE_def)
  have "\<not> cpu_pushes_error_code v"
    using assms(1) by (auto simp: cpu_pushes_error_code_def NUM_X86_EXCEPTIONS_def)
  note saved = enter_handler_saves [OF assms(2), of here regs undefined st, unfolded if_not_P [OF this]]
  have "interrupt_idx (regs\<lparr>error_code := aux_word v undefined\<rparr>) = ?idx"
    using aux_word_eq(2) [OF assms(2,1)] by (simp add: interrupt_idx_def)
  then obtain log_buf' where "irq_dispatch reg con_write (regs\<lparr>error_code := aux_word v undefined\<rparr>) (log_buf, dev)
      = Inr (log_buf', fold (\<lambda>c. con_write c ?out) ys dev)"
    using print_levelled [OF irq_text [OF assms(4), of "ucast ?idx", unfolded idx] len(1) assms(3), of SYSLOG_WARNING con_write dev] len(2)
    by (auto simp: irq_dispatch_def pr_warn_def LOG_WARN_def log_levels)
  then show ?thesis
    by (simp add: serve_irq_def saved registers_at_saved [simplified] interrupt_end_restores [simplified]) blast
qed

text \<open>Vector 255, on two consoles, with handlers that leave \<^verbatim>\<open>rax\<close> changed.\<close>

theorem unexpected_irq_exact_witness:
  "\<exists>log_buf' ec. serve_irq \<lparr>consoles = Some (1 :: nat), con_next = (\<lambda>c. if c = 1 then Some 0 else None)\<rparr>
      (\<lambda>c text log. log @ [(c, text)]) (rax_update (\<lambda>_. 7)) 255 0x1000
      ((registers_at (map of_nat [0..<21]), interrupt_frame (registers_at (map of_nat [0..<21])) None [5]), replicate 256 NUL, []) =
    Inr ((registers_at (map of_nat [0..<21])\<lparr>error_code := ec\<rparr>, [5]), log_buf',
         [(1, ''Unexpected irq 223'' @ [CHR 0x0A]), (0, ''Unexpected irq 223'' @ [CHR 0x0A])])"
proof -
  let ?reg = "\<lparr>consoles = Some (1 :: nat), con_next = (\<lambda>c. if c = 1 then Some 0 else None)\<rparr>"
  have "registry ?reg [1, 0]"
    by (simp add: registry_def)
  moreover have "decimal 223 = ''223''"
    by code_simp
  ultimately show ?thesis
    using unexpected_irq_exact [of 255 ?reg "[1, 0]" "replicate 256 NUL" "\<lambda>c text log. log @ [(c, text)]" "rax_update (\<lambda>_. 7)"
        "0x1000" "registers_at (map of_nat [0..<21])" "[5]" "[]"]
    by (simp del: upt_rec_numeral add: NUM_X86_EXCEPTIONS_def NUM_IDT_ENTRIES_def LOG_BUF_SIZE_def)
qed

end
