(* ===== verification/Arm.thy ===== *)
theory Arm
  imports IoWindow BootContext
begin

text \<open>
  What the 64-bit Arm port has of its own, \<^verbatim>\<open>arch/arm\<close>: the layout of the registers for the unwinder, with
  the stub of \<^verbatim>\<open>unwind.S\<close>, mappings for I/O that are not supported yet, and the generic port functions of
  \<^verbatim>\<open>kernel/io.c\<close>, which stand where an architecture has none of its own. Names that x86 has too carry the
  prefix \<open>arm\<close>.
\<close>

section \<open>Registers\<close>

record arm_registers =
  arm_x :: "64 word list"
  arm_sp :: "64 word"
  arm_pc :: "64 word"
  arm_pstate :: "64 word"

definition DWARF_REG_X :: "nat \<Rightarrow> nat" where "DWARF_REG_X n = n"
definition DWARF_REG_SP :: nat where "DWARF_REG_SP = 31"
definition DWARF_REG_PC :: nat where "DWARF_REG_PC = 32"
definition ARM_NUM_DWARF_REGISTERS :: nat where "ARM_NUM_DWARF_REGISTERS = 33"
definition ARM_DWARF_PC_REG :: nat where "ARM_DWARF_PC_REG = DWARF_REG_PC"

lemmas arm_dwarf_defs = DWARF_REG_X_def DWARF_REG_SP_def DWARF_REG_PC_def ARM_NUM_DWARF_REGISTERS_def ARM_DWARF_PC_REG_def

definition arm_registers_to_dwarf_registers :: "arm_registers \<Rightarrow> 64 word list \<Rightarrow> 64 word list" where
  "arm_registers_to_dwarf_registers regs dwarf_regs =
     (let dwarf_regs = fold (\<lambda>n d. d[DWARF_REG_X n := arm_x regs ! n]) [0..<31] dwarf_regs;
          dwarf_regs = dwarf_regs[DWARF_REG_PC := arm_pc regs]
      in dwarf_regs[DWARF_REG_SP := arm_sp regs])"

text \<open>\<^verbatim>\<open>arch_unwind_current_begin\<close> of \<^verbatim>\<open>unwind.S\<close> up to its jump: it stores the registers in the frame, the
  return address for the program counter, and goes on with the registers as they were.\<close>

definition arm_store_current_registers :: "arm_registers \<Rightarrow> 64 word list \<Rightarrow> 64 word list \<times> arm_registers" where
  "arm_store_current_registers cpu frame =
     (let frame = fold (\<lambda>n d. d[DWARF_REG_X n := arm_x cpu ! n]) [0..<31] frame;
          frame = frame[DWARF_REG_PC := arm_x cpu ! 30];
          cpu' = cpu\<lparr>arm_x := (arm_x cpu)[2 := arm_sp cpu]\<rparr>;
          frame = frame[DWARF_REG_SP := arm_x cpu' ! 2]
      in (frame, cpu'\<lparr>arm_x := (arm_x cpu')[2 := frame ! DWARF_REG_X 2]\<rparr>))"

text \<open>Stores over the first places of an array.\<close>

lemma fold_stores:
  assumes "k \<le> length xs" "length xs \<le> length d"
  shows "fold (\<lambda>n d. d[n := xs ! n]) [0..<k] d = take k xs @ drop k d"
  using assms(1)
proof (induction k)
  case (Suc k)
  then have "k < length xs" "k < length d"
    using assms(2) by simp_all
  with Suc show ?case
    by (simp add: take_Suc_conv_app_nth list_update_append Cons_nth_drop_Suc [symmetric])
qed simp

lemma arm_frame_stores:
  assumes "length d = ARM_NUM_DWARF_REGISTERS" "length xs = 31"
  shows "(fold (\<lambda>n d. d[DWARF_REG_X n := xs ! n]) [0..<31] d)[DWARF_REG_PC := p, DWARF_REG_SP := s] = xs @ [s, p]"
proof -
  have "length (drop 31 d) = Suc (Suc 0)"
    using assms(1) by (simp add: arm_dwarf_defs)
  then obtain a b where "drop 31 d = [a, b]"
    by (auto simp only: length_Suc_conv length_0_conv)
  with fold_stores [of 31 xs d] assms show ?thesis
    by (simp add: arm_dwarf_defs list_update_append del: upt_Suc)
qed

text \<open>
  The frame the unwinder starts from has every register at its DWARF number: the general registers, the
  stack pointer and the program counter; and the stub gives back the register it uses.
\<close>

lemma arm_frame_exact:
  assumes "length d = ARM_NUM_DWARF_REGISTERS" "length (arm_x regs) = 31"
  shows "arm_registers_to_dwarf_registers regs d = arm_x regs @ [arm_sp regs, arm_pc regs]"
    and "arm_store_current_registers regs d = (arm_x regs @ [arm_sp regs, arm_x regs ! 30], regs)"
proof -
  have "2 < length (arm_x regs)"
    using assms(2) by simp
  then show "arm_registers_to_dwarf_registers regs d = arm_x regs @ [arm_sp regs, arm_pc regs]"
    and "arm_store_current_registers regs d = (arm_x regs @ [arm_sp regs, arm_x regs ! 30], regs)"
    using arm_frame_stores [OF assms]
    by (simp_all add: arm_registers_to_dwarf_registers_def arm_store_current_registers_def Let_def DWARF_REG_X_def nth_append
        del: upt_Suc)
qed

section \<open>I/O\<close>

definition ARM_PORT_IO_WINDOW_OFFSET :: "64 word" where "ARM_PORT_IO_WINDOW_OFFSET = 0x1000000"
definition ARM_PORT_IO_WINDOW_LEN :: "64 word" where "ARM_PORT_IO_WINDOW_LEN = 0x1000000"
definition ARM_PORT_IO_WINDOW_END :: "64 word" where
  "ARM_PORT_IO_WINDOW_END = ARM_PORT_IO_WINDOW_OFFSET + ARM_PORT_IO_WINDOW_LEN + 1"

text \<open>A port is an address on this architecture, and its errors are those of addresses.\<close>

definition arm_encode_error_pio_addr :: "64 word \<Rightarrow> 64 word" where "arm_encode_error_pio_addr ret = ret"
definition arm_decode_error_pio_addr :: "64 word \<Rightarrow> 32 word" where "arm_decode_error_pio_addr ret = ucast ret"
definition arm_error_pio_addr :: "64 word \<Rightarrow> bool" where "arm_error_pio_addr ret \<longleftrightarrow> ret \<le> of_nat MAX_ERRNO"

definition arm_map_memory_io :: "64 word \<Rightarrow> 64 word \<Rightarrow> 64 word" where
  "arm_map_memory_io phys_base len = of_nat (errno_code ENOTSUP)"

definition arm_map_port_io :: "64 word \<Rightarrow> 64 word \<Rightarrow> 64 word" where
  "arm_map_port_io phys_base len = arm_encode_error_pio_addr (of_nat (errno_code ENOTSUP))"

definition generic_port_io_write :: "64 word \<Rightarrow> 8 word \<Rightarrow> 64 word \<Rightarrow> nat \<Rightarrow> memory \<Rightarrow> memory res" where
  "generic_port_io_write addr width src count m = arch_memory_io_write addr width src count m"

definition generic_port_io_read :: "64 word \<Rightarrow> 8 word \<Rightarrow> 64 word \<Rightarrow> nat \<Rightarrow> memory \<Rightarrow> memory res" where
  "generic_port_io_read addr width out count m = arch_memory_io_read addr width out count m"

text \<open>\<^verbatim>\<open>io_window_map\<close> and \<^verbatim>\<open>io_window_map_pio\<close> of \<^verbatim>\<open>kernel/io.c\<close> with these functions.\<close>

definition arm_io_window_map :: "bool \<Rightarrow> bool \<Rightarrow> 64 word \<Rightarrow> 64 word \<Rightarrow> io_window res" where
  "arm_io_window_map hardened alloc_ok phys_base len =
     (let mapping = arm_map_memory_io phys_base len
      in if error_ptr (Plain mapping) then Inr (Plain mapping)
         else if hardened
         then if alloc_ok
              then Inr (Checked \<lparr>iow_type = IO_TYPE_MEM_IO, iow_address = mapping, iow_length = len\<rparr>)
              else Inl Wild
         else Inr (Plain mapping))"

definition arm_io_window_map_pio :: "bool \<Rightarrow> bool \<Rightarrow> 64 word \<Rightarrow> 64 word \<Rightarrow> io_window" where
  "arm_io_window_map_pio hardened alloc_ok phys_base len =
     (if phys_base + ARM_PORT_IO_WINDOW_OFFSET \<ge> ARM_PORT_IO_WINDOW_END
      then encode_error_ptr (of_nat (errno_code EINVAL))
      else let ret = arm_map_port_io phys_base len
           in if arm_error_pio_addr ret then encode_error_ptr (scast (arm_decode_error_pio_addr ret))
              else let ret' = ret + ARM_PORT_IO_WINDOW_OFFSET
                   in if hardened
                      then if \<not> alloc_ok then encode_error_ptr (of_nat (errno_code ENOMEM))
                           else Checked \<lparr>iow_type = IO_TYPE_PORT_IO, iow_address = ret', iow_length = len\<rparr>
                      else Plain ret')"

text \<open>Whatever is asked for, in both builds, no window is mapped on this port yet.\<close>

lemma arm_maps_no_window:
  "arm_io_window_map hardened alloc_ok phys_base len = Inr (Plain (of_nat (errno_code ENOTSUP)))"
  "arm_io_window_map_pio hardened alloc_ok phys_base len =
     Plain (of_nat (errno_code (if phys_base + ARM_PORT_IO_WINDOW_OFFSET \<ge> ARM_PORT_IO_WINDOW_END then EINVAL else ENOTSUP)))"
  by (simp_all add: arm_io_window_map_def arm_io_window_map_pio_def arm_map_memory_io_def arm_map_port_io_def
      arm_encode_error_pio_addr_def arm_decode_error_pio_addr_def arm_error_pio_addr_def encode_error_ptr_def MAX_ERRNO_def Let_def)

section \<open>Entry\<close>

text \<open>\<^verbatim>\<open>arm_entry\<close>, on the kernel's \<open>entry\<close>, which calls an \<^verbatim>\<open>arch_init_early\<close> the port does not have yet.\<close>

definition arm_entry :: "('ctx \<Rightarrow> 'k res) \<Rightarrow> 'ctx \<Rightarrow> 32 word \<Rightarrow> 'k res" where
  "arm_entry entry ctx magic = (if magic \<noteq> ULTRA_MAGIC then Inl Hang else entry ctx)"

end
