(* ===== verification/Panic.thy ===== *)
theory Panic
  imports Log Atomic
begin

text \<open>
  \<^verbatim>\<open>panic\<close> of \<^verbatim>\<open>kernel/panic.c\<close> called from several places at once: on several processors, or from an
  exception on a processor that is already in it. Each call is an activation that proceeds in steps, the
  activations take their steps in any order, and new calls come at any time. The contract \<open>entered_once\<close> says
  what an exchange at the front of a function achieves; \<open>panic\<close> is shown to keep it.
\<close>

section \<open>Interleaved activations\<close>

text \<open>From \<open>s0\<close> the shared state came to \<open>s\<close>; \<open>acts\<close> is the arguments and the place of each call.\<close>

inductive interleaved ::
  "('c \<Rightarrow> 'p \<times> 's \<Rightarrow> 'p \<times> 's) \<Rightarrow> 'p \<Rightarrow> 's \<Rightarrow> 's \<Rightarrow> ('c \<times> 'p) list \<Rightarrow> bool"
  for run_step first s0
where
  nobody: "interleaved run_step first s0 s0 []"
| called: "interleaved run_step first s0 s acts \<Longrightarrow> interleaved run_step first s0 s (acts @ [(c, first)])"
| moved: "interleaved run_step first s0 s acts \<Longrightarrow> i < length acts \<Longrightarrow> acts ! i = (c, p) \<Longrightarrow>
    run_step c (p, s) = (p', s') \<Longrightarrow> interleaved run_step first s0 s' (acts[i := (c, p')])"

lemma moved_on:
  assumes "interleaved run_step first s0 s acts" "i < length acts" "acts ! i = (c, p)"
  shows "interleaved run_step first s0 (snd ((run_step c ^^ n) (p, s))) (acts[i := (c, fst ((run_step c ^^ n) (p, s)))])"
proof (induction n)
  case 0
  from assms show ?case
    using list_update_id [of acts i] by simp
next
  case (Suc n)
  let ?r = "(run_step c ^^ n) (p, s)"
  have "run_step c (fst ?r, snd ?r) = (fst ((run_step c ^^ Suc n) (p, s)), snd ((run_step c ^^ Suc n) (p, s)))"
    by simp
  from interleaved.moved [OF Suc _ _ this, of i] assms(2) show ?case
    by simp
qed

text \<open>The activation \<open>w\<close> has run from the entry on, alone, and the others have not passed it.\<close>

definition alone :: "('c \<Rightarrow> 'p \<times> 's \<Rightarrow> 'p \<times> 's) \<Rightarrow> 'p \<Rightarrow> 'p \<Rightarrow> 's \<Rightarrow> 's \<Rightarrow> ('c \<times> 'p) list \<Rightarrow> nat \<Rightarrow> bool" where
  "alone run_step first lost s0 s acts w \<longleftrightarrow>
     w < length acts \<and> (\<forall>i < length acts. i \<noteq> w \<longrightarrow> snd (acts ! i) \<in> {first, lost}) \<and>
     (\<exists>n. (run_step (fst (acts ! w)) ^^ Suc n) (first, s0) = (snd (acts ! w), s))"

text \<open>Whoever comes first goes on, whoever comes later stops at \<open>lost\<close> without an effect.\<close>

locale entered_once =
  fixes run_step :: "'c \<Rightarrow> 'p \<times> 's \<Rightarrow> 'p \<times> 's" and first lost :: 'p and taken :: "'s \<Rightarrow> bool"
  assumes late: "taken s \<Longrightarrow> run_step c (first, s) = (lost, s)"
    and early: "\<not> taken s \<Longrightarrow> taken (snd (run_step c (first, s)))"
    and lost: "run_step c (lost, s) = (lost, s)"
    and keeps: "taken s \<Longrightarrow> taken (snd (run_step c (p, s)))"
begin

lemma alone_called:
  assumes "alone run_step first lost s0 s acts w"
  shows "\<exists>w. alone run_step first lost s0 s (acts @ [(c, first)]) w"
proof -
  have "(acts @ [(c, first)]) ! w = acts ! w" "w < length acts"
    using assms by (auto simp: alone_def nth_append)
  moreover have "snd ((acts @ [(c, first)]) ! i) \<in> {first, lost}" if "i < length (acts @ [(c, first)])" "i \<noteq> w" for i
    using assms that by (cases "i < length acts") (simp_all add: alone_def nth_append)
  ultimately have "alone run_step first lost s0 s (acts @ [(c, first)]) w"
    using assms unfolding alone_def by simp
  then show ?thesis ..
qed

lemma alone_moved:
  assumes "alone run_step first lost s0 s acts w" "taken s" "i < length acts" "acts ! i = (c, p)" "run_step c (p, s) = (p', s')"
  shows "alone run_step first lost s0 s' (acts[i := (c, p')]) w"
proof (cases "i = w")
  case True
  from assms(1) obtain n where "(run_step (fst (acts ! w)) ^^ Suc n) (first, s0) = (snd (acts ! w), s)"
    by (auto simp: alone_def)
  with assms True have "(run_step c ^^ Suc (Suc n)) (first, s0) = (p', s')"
    by simp
  then have "\<exists>n. (run_step c ^^ Suc n) (first, s0) = (p', s')" ..
  with assms True show ?thesis
    by (simp only: alone_def length_list_update nth_list_update) simp
next
  case False
  with assms have "p \<in> {first, lost}"
    by (force simp: alone_def)
  with assms late [of s c] lost [of c s] have "s' = s" "p' = lost"
    by auto
  with assms False show ?thesis
    by (simp add: alone_def nth_list_update)
qed

lemma entered_by_one:
  assumes "interleaved run_step first s0 s acts" "\<not> taken s0"
  shows "if taken s then \<exists>w. alone run_step first lost s0 s acts w else s = s0 \<and> (\<forall>a \<in> set acts. snd a = first)"
  using assms
proof (induction rule: interleaved.induct)
  case (called s acts c)
  then show ?case
    by (cases "taken s") (auto dest: alone_called)
next
  case (moved s acts i c p p' s')
  show ?case
  proof (cases "taken s")
    case True
    with moved keeps [OF True, of c p] show ?thesis
      by (auto intro: alone_moved)
  next
    case False
    with moved have "s = s0" "\<forall>a \<in> set acts. snd a = first"
      by auto
    with moved have "run_step c (first, s0) = (p', s')" "p = first" "\<forall>j < length acts. snd (acts ! j) = first"
      by (metis nth_mem snd_conv, metis nth_mem snd_conv, metis nth_mem)
    with moved(2) have "alone run_step first lost s0 s' (acts[i := (c, p')]) i"
      by (auto simp: alone_def nth_list_update intro!: exI [of _ 0])
    with early [OF \<open>\<not> taken s0\<close>, of c] \<open>run_step c (first, s0) = (p', s')\<close> show ?thesis
      by auto
  qed
qed simp

end

section \<open>The steps of panic\<close>

datatype panic_place = At_Exchange | At_Format | At_Report | At_Stack | At_Hang | At_Fault fault

text \<open>What differs from call to call: the arguments, the registers, the return address, and what uninitialised
  objects hold.\<close>

record panic_call =
  call_cpu :: registers
  call_state :: unwind_state
  call_sym_buf :: "8 word list"
  call_return_address :: "64 word"
  call_reason :: "char list"
  call_vlist :: "va_arg list"

record 'd panic_shared =
  g_in_panic :: bool
  panic_buf :: "char list"
  panic_log :: "char list \<times> 'd"

fun panic_step ::
  "nat \<Rightarrow> eh_image \<Rightarrow> unwinder \<Rightarrow> bool \<Rightarrow> symbol_tables \<Rightarrow> 'c console_state \<Rightarrow> ('c \<Rightarrow> char list \<Rightarrow> 'd \<Rightarrow> 'd) \<Rightarrow>
   panic_call \<Rightarrow> panic_place \<times> 'd panic_shared \<Rightarrow> panic_place \<times> 'd panic_shared"
where
  "panic_step fuel im u late t reg con_write c (At_Exchange, s) =
     (case atomic_xchg (g_in_panic s) True MO_ACQ_REL of (g, was_in_panic) \<Rightarrow>
        (if was_in_panic then At_Hang else At_Format, s\<lparr>g_in_panic := g\<rparr>))"
| "panic_step fuel im u late t reg con_write c (At_Format, s) =
     (case vsnprintf (panic_buf s) 256 (Ptr (call_reason c @ [NUL])) (call_vlist c) of
        Inl e \<Rightarrow> (At_Fault e, s)
      | Inr (buf, _) \<Rightarrow> (At_Report, s\<lparr>panic_buf := buf\<rparr>))"
| "panic_step fuel im u late t reg con_write c (At_Report, s) =
     (case pr_emerg reg con_write ''Kernel panic: %s'' [Va_chars (Ptr (panic_buf s))] (panic_log s) of
        Inl e \<Rightarrow> (At_Fault e, s)
      | Inr log \<Rightarrow> (At_Stack, s\<lparr>panic_log := log\<rparr>))"
| "panic_step fuel im u late t reg con_write c (At_Stack, s) =
     (case dump_stack fuel im u (call_cpu c) (call_state c) late t (call_sym_buf c) reg con_write None (call_return_address c)
             (panic_log s) of
        Inl e \<Rightarrow> (At_Fault e, s)
      | Inr log \<Rightarrow> (At_Hang, s\<lparr>panic_log := log\<rparr>))"
| "panic_step fuel im u late t reg con_write c (At_Hang, s) = (At_Hang, s)"
| "panic_step fuel im u late t reg con_write c (At_Fault e, s) = (At_Fault e, s)"

text \<open>\<open>panic_is\<close> is the call as one piece, on the shared state.\<close>

abbreviation panic_is where
  "panic_is fuel im u late t reg con_write c s \<equiv>
     panic fuel im u (call_cpu c) (call_state c) late t (call_sym_buf c) reg con_write (call_return_address c) (panic_buf s)
       (call_reason c) (call_vlist c) (g_in_panic s, panic_log s)"

interpretation panic: entered_once "panic_step fuel im u late t reg con_write" At_Exchange At_Hang g_in_panic
  for fuel im u late t reg con_write
proof
  show "g_in_panic s \<Longrightarrow> g_in_panic (snd (panic_step fuel im u late t reg con_write c (p, s)))" for c p s
    by (cases p) (auto simp: atomic_xchg_def split: sum.splits prod.splits)
qed (auto simp: atomic_xchg_def)

text \<open>Four steps take the entry to its end.\<close>

lemma panic_four:
  assumes "\<not> g_in_panic s0" "(panic_step fuel im u late t reg con_write c ^^ 4) (At_Exchange, s0) = (At_Hang, s)"
  shows "panic_is fuel im u late t reg con_write c s0 = Inr (g_in_panic s, panic_log s)"
  using assms
  by (auto simp: numeral_eq_Suc atomic_xchg_def panic_def split: sum.splits prod.splits)

lemma panic_settled: "p = At_Hang \<or> p = At_Fault e \<Longrightarrow> (panic_step fuel im u late t reg con_write c ^^ n) (p, s) = (p, s)"
  by (induction n) auto

lemma panic_run:
  assumes "\<not> g_in_panic s0" "(panic_step fuel im u late t reg con_write c ^^ n) (At_Exchange, s0) = (At_Hang, s)"
  shows "panic_is fuel im u late t reg con_write c s0 = Inr (g_in_panic s, panic_log s)"
proof -
  let ?f = "panic_step fuel im u late t reg con_write c"
  have ends: "\<exists>e s4. (?f ^^ 4) (At_Exchange, s0) = (At_Hang, s4) \<or> (?f ^^ 4) (At_Exchange, s0) = (At_Fault e, s4)"
    using assms(1) by (simp add: numeral_eq_Suc atomic_xchg_def split: sum.splits prod.splits)
  have "n = 0 \<or> n = 1 \<or> n = 2 \<or> n = 3 \<or> n = (n - 4) + 4"
    by arith
  moreover have "n \<noteq> 0" "n \<noteq> 1" "n \<noteq> 2" "n \<noteq> 3"
    by (rule notI, use assms in \<open>auto simp: numeral_eq_Suc atomic_xchg_def split: sum.splits prod.splits\<close>)+
  ultimately have "(?f ^^ (n - 4)) ((?f ^^ 4) (At_Exchange, s0)) = (At_Hang, s)"
    using assms(2) by (metis comp_apply funpow_add)
  with ends have "(?f ^^ 4) (At_Exchange, s0) = (At_Hang, s)"
    by (auto simp: panic_settled)
  with assms(1) show ?thesis
    by (rule panic_four)
qed

text \<open>
  C23: However many calls of \<^verbatim>\<open>panic\<close> run at once, on any number of processors and nested in each other, and in
  whatever order they take their steps, at most one gets past the exchange. The buffer, the log and the consoles are
  those of that call running alone, and once it has reached its endless loop they are what \<open>panic\<close>
  computes; every other call goes to the loop without having touched anything.
\<close>

theorem concurrent_panics_refine:
  assumes ent: "interleaved (panic_step fuel im u late t reg con_write) At_Exchange s0 s acts" and free: "\<not> g_in_panic s0"
  shows "if g_in_panic s then
      \<exists>w < length acts. (\<forall>i < length acts. i \<noteq> w \<longrightarrow> snd (acts ! i) \<in> {At_Exchange, At_Hang}) \<and>
        (\<exists>n. (panic_step fuel im u late t reg con_write (fst (acts ! w)) ^^ Suc n) (At_Exchange, s0) = (snd (acts ! w), s)) \<and>
        (snd (acts ! w) = At_Hang \<longrightarrow> panic_is fuel im u late t reg con_write (fst (acts ! w)) s0 = Inr (True, panic_log s))
    else s = s0 \<and> (\<forall>a \<in> set acts. snd a = At_Exchange)"
proof (cases "g_in_panic s")
  case True
  from panic.entered_by_one [OF ent free, unfolded if_P [OF True]]
  obtain w where w: "alone (panic_step fuel im u late t reg con_write) At_Exchange At_Hang s0 s acts w"
    by (rule exE)
  from w obtain n where n: "(panic_step fuel im u late t reg con_write (fst (acts ! w)) ^^ Suc n) (At_Exchange, s0) = (snd (acts ! w), s)"
    unfolding alone_def by blast
  have r: "panic_is fuel im u late t reg con_write (fst (acts ! w)) s0 = Inr (True, panic_log s)" if "snd (acts ! w) = At_Hang"
    using panic_run [OF free n [unfolded that]] True by (simp only: refl)
  show ?thesis
    unfolding if_P [OF True]
  proof (intro exI conjI impI)
    show "w < length acts" "\<forall>i < length acts. i \<noteq> w \<longrightarrow> snd (acts ! i) \<in> {At_Exchange, At_Hang}"
      using w unfolding alone_def by (rule conjunct1, rule conjunct1 [OF conjunct2])
  qed (fact n, rule r)
next
  case False
  from panic.entered_by_one [OF ent free, unfolded if_not_P [OF False]] show ?thesis
    unfolding if_not_P [OF False] .
qed
text \<open>Two calls, of which the second comes first and prints; there is no unwinder yet, so the stack is empty.\<close>

definition example_panic :: "char list \<Rightarrow> panic_call" where
  "example_panic reason =
     \<lparr>call_cpu = \<lparr>r15 = 0, r14 = 0, r13 = 0, r12 = 0, rbp = 0, rbx = 0, r11 = 0, r10 = 0, r9 = 0, r8 = 0, rax = 0, rcx = 0, rdx = 0,
        rsi = 0, rdi = 0, error_code = 0, rip = 0, cs = 0, flags = 0, rsp = 0, ss = 0\<rparr>,
      call_state = zero_state, call_sym_buf = [], call_return_address = 0, call_reason = reason, call_vlist = []\<rparr>"

definition example_panic_step ::
  "panic_call \<Rightarrow> panic_place \<times> char list list panic_shared \<Rightarrow> panic_place \<times> char list list panic_shared"
where
  "example_panic_step =
     panic_step 0 \<lparr>image_mem = Map.empty, text_begin = 0, eh_frame_hdr_begin = 0, eh_frame_hdr_end = 0, eh_frame_begin = 0\<rparr>
       \<lparr>g_unwinder_available = False, g_fde_binary_search_table = 0, g_fde_table_encoding = 0, g_fde_table_entry_width = 0, g_num_fdes = 0\<rparr>
       False \<lparr>g_symbol_count = 0, g_symbol_compressed_names = [], g_symbol_name_offsets = [], g_symbol_token_table = [],
          g_symbol_token_offsets = [], g_symbol_relative_addresses = [], g_symbol_base = 0, kernel_text_begin = 0, kernel_text_end = 0\<rparr>
       \<lparr>consoles = Some (0 :: nat), con_next = (\<lambda>_. None)\<rparr> (\<lambda>c text log. log @ [text])"

definition example_shared :: "char list list panic_shared" where
  "example_shared = \<lparr>g_in_panic = False, panic_buf = replicate 256 NUL, panic_log = (replicate 256 NUL, [])\<rparr>"

theorem concurrent_panics_refine_witness:
  "\<exists>s acts. interleaved example_panic_step At_Exchange example_shared s acts \<and>
     map snd acts = [At_Hang, At_Hang] \<and> g_in_panic s \<and>
     snd (panic_log s) = [''Kernel panic: bad'', ''Call trace (most recent call first):'' @ [CHR 0x0A]] \<and>
     (\<exists>w < 2. \<exists>n. (example_panic_step (fst (acts ! w)) ^^ Suc n) (At_Exchange, example_shared) = (At_Hang, s))"
proof -
  let ?c = "example_panic ''bad''" and ?d = "example_panic ''also bad''"
  let ?r = "(example_panic_step ?c ^^ 3) (At_Format, example_shared\<lparr>g_in_panic := True\<rparr>)"
  let ?acts = "[(?d, At_Hang), (?c, At_Hang)]"
  have "interleaved example_panic_step At_Exchange example_shared example_shared [(?d, At_Exchange), (?c, At_Exchange)]"
    using interleaved.called [OF interleaved.called [OF interleaved.nobody]] by force
  from moved_on [OF this, of 1 ?c At_Exchange 1] have "interleaved example_panic_step At_Exchange example_shared (example_shared\<lparr>g_in_panic := True\<rparr>) [(?d, At_Exchange), (?c, At_Format)]"
    by (simp add: example_panic_step_def example_shared_def atomic_xchg_def)
  from moved_on [OF this, of 0 ?d At_Exchange 1] have "interleaved example_panic_step At_Exchange example_shared (example_shared\<lparr>g_in_panic := True\<rparr>) [(?d, At_Hang), (?c, At_Format)]"
    by (simp add: example_panic_step_def example_shared_def atomic_xchg_def)
  note begun = this
  have "fst ?r = At_Hang" and g: "g_in_panic (snd ?r)"
      and out: "snd (panic_log (snd ?r)) = [''Kernel panic: bad'', ''Call trace (most recent call first):'' @ [CHR 0x0A]]"
    by code_simp+
  with moved_on [OF begun, of 1 ?c At_Format 3] have run: "interleaved example_panic_step At_Exchange example_shared (snd ?r) ?acts"
    by (simp del: funpow.simps)
  have "\<not> g_in_panic example_shared"
    by (simp add: example_shared_def)
  from concurrent_panics_refine [OF run [unfolded example_panic_step_def] this, folded example_panic_step_def, unfolded if_P [OF g]]
  obtain w n where w: "w < length ?acts" "(example_panic_step (fst (?acts ! w)) ^^ Suc n) (At_Exchange, example_shared) = (snd (?acts ! w), snd ?r)"
    by (elim exE conjE)
  then have "snd (?acts ! w) = At_Hang" "w < 2"
    by (auto simp: less_2_cases_iff less_Suc_eq)
  with w have "\<exists>w < 2. \<exists>n. (example_panic_step (fst (?acts ! w)) ^^ Suc n) (At_Exchange, example_shared) = (At_Hang, snd ?r)"
    by metis
  with run out g show ?thesis
    by (intro exI [of _ "snd ?r"] exI [of _ ?acts] conjI) simp_all
qed

end
