(* ===== verification/SymbolGen.thy ===== *)
theory SymbolGen
  imports Symbols "HOL-Library.Sublist"
begin

text \<open>
  The generator of the symbol tables, \<^verbatim>\<open>scripts/generate_symbol_tables.py\<close>, as the build runs it (\<open>Mode.ULTRA\<close>): the
  symbols that \<^verbatim>\<open>nm\<close> lists are filtered and sorted (\<open>Context\<close>), their names are compressed by tokens for the most used
  pairs (\<open>TokenTable\<close>), and the tables are written as C arrays (\<open>main\<close>). The lines of \<^verbatim>\<open>nm\<close> are an argument, an address, a
  type and a name each. What is written is a record of the values; \<open>compiled\<close> is how C reads them.
\<close>

section \<open>Errors and numbers\<close>

datatype py_error = Runtime_Error | Assertion_Error | Recursion_Error

fun bind_py :: "py_error + 'a \<Rightarrow> ('a \<Rightarrow> py_error + 'b) \<Rightarrow> py_error + 'b" where
  "bind_py (Inl e) f = Inl e"
| "bind_py (Inr x) f = f x"

lemma bind_py_Inr_iff: "bind_py m f = Inr y \<longleftrightarrow> (\<exists>x. m = Inr x \<and> f x = Inr y)"
  by (cases m) auto

lemma bind_py_cong [fundef_cong]: "m = m' \<Longrightarrow> (\<And>x. m' = Inr x \<Longrightarrow> f x = f' x) \<Longrightarrow> bind_py m f = bind_py m' f'"
  by (cases m') auto

definition leb128_max :: "nat \<Rightarrow> nat" where "leb128_max byte_width = push_bit (byte_width * 7) 1 - 1"
definition to_uleb128 :: "nat \<Rightarrow> nat \<Rightarrow> nat" where "to_uleb128 number byte_idx = drop_bit (byte_idx * 7) number AND leb128_max 1"

section \<open>Symbols\<close>

record py_symbol =
  sym_name :: "char list"
  sym_type :: char
  sym_index :: nat
  sym_address :: int

definition is_weak :: "py_symbol \<Rightarrow> bool" where "is_weak s \<longleftrightarrow> sym_type s = CHR ''W''"

definition LINKER_SYMBOL_PREFIX :: "char list" where "LINKER_SYMBOL_PREFIX = ''g_linker_symbol_''"

definition is_linker :: "py_symbol \<Rightarrow> bool" where "is_linker s \<longleftrightarrow> prefix LINKER_SYMBOL_PREFIX (sym_name s)"

definition canonical_name :: "py_symbol \<Rightarrow> char list" where "canonical_name s = sym_name s"

definition underscores :: "py_symbol \<Rightarrow> int" where
  "underscores s = int (length (sym_name s)) - int (length (dropWhile (\<lambda>c. c = CHR ''_'') (sym_name s)))"

definition sort_by_address_comparator :: "py_symbol \<Rightarrow> py_symbol \<Rightarrow> int" where
  "sort_by_address_comparator lhs rhs =
     (if sym_address lhs \<noteq> sym_address rhs then (if sym_address lhs < sym_address rhs then - 1 else 1)
      else if is_weak lhs \<noteq> is_weak rhs then of_bool (is_weak lhs) - of_bool (is_weak rhs)
      else if is_linker lhs \<noteq> is_linker rhs then of_bool (is_linker lhs) - of_bool (is_linker rhs)
      else if underscores lhs \<noteq> underscores rhs then underscores lhs - underscores rhs
      else int (sym_index lhs) - int (sym_index rhs))"

text \<open>The order of Python's strings.\<close>

fun str_less :: "char list \<Rightarrow> char list \<Rightarrow> bool" where
  "str_less xs [] = False"
| "str_less [] (y # ys) = True"
| "str_less (x # xs) (y # ys) =
     ((of_char x :: nat) < of_char y \<or> x = y \<and> str_less xs ys)"

definition sort_by_name_comparator :: "py_symbol \<Rightarrow> py_symbol \<Rightarrow> int" where
  "sort_by_name_comparator lhs rhs =
     (if str_less (sym_name lhs) (sym_name rhs) then - 1
      else if str_less (sym_name rhs) (sym_name lhs) then 1
      else if sym_address lhs \<noteq> sym_address rhs then (if sym_address lhs < sym_address rhs then - 1 else 1)
      else int (sym_index lhs) - int (sym_index rhs))"

text \<open>Python's sort is stable: an element goes in front of the later ones that are not smaller.\<close>

fun insert_by :: "('a \<Rightarrow> 'a \<Rightarrow> int) \<Rightarrow> 'a \<Rightarrow> 'a list \<Rightarrow> 'a list" where
  "insert_by cmp x [] = [x]"
| "insert_by cmp x (y # ys) = (if cmp y x < 0 then y # insert_by cmp x ys else x # y # ys)"

definition sort_by_cmp :: "('a \<Rightarrow> 'a \<Rightarrow> int) \<Rightarrow> 'a list \<Rightarrow> 'a list" where
  "sort_by_cmp cmp xs = foldr (insert_by cmp) xs []"

section \<open>The context\<close>

record sym_section =
  sec_begin :: int
  sec_end :: int

definition sec_contains :: "sym_section \<Rightarrow> int \<Rightarrow> bool" where
  "sec_contains sec addr \<longleftrightarrow> addr \<ge> sec_begin sec \<and> addr \<le> sec_end sec"

record sym_context =
  ctx_text :: sym_section
  ctx_symbols :: "py_symbol list"

definition PY_MAX_SYMBOL_LENGTH :: nat where "PY_MAX_SYMBOL_LENGTH = 127"

definition text_begin_symbol :: "char list" where "text_begin_symbol = LINKER_SYMBOL_PREFIX @ ''text_begin''"
definition text_end_symbol :: "char list" where "text_end_symbol = LINKER_SYMBOL_PREFIX @ ''text_end''"

definition on_symbol_added :: "py_symbol \<Rightarrow> sym_context \<Rightarrow> sym_context" where
  "on_symbol_added symbol ctx =
     (if sym_name symbol = text_begin_symbol then ctx\<lparr>ctx_text := (ctx_text ctx)\<lparr>sec_begin := sym_address symbol\<rparr>\<rparr>
      else if sym_name symbol = text_end_symbol then ctx\<lparr>ctx_text := (ctx_text ctx)\<lparr>sec_end := sym_address symbol\<rparr>\<rparr>
      else ctx)"

type_synonym nm_line = "int \<times> char \<times> char list"

definition context_add_symbol :: "nm_line \<Rightarrow> sym_context \<Rightarrow> py_error + sym_context" where
  "context_add_symbol line ctx = (case line of (address, type, name) \<Rightarrow>
     if type \<in> set ''UaAN'' then Inr ctx
     else if \<exists>p \<in> set [''$a.'', ''$t.'', ''$d.'', ''$x.'']. prefix p name then Inr ctx
     else if length name > PY_MAX_SYMBOL_LENGTH then Inl Runtime_Error
     else let symbol = \<lparr>sym_name = name, sym_type = type, sym_index = length (ctx_symbols ctx), sym_address = address\<rparr>
          in Inr (on_symbol_added symbol (ctx\<lparr>ctx_symbols := ctx_symbols ctx @ [symbol]\<rparr>)))"

fun add_symbols :: "nm_line list \<Rightarrow> sym_context \<Rightarrow> py_error + sym_context" where
  "add_symbols [] ctx = Inr ctx"
| "add_symbols (line # lines) ctx = bind_py (context_add_symbol line ctx) (add_symbols lines)"

definition should_drop :: "sym_context \<Rightarrow> py_symbol \<Rightarrow> bool" where
  "should_drop ctx symbol \<longleftrightarrow> is_linker symbol \<or> \<not> sec_contains (ctx_text ctx) (sym_address symbol)"

definition make_context :: "nm_line list \<Rightarrow> py_error + sym_context" where
  "make_context lines =
     bind_py (add_symbols lines \<lparr>ctx_text = \<lparr>sec_begin = 0, sec_end = 0\<rparr>, ctx_symbols = []\<rparr>) (\<lambda>ctx.
       Inr (ctx\<lparr>ctx_symbols := sort_by_cmp sort_by_address_comparator (filter (\<lambda>sym. \<not> should_drop ctx sym) (ctx_symbols ctx))\<rparr>))"

section \<open>The token table\<close>

text \<open>The counts are an array of 65536, written as a function of the index.\<close>

record token_table =
  tok_symbols :: "nat list list"
  multibyte_tokens :: "nat \<Rightarrow> int"
  best_tokens :: "nat list list"

definition tokenized :: "py_symbol \<Rightarrow> nat list" where
  "tokenized symbol = map of_char (canonical_name symbol)"

definition pair_index :: "nat \<Rightarrow> nat \<Rightarrow> nat" where "pair_index x y = push_bit 8 y + x"

fun count_pairs :: "int \<Rightarrow> nat list \<Rightarrow> (nat \<Rightarrow> int) \<Rightarrow> nat \<Rightarrow> int" where
  "count_pairs addend (x # y # tokens) counts =
     count_pairs addend (y # tokens) (counts(pair_index x y := counts (pair_index x y) + addend))"
| "count_pairs addend _ counts = counts"

definition record_for_best :: "nat list \<Rightarrow> nat list list \<Rightarrow> nat list list" where
  "record_for_best tokens best = fold (\<lambda>token best. best[token := [token]]) tokens best"

definition most_used_multibyte_token :: "(nat \<Rightarrow> int) \<Rightarrow> nat \<times> int" where
  "most_used_multibyte_token counts =
     fold (\<lambda>i (best_index, best_score). if counts i \<le> best_score then (best_index, best_score) else (i, counts i))
       [0..<0x10000] (0, - 1)"

text \<open>Whether there was a pair to replace, and the tokens after it.\<close>

function compress_loop :: "nat \<Rightarrow> nat \<Rightarrow> nat \<Rightarrow> nat list \<Rightarrow> bool \<times> nat list" where
  "compress_loop idx a b (x # y # tokens) =
     (if x \<noteq> a \<or> y \<noteq> b then (case compress_loop idx a b (y # tokens) of (did, out) \<Rightarrow> (did, x # out))
      else (True, snd (compress_loop idx a b (idx # tokens))))"
| "compress_loop idx a b [x] = (False, [x])"
| "compress_loop idx a b [] = (False, [])"
  by pat_completeness auto
termination
  by (relation "measure (\<lambda>(idx, a, b, tokens). length tokens)") auto

fun compress_symbols :: "nat \<Rightarrow> nat \<Rightarrow> nat \<Rightarrow> nat list list \<Rightarrow> (nat \<Rightarrow> int) \<Rightarrow> nat list list \<times> (nat \<Rightarrow> int)" where
  "compress_symbols idx a b [] counts = ([], counts)"
| "compress_symbols idx a b (tokens # symbols) counts =
     (case compress_loop idx a b tokens of (did_compress, tokens') \<Rightarrow>
      let counts' = (if did_compress then count_pairs 1 tokens' (count_pairs (- 1) tokens counts) else counts)
      in case compress_symbols idx a b symbols counts' of (symbols', counts'') \<Rightarrow> (tokens' # symbols', counts''))"

definition compress_with_compound_token :: "nat \<Rightarrow> token_table \<Rightarrow> token_table" where
  "compress_with_compound_token idx t =
     (let tgt_token = best_tokens t ! idx
      in case compress_symbols idx (tgt_token ! 0) (tgt_token ! 1) (tok_symbols t) (multibyte_tokens t) of
           (symbols, counts) \<Rightarrow> t\<lparr>tok_symbols := symbols, multibyte_tokens := counts\<rparr>)"

fun optimize_loop :: "nat list \<Rightarrow> token_table \<Rightarrow> token_table" where
  "optimize_loop [] t = t"
| "optimize_loop (i # is) t =
     (if best_tokens t ! i \<noteq> [] then optimize_loop is t
      else case most_used_multibyte_token (multibyte_tokens t) of (index, score) \<Rightarrow>
        if score = 0 then t
        else optimize_loop is (compress_with_compound_token i
          (t\<lparr>best_tokens := (best_tokens t)[i := [drop_bit 0 index AND 0xFF, drop_bit 8 index AND 0xFF]]\<rparr>)))"

definition make_token_table :: "py_symbol list \<Rightarrow> token_table" where
  "make_token_table symbols =
     (let toks = map tokenized symbols
      in optimize_loop (rev [0..<0x100])
           \<lparr>tok_symbols = toks, multibyte_tokens = fold (count_pairs 1) toks (\<lambda>_. 0),
            best_tokens = fold record_for_best toks (replicate 0x100 [])\<rparr>)"

text \<open>The fuel stands for Python's limit on recursion, 1000 calls, less what the callers use of it.\<close>

fun unwind_compound :: "nat \<Rightarrow> nat list list \<Rightarrow> nat list \<Rightarrow> py_error + char list" where
  "unwind_compound fuel best [] = Inr []"
| "unwind_compound 0 best (token # tokens) = Inl Recursion_Error"
| "unwind_compound (Suc fuel) best (token # tokens) =
     bind_py (if length (best ! token) = 1 then Inr [char_of token] else unwind_compound fuel best (best ! token)) (\<lambda>s.
     bind_py (unwind_compound (Suc fuel) best tokens) (\<lambda>out. Inr (s @ out)))"

definition PY_RECURSION_LIMIT :: nat where "PY_RECURSION_LIMIT = 900"

section \<open>The tables\<close>

definition value_u16 :: "int \<Rightarrow> py_error + int" where "value_u16 v = (if v \<le> 0xFFFF then Inr v else Inl Assertion_Error)"
definition value_u32 :: "int \<Rightarrow> py_error + int" where "value_u32 v = (if v \<le> 0xFFFFFFFF then Inr v else Inl Assertion_Error)"

fun emit_all :: "(int \<Rightarrow> py_error + int) \<Rightarrow> int list \<Rightarrow> py_error + int list" where
  "emit_all value [] = Inr []"
| "emit_all value (v # vs) = bind_py (value v) (\<lambda>w. bind_py (emit_all value vs) (\<lambda>ws. Inr (w # ws)))"

text \<open>The bytes of the names from the index \<open>idx\<close> and the offset \<open>byte_offset\<close> on, and the markers.\<close>

fun emit_names :: "nat \<Rightarrow> nat \<Rightarrow> nat list list \<Rightarrow> py_error + nat list \<times> int list" where
  "emit_names idx byte_offset [] = Inr ([], [])"
| "emit_names idx byte_offset (tokens # symbols) =
     (let name_len = length tokens
      in if tokens = [] \<or> leb128_max 2 < name_len then Inl Assertion_Error
         else let short = name_len \<le> leb128_max 1;
                  repr = (if short then [name_len] else [push_bit 7 1 OR to_uleb128 name_len 0, to_uleb128 name_len 1])
              in bind_py (emit_names (Suc idx) (byte_offset + name_len + (if short then 1 else 2)) symbols) (\<lambda>(bytes, markers).
                   Inr (repr @ tokens @ bytes, if idx AND 0xFF = 0 then int byte_offset # markers else markers)))"

fun emit_tokens :: "nat list list \<Rightarrow> nat \<Rightarrow> nat list list \<Rightarrow> py_error + nat list \<times> int list" where
  "emit_tokens best byte_offset [] = Inr ([], [])"
| "emit_tokens best byte_offset (token # tokens) =
     bind_py (unwind_compound PY_RECURSION_LIMIT best token) (\<lambda>unwound_token.
     bind_py (emit_tokens best (byte_offset + length unwound_token + 1) tokens) (\<lambda>(bytes, markers).
       Inr (map of_char unwound_token @ [0] @ bytes, int byte_offset # markers)))"

record written_tables =
  w_count :: int
  w_names :: "nat list"
  w_markers :: "int list"
  w_token_table :: "nat list"
  w_token_offsets :: "int list"
  w_addresses :: "int list"
  w_base :: int
  w_indices :: "nat list"

definition generate_tables :: "sym_context \<Rightarrow> py_error + written_tables" where
  "generate_tables ctx =
     (let token_table = make_token_table (ctx_symbols ctx);
          indexed = map (\<lambda>(idx, s). s\<lparr>sym_index := idx\<rparr>) (enumerate 0 (ctx_symbols ctx));
          first_symbol_address = (if ctx_symbols ctx \<noteq> [] then sym_address (hd (ctx_symbols ctx)) else 0)
      in bind_py (value_u32 (int (length (ctx_symbols ctx)))) (\<lambda>count.
         bind_py (emit_names 0 0 (tok_symbols token_table)) (\<lambda>(names, name_markers).
         bind_py (emit_all value_u32 name_markers) (\<lambda>markers.
         bind_py (emit_tokens (best_tokens token_table) 0 (best_tokens token_table)) (\<lambda>(strings, string_markers).
         bind_py (emit_all value_u16 string_markers) (\<lambda>offsets.
         bind_py (emit_all value_u32 (map (\<lambda>s. sym_address s - first_symbol_address) (ctx_symbols ctx))) (\<lambda>addresses.
         bind_py (value_u32 (first_symbol_address - sec_begin (ctx_text ctx))) (\<lambda>base.
           Inr \<lparr>w_count = count, w_names = names, w_markers = markers, w_token_table = strings, w_token_offsets = offsets,
                w_addresses = addresses, w_base = base,
                w_indices = concat (map (\<lambda>s. [drop_bit 16 (sym_index s) AND 0xFF, drop_bit 8 (sym_index s) AND 0xFF, sym_index s AND 0xFF])
                  (sort_by_cmp sort_by_name_comparator indexed))\<rparr>))))))))"

text \<open>The C arrays, in an image loaded where it was linked.\<close>

definition compiled :: "sym_context \<Rightarrow> written_tables \<Rightarrow> symbol_tables" where
  "compiled ctx w =
     \<lparr>g_symbol_count = word_of_int (w_count w), g_symbol_compressed_names = map word_of_nat (w_names w),
      g_symbol_name_offsets = map word_of_int (w_markers w), g_symbol_token_table = map word_of_nat (w_token_table w),
      g_symbol_token_offsets = map word_of_int (w_token_offsets w), g_symbol_relative_addresses = map word_of_int (w_addresses w),
      g_symbol_base = word_of_int (w_base w) + word_of_int (sec_begin (ctx_text ctx)),
      kernel_text_begin = word_of_int (sec_begin (ctx_text ctx)), kernel_text_end = word_of_int (sec_end (ctx_text ctx))\<rparr>"

end
