(* ===== verification/SymbolGenTokens.thy ===== *)
theory SymbolGenTokens
  imports SymbolGen
begin

text \<open>
  What the token table of the generator keeps: the tokens of every symbol expand to its name, through a table whose compound
  tokens refer to characters and to compounds with larger indices only, so that expanding them ends. The counts
  are those of the pairs in the symbols, which makes the pair that is replaced one that occurs.
\<close>

section \<open>Expansion\<close>

inductive expands :: "nat list list \<Rightarrow> nat list \<Rightarrow> char list \<Rightarrow> bool" for best where
  nothing: "expands best [] []"
| character: "t < length best \<Longrightarrow> best ! t = [t] \<Longrightarrow> expands best ts s \<Longrightarrow> expands best (t # ts) (char_of t # s)"
| compound: "t < length best \<Longrightarrow> best ! t = [a, b] \<Longrightarrow> expands best [a, b] s1 \<Longrightarrow> expands best ts s \<Longrightarrow> expands best (t # ts) (s1 @ s)"

inductive_simps expands_Nil [simp]: "expands best [] s"
inductive_cases expands_ConsE: "expands best (t # ts) s"

lemma expands_append: "expands best us s \<Longrightarrow> expands best vs r \<Longrightarrow> expands best (us @ vs) (s @ r)"
  by (induction rule: expands.induct) (auto intro: expands.intros)

lemma expands_appendD: "expands best (us @ vs) s \<Longrightarrow> \<exists>s1 s2. s = s1 @ s2 \<and> expands best us s1 \<and> expands best vs s2"
proof (induction us arbitrary: s)
  case (Cons t us)
  from Cons.prems have "expands best (t # us @ vs) s"
    by simp
  then show ?case
  proof (cases rule: expands.cases)
    case (character s')
    with Cons.IH obtain s1 s2 where "s' = s1 @ s2" "expands best us s1" "expands best vs s2"
      by blast
    with character show ?thesis
      by (intro exI [of _ "char_of t # s1"] exI [of _ s2]) (simp add: expands.character)
  next
    case (compound a b r s')
    with Cons.IH obtain s1 s2 where "s' = s1 @ s2" "expands best us s1" "expands best vs s2"
      by blast
    with compound show ?thesis
      by (intro exI [of _ "r @ s1"] exI [of _ s2]) (simp add: expands.compound)
  qed
qed simp

lemma expands_length: "expands best ts s \<Longrightarrow> length ts \<le> length s"
  by (induction rule: expands.induct) auto

lemma expands_used: "expands best ts s \<Longrightarrow> t \<in> set ts \<Longrightarrow> t < length best \<and> best ! t \<noteq> []"
  by (induction rule: expands.induct) auto

lemma expands_update: "expands best ts s \<Longrightarrow> best ! i = [] \<Longrightarrow> expands (best[i := x]) ts s"
proof (induction rule: expands.induct)
  case (character t ts s)
  then have "t \<noteq> i"
    by auto
  with character show ?case
    by (intro expands.character) simp_all
next
  case (compound t a b s1 ts s)
  then have "t \<noteq> i"
    by auto
  with compound show ?case
    by (intro expands.compound [of _ _ a b]) simp_all
qed (simp add: expands.nothing)

lemma expands_pair: "t < length best \<Longrightarrow> best ! t = [a, b] \<Longrightarrow> expands best (a # b # ts) s \<Longrightarrow> expands best (t # ts) s"
  using expands_appendD [of best "[a, b]" ts s] expands.compound by auto

section \<open>Compression\<close>

lemma compress_loop_expands:
  "idx < length best \<Longrightarrow> best ! idx = [a, b] \<Longrightarrow> expands best tokens s \<Longrightarrow> expands best (snd (compress_loop idx a b tokens)) s"
proof (induction idx a b tokens arbitrary: s rule: compress_loop.induct)
  case (1 idx a b x y tokens)
  show ?case
  proof (cases "x \<noteq> a \<or> y \<noteq> b")
    case True
    obtain s1 s2 where "s = s1 @ s2" "expands best [x] s1" "expands best (y # tokens) s2"
      using expands_appendD [of best "[x]" "y # tokens" s] "1.prems" by auto
    with "1.IH"(1) [OF True] "1.prems" have "expands best ([x] @ snd (compress_loop idx a b (y # tokens))) s"
      by (auto intro: expands_append simp del: append.simps)
    with True show ?thesis
      by (auto split: prod.splits)
  next
    case False
    with "1.prems" "1.IH"(2) [OF False] expands_pair show ?thesis
      by simp
  qed
qed simp_all

lemma compress_loop_same: "\<not> fst (compress_loop idx a b tokens) \<Longrightarrow> snd (compress_loop idx a b tokens) = tokens"
  by (induction idx a b tokens rule: compress_loop.induct) (auto split: prod.splits if_splits)

definition pairs_of :: "nat list \<Rightarrow> nat list" where "pairs_of tokens = map2 pair_index tokens (tl tokens)"

lemma pairs_of_simps [simp]:
  "pairs_of [] = []" "pairs_of [x] = []" "pairs_of (x # y # tokens) = pair_index x y # pairs_of (y # tokens)"
  by (simp_all add: pairs_of_def)

lemma count_pairs_eq: "count_pairs addend tokens counts p = counts p + addend * int (count_list (pairs_of tokens) p)"
proof (induction addend tokens counts rule: count_pairs.induct)
  case (1 addend x y tokens counts)
  then show ?case
    unfolding count_pairs.simps(1) 1 by (simp add: algebra_simps)
qed simp_all

lemma count_list_pos: "0 < count_list xs x \<Longrightarrow> x \<in> set xs"
  by (induction xs) (auto split: if_splits)

lemma pairs_of_split: "p \<in> set (pairs_of tokens) \<Longrightarrow> \<exists>us x y vs. tokens = us @ [x, y] @ vs \<and> p = pair_index x y"
proof (induction tokens rule: induct_list012)
  case (3 x y tokens)
  then show ?case
    by (auto intro: exI [of _ "[]"]) (metis append_Cons)
qed simp_all

text \<open>The counts of a table.\<close>

definition total_pairs :: "nat list list \<Rightarrow> nat \<Rightarrow> int" where
  "total_pairs symbols p = (\<Sum>tokens \<leftarrow> symbols. int (count_list (pairs_of tokens) p))"

lemma total_pairs_nonneg: "0 \<le> total_pairs symbols p"
  by (induction symbols) (simp_all add: total_pairs_def)

lemma total_pairs_occurs: "total_pairs symbols p \<noteq> 0 \<Longrightarrow> \<exists>tokens \<in> set symbols. p \<in> set (pairs_of tokens)"
proof (induction symbols)
  case (Cons tokens symbols)
  then show ?case
    by (cases "count_list (pairs_of tokens) p = 0") (auto simp: total_pairs_def dest: count_list_pos)
qed (simp add: total_pairs_def)

lemma compress_symbols_counts:
  "compress_symbols idx a b symbols counts = (symbols', counts') \<Longrightarrow>
     counts' p = counts p - total_pairs symbols p + total_pairs symbols' p"
proof (induction symbols arbitrary: counts symbols' counts')
  case (Cons tokens symbols)
  obtain did out where c: "compress_loop idx a b tokens = (did, out)"
    by force
  define between where "between = (if did then count_pairs 1 out (count_pairs (- 1) tokens counts) else counts)"
  obtain rest where r: "compress_symbols idx a b symbols between = (rest, counts')" "symbols' = out # rest"
    using Cons.prems by (auto simp: c Let_def between_def split: prod.splits)
  have "between p = counts p - int (count_list (pairs_of tokens) p) + int (count_list (pairs_of out) p)"
    using compress_loop_same [of idx a b tokens] c by (auto simp: between_def count_pairs_eq)
  with Cons.IH [OF r(1)] r(2) show ?case
    by (simp add: total_pairs_def)
qed (simp add: total_pairs_def)

lemma compress_symbols_tokens: "fst (compress_symbols idx a b symbols counts) = map (\<lambda>tokens. snd (compress_loop idx a b tokens)) symbols"
  by (induction symbols arbitrary: counts) (simp_all add: Let_def case_prod_beta)

section \<open>The most used pair\<close>

lemma most_used_scan:
  fixes counts :: "nat \<Rightarrow> int"
  assumes "\<forall>i < n. 0 \<le> counts i"
    and "fold (\<lambda>i (best_index, best_score). if counts i \<le> best_score then (best_index, best_score) else (i, counts i)) [0..<n] (0, - 1) = (k, m)"
  shows "if n = 0 then k = 0 \<and> m = - 1 else k < n \<and> m = counts k \<and> (\<forall>i < n. counts i \<le> m) \<and> (\<forall>i < k. counts i < m)"
  using assms
proof (induction n arbitrary: k m)
  case (Suc n)
  obtain k' m' where r: "fold (\<lambda>i (best_index, best_score). if counts i \<le> best_score then (best_index, best_score) else (i, counts i)) [0..<n] (0, - 1) = (k', m')"
    by force
  with Suc.IH [OF _ r] Suc.prems show ?case
    by (cases "n = 0") (auto split: if_splits simp: less_Suc_eq)
qed simp

lemma most_used_eq:
  assumes "most_used_multibyte_token counts = (k, m)" "\<forall>i. 0 \<le> counts i"
  shows "k < 0x10000" "m = counts k" "\<forall>i < 0x10000. counts i \<le> m" "\<forall>i < k. counts i < m"
proof -
  have "\<forall>i < 0x10000. 0 \<le> counts i" "(0x10000 :: nat) \<noteq> 0"
    using assms(2) by simp_all
  from most_used_scan [OF this(1) assms(1) [unfolded most_used_multibyte_token_def], unfolded if_not_P [OF this(2)]]
  show "k < 0x10000" "m = counts k" "\<forall>i < 0x10000. counts i \<le> m" "\<forall>i < k. counts i < m"
    by blast+
qed

lemma pair_index_decode: "x < 256 \<Longrightarrow> drop_bit 0 (pair_index x y) AND 0xFF = x"
  "x < 256 \<Longrightarrow> y < 256 \<Longrightarrow> drop_bit 8 (pair_index x y) AND 0xFF = y" for x y :: nat
proof -
  have m: "n AND 0xFF = n mod 256" for n :: nat
    using take_bit_eq_mask [of 8 n] by (simp add: mask_eq_exp_minus_1 take_bit_eq_mod)
  show "x < 256 \<Longrightarrow> drop_bit 0 (pair_index x y) AND 0xFF = x" "x < 256 \<Longrightarrow> y < 256 \<Longrightarrow> drop_bit 8 (pair_index x y) AND 0xFF = y"
    by (simp_all add: m pair_index_def push_bit_eq_mult drop_bit_eq_div)
qed

section \<open>What the optimisation keeps\<close>

text \<open>The slots from \<open>k\<close> on may hold compounds; a compound refers to characters and to compounds above it.\<close>

definition usable :: "nat list list \<Rightarrow> nat \<Rightarrow> nat \<Rightarrow> bool" where
  "usable best j a \<longleftrightarrow> a < 256 \<and> (best ! a = [a] \<or> j < a \<and> length (best ! a) = 2)"

definition good_best :: "nat \<Rightarrow> nat list list \<Rightarrow> bool" where
  "good_best k best \<longleftrightarrow> length best = 256 \<and>
     (\<forall>j < 256. best ! j = [] \<or> best ! j = [j] \<or> k \<le> j \<and> (\<exists>a b. best ! j = [a, b] \<and> usable best j a \<and> usable best j b))"

text \<open>Every token in the table expands to a part of a name.\<close>

definition part_of_names :: "char list list \<Rightarrow> nat list list \<Rightarrow> nat \<Rightarrow> bool" where
  "part_of_names names best j \<longleftrightarrow> best ! j \<noteq> [] \<longrightarrow> (\<exists>s. expands best [j] s \<and> (\<exists>n \<in> set names. sublist s n))"

definition table_inv :: "nat \<Rightarrow> char list list \<Rightarrow> token_table \<Rightarrow> bool" where
  "table_inv k names t \<longleftrightarrow> good_best k (best_tokens t) \<and> list_all2 (expands (best_tokens t)) (tok_symbols t) names \<and>
     (\<forall>p. multibyte_tokens t p = total_pairs (tok_symbols t) p) \<and> (\<forall>j < 256. part_of_names names (best_tokens t) j)"

lemma usable_update: "best ! i = [] \<Longrightarrow> usable best j a \<Longrightarrow> usable (best[i := x]) j a"
  by (cases "a = i") (auto simp: usable_def)

lemma good_best_used:
  "good_best k best \<Longrightarrow> a < 256 \<Longrightarrow> best ! a \<noteq> [] \<Longrightarrow> i < k \<Longrightarrow> usable best i a"
  unfolding good_best_def usable_def by (metis One_nat_def Suc_1 length_Cons less_le_trans list.size(3))

lemma good_best_update:
  assumes "good_best k best" "i < k" "k \<le> 256" "best ! i = []" "usable best i a" "usable best i b"
  shows "good_best i (best[i := [a, b]])"
  unfolding good_best_def
proof (intro conjI allI impI)
  fix j :: nat
  assume j: "j < 256"
  have len: "length best = 256"
    using assms(1) by (simp add: good_best_def)
  show "best[i := [a, b]] ! j = [] \<or> best[i := [a, b]] ! j = [j] \<or>
      i \<le> j \<and> (\<exists>c d. best[i := [a, b]] ! j = [c, d] \<and> usable (best[i := [a, b]]) j c \<and> usable (best[i := [a, b]]) j d)"
  proof (cases "j = i")
    case True
    with assms len show ?thesis
      by (simp add: usable_update)
  next
    case False
    with assms(1,2) j have "best ! j = [] \<or> best ! j = [j] \<or> i \<le> j \<and> (\<exists>c d. best ! j = [c, d] \<and> usable best j c \<and> usable best j d)"
      unfolding good_best_def by (meson le_trans less_imp_le)
    with False usable_update [OF assms(4)] show ?thesis
      by (metis nth_list_update_neq)
  qed
qed (use assms(1) in \<open>simp add: good_best_def\<close>)

lemma sublist_middle: "expands best (us @ vs @ ws) s \<Longrightarrow> \<exists>r. expands best vs r \<and> sublist r s"
  by (metis expands_appendD sublist_appendI)

lemma part_update:
  assumes "part_of_names names best j" "best ! i = []" "j \<noteq> i"
  shows "part_of_names names (best[i := x]) j"
  using assms expands_update [OF _ assms(2)] unfolding part_of_names_def by (metis nth_list_update_neq)

lemma optimize_step:
  assumes inv: "table_inv k names t" and i: "i < k" "k \<le> 256" "best_tokens t ! i = []"
    and used: "most_used_multibyte_token (multibyte_tokens t) = (index, score)" "score \<noteq> 0"
  shows "table_inv i names (compress_with_compound_token i
    (t\<lparr>best_tokens := (best_tokens t)[i := [drop_bit 0 index AND 0xFF, drop_bit 8 index AND 0xFF]]\<rparr>))"
proof -
  let ?best = "best_tokens t" and ?syms = "tok_symbols t"
  from inv have good: "good_best k ?best" and exp: "list_all2 (expands ?best) ?syms names"
      and counts: "\<And>p. multibyte_tokens t p = total_pairs ?syms p" and parts: "\<And>j. j < 256 \<Longrightarrow> part_of_names names ?best j"
    by (auto simp: table_inv_def)
  have len: "length ?best = 256"
    using good by (simp add: good_best_def)
  have "score = total_pairs ?syms index"
    using most_used_eq(2) [OF used(1)] counts total_pairs_nonneg by simp
  then obtain tokens where tokens: "tokens \<in> set ?syms" "index \<in> set (pairs_of tokens)"
    using used(2) total_pairs_occurs by blast
  then obtain us a b vs where split: "tokens = us @ [a, b] @ vs" "index = pair_index a b"
    using pairs_of_split by blast
  obtain n where n: "n \<in> set names" "expands ?best tokens n"
    using exp tokens(1) by (metis in_set_conv_nth list_all2_conv_all_nth)
  have used_ab: "c < 256 \<and> ?best ! c \<noteq> []" if "c = a \<or> c = b" for c
    using expands_used [OF n(2), of c] that len split(1) by auto
  then have ab: "usable ?best i a" "usable ?best i b"
    using good_best_used [OF good _ _ i(1)] by blast+
  define best' where "best' = ?best[i := [a, b]]"
  have idx: "drop_bit 0 index AND 0xFF = a" "drop_bit 8 index AND 0xFF = b"
    using pair_index_decode used_ab unfolding split(2) by blast+
  have good': "good_best i best'"
    unfolding best'_def by (rule good_best_update [OF good i ab])
  have here: "i < length best'" "best' ! i = [a, b]"
    using i len by (simp_all add: best'_def)
  obtain r where r: "expands ?best [a, b] r" "sublist r n"
    using sublist_middle n(2) split(1) by blast
  have "expands best' [i] r"
    using expands.compound [OF here expands_update [OF r(1) i(3), of "[a, b]", folded best'_def] expands.nothing] by simp
  then have parts': "part_of_names names best' j" if "j < 256" for j
    using parts [OF that] part_update [OF _ i(3)] r(2) n(1) unfolding best'_def part_of_names_def by (cases "j = i") blast+
  obtain syms' counts' where c: "compress_symbols i a b ?syms (multibyte_tokens t) = (syms', counts')"
    by force
  have "syms' = map (\<lambda>tokens. snd (compress_loop i a b tokens)) ?syms"
    using compress_symbols_tokens [of i a b ?syms "multibyte_tokens t"] c by simp
  moreover have "list_all2 (expands best') ?syms names"
    using exp by (rule list_all2_mono) (simp add: best'_def expands_update i(3))
  ultimately have exp': "list_all2 (expands best') syms' names"
    using compress_loop_expands [OF here] by (auto simp: list_all2_conv_all_nth)
  have "counts' p = total_pairs syms' p" for p
    using compress_symbols_counts [OF c] counts by simp
  with good' exp' parts' c here(2) show ?thesis
    unfolding idx best'_def [symmetric] by (simp add: table_inv_def compress_with_compound_token_def Let_def)
qed

lemma table_inv_mono: "table_inv k names t \<Longrightarrow> i \<le> k \<Longrightarrow> table_inv i names t"
  unfolding table_inv_def good_best_def by (meson le_trans)

lemma optimize_loop_inv: "table_inv k names t \<Longrightarrow> k \<le> 256 \<Longrightarrow> table_inv 0 names (optimize_loop (rev [0..<k]) t)"
proof (induction k arbitrary: t)
  case (Suc k)
  obtain index score where used: "most_used_multibyte_token (multibyte_tokens t) = (index, score)"
    by force
  show ?case
  proof (cases "best_tokens t ! k = [] \<and> score \<noteq> 0")
    case True
    with Suc.IH [OF optimize_step [OF Suc.prems(1) _ Suc.prems(2) _ used]] Suc.prems used show ?thesis
      by simp
  next
    case False
    have "table_inv k names t" "table_inv 0 names t"
      using table_inv_mono [OF Suc.prems(1)] by simp_all
    with False Suc.IH [of t] Suc.prems(2) used show ?thesis
      by auto
  qed
qed simp

section \<open>The table at the start\<close>

lemma record_for_best_nth:
  "j < length best \<Longrightarrow> record_for_best tokens best ! j = (if j \<in> set tokens then [j] else best ! j)"
proof (induction tokens arbitrary: best)
  case (Cons t tokens)
  then show ?case
    by (cases "j = t") (simp_all add: record_for_best_def)
qed (simp add: record_for_best_def)

lemma length_record_for_best [simp]: "length (record_for_best tokens best) = length best"
  by (induction tokens arbitrary: best) (simp_all add: record_for_best_def)

lemma recorded_nth:
  "j < length best \<Longrightarrow> fold record_for_best toks best ! j = (if \<exists>tokens \<in> set toks. j \<in> set tokens then [j] else best ! j)"
  by (induction toks arbitrary: best) (auto simp: record_for_best_nth)

lemma length_recorded [simp]: "length (fold record_for_best toks best) = length best"
  by (induction toks arbitrary: best) simp_all

lemma counted: "fold (count_pairs 1) toks counts p = counts p + total_pairs toks p"
  by (induction toks arbitrary: counts) (simp_all add: total_pairs_def count_pairs_eq)

lemma of_char_less [simp]: "(of_char c :: nat) < 256"
  using nat_of_char_less_256 by simp

lemma expands_chars:
  "length best = 256 \<Longrightarrow> \<forall>c \<in> set n. best ! of_char c = [of_char c] \<Longrightarrow> expands best (map of_char n) n"
proof (induction n)
  case (Cons c n)
  then show ?case
    using expands.character [of "of_char c" best "map of_char n" n] by simp
qed (simp add: expands.nothing)

lemma start_inv:
  fixes names :: "char list list"
  defines "toks \<equiv> map (map of_char) names"
  shows "table_inv 256 names \<lparr>tok_symbols = toks, multibyte_tokens = fold (count_pairs 1) toks (\<lambda>_. 0),
    best_tokens = fold record_for_best toks (replicate 256 [])\<rparr>"
proof -
  let ?best = "fold record_for_best toks (replicate 256 [])"
  have at: "?best ! j = (if \<exists>n \<in> set names. j \<in> of_char ` set n then [j] else [])" if "j < 256" for j
    using recorded_nth [of j "replicate 256 []" toks] that by (auto simp: toks_def)
  have "expands ?best (map of_char n) n" if "n \<in> set names" for n
    using that by (intro expands_chars) (auto simp: at)
  then have "list_all2 (expands ?best) toks names"
    by (simp add: toks_def list_all2_conv_all_nth)
  moreover have "part_of_names names ?best j" if j: "j < 256" for j
  proof -
    have "\<exists>s. expands ?best [j] s \<and> (\<exists>n \<in> set names. sublist s n)" if "?best ! j \<noteq> []"
    proof -
      from that at [OF j] obtain n c where n: "n \<in> set names" "c \<in> set n" "j = of_char c" "?best ! j = [j]"
        by (auto split: if_splits)
      then have "expands ?best [j] [c]"
        using expands.character [OF _ n(4) expands.nothing] j by simp
      moreover have "sublist [c] n"
        using n(2) by (metis append_Cons append_Nil split_list sublist_appendI)
      ultimately show ?thesis
        using n(1) by blast
    qed
    then show ?thesis
      by (simp add: part_of_names_def)
  qed
  moreover have "good_best 256 ?best"
    using at by (simp add: good_best_def)
  ultimately show ?thesis
    by (simp add: table_inv_def counted)
qed

lemma make_token_table_inv: "table_inv 0 (map sym_name symbols) (make_token_table symbols)"
proof -
  have eq: "map tokenized symbols = map (map of_char) (map sym_name symbols)"
    by (simp add: tokenized_def canonical_name_def)
  show ?thesis
    unfolding make_token_table_def Let_def eq by (rule optimize_loop_inv [OF start_inv]) simp
qed

section \<open>Unwinding\<close>

text \<open>The function follows the relation, to a depth that the order of the compounds bounds.\<close>

lemma unwind_expands:
  assumes "good_best 0 best"
  shows "expands best ts s \<Longrightarrow> \<forall>t \<in> set ts. best ! t = [t] \<or> 256 \<le> t + f \<Longrightarrow> unwind_compound (Suc f) best ts = Inr s"
proof (induction arbitrary: f rule: expands.induct)
  case (compound t a b s1 ts s)
  from assms compound.hyps(1,2) have t: "t < 256" "usable best t a" "usable best t b"
    by (auto simp: good_best_def split: if_splits)
  then obtain f' where f: "f = Suc f'"
    using compound.prems compound.hyps(2) by (cases f) auto
  have "unwind_compound f best [a, b] = Inr s1"
    unfolding f using t compound.prems compound.hyps(2) f by (intro compound.IH(1)) (auto simp: usable_def)
  with compound show ?case
    by simp
qed simp_all

end
