(* ===== verification/SymbolGenTables.thy ===== *)
theory SymbolGenTables
  imports SymbolGenTokens
begin

text \<open>
  What the generator writes is what the kernel's lookup expects: the tables of a context are \<open>tables_of\<close> its
  symbols with their names, and so the lookup of an address in the kernel finds the symbol that \<^verbatim>\<open>nm\<close> listed there.
\<close>

section \<open>Sorting\<close>

lemma set_insert_by [simp]: "set (insert_by cmp x ys) = insert x (set ys)"
  by (induction ys) auto

lemma set_sort_by_cmp [simp]: "set (sort_by_cmp cmp xs) = set xs"
  by (induction xs) (simp_all add: sort_by_cmp_def)

lemma length_insert_by [simp]: "length (insert_by cmp x ys) = Suc (length ys)"
  by (induction ys) auto

lemma length_sort_by_cmp [simp]: "length (sort_by_cmp cmp xs) = length xs"
  by (induction xs) (simp_all add: sort_by_cmp_def)

text \<open>A comparator that compares a key in a linear order sorts by it.\<close>

definition compares :: "('a \<Rightarrow> 'a \<Rightarrow> int) \<Rightarrow> ('a \<Rightarrow> 'a \<Rightarrow> bool) \<Rightarrow> bool" where
  "compares cmp before \<longleftrightarrow> transp before \<and> (\<forall>x y. (cmp x y < 0 \<longrightarrow> before x y) \<and> (\<not> cmp x y < 0 \<longrightarrow> before y x))"

lemma insert_by_sorted: "compares cmp before \<Longrightarrow> sorted_wrt before ys \<Longrightarrow> sorted_wrt before (insert_by cmp x ys)"
proof (induction ys)
  case (Cons y ys)
  then show ?case
    by (auto simp: compares_def dest: transpD)
qed simp

lemma sort_by_cmp_sorted: "compares cmp before \<Longrightarrow> sorted_wrt before (sort_by_cmp cmp xs)"
  by (induction xs) (simp_all add: sort_by_cmp_def insert_by_sorted)

text \<open>By address, and strong symbols before weak ones at the same address.\<close>

definition not_after :: "py_symbol \<Rightarrow> py_symbol \<Rightarrow> bool" where
  "not_after r s \<longleftrightarrow> sym_address r < sym_address s \<or> sym_address r = sym_address s \<and> (is_weak r \<longrightarrow> is_weak s)"

lemma address_comparator: "compares sort_by_address_comparator not_after"
  unfolding compares_def
proof (intro conjI allI)
  show "transp not_after"
    by (rule transpI) (auto simp: not_after_def)
qed (auto simp: not_after_def sort_by_address_comparator_def split: if_splits)

section \<open>Writing the tables\<close>

lemma emit_all_same: "\<forall>v \<in> set vs. value v = Inr v \<Longrightarrow> emit_all value vs = Inr vs"
  by (induction vs) simp_all

lemma nat_and_255: "n AND 0xFF = n mod 256" for n :: nat
  using take_bit_eq_mask [of 8 n] by (simp add: mask_eq_exp_minus_1 take_bit_eq_mod)

definition enc :: "nat list \<Rightarrow> nat list" where "enc tokens = length tokens # tokens"

lemma leb128_max_values: "leb128_max 1 = 127" "leb128_max (Suc 0) = 127" "leb128_max 2 = 16383"
  by (simp_all add: leb128_max_def push_bit_eq_mult)

lemma emit_names_eq:
  "\<forall>tokens \<in> set symbols. tokens \<noteq> [] \<and> length tokens \<le> 127 \<Longrightarrow>
   emit_names idx off symbols = Inr (concat (map enc symbols),
     map (\<lambda>i. int (off + length (concat (map enc (take i symbols))))) (filter (\<lambda>i. (idx + i) mod 256 = 0) [0..<length symbols]))"
proof (induction symbols arbitrary: idx off)
  case (Cons tokens symbols)
  have "[0..<length (tokens # symbols)] = 0 # map Suc [0..<length symbols]"
    by (simp add: upt_conv_Cons map_Suc_upt del: upt_Suc)
  with Cons show ?case
    by (auto simp: Let_def leb128_max_values nat_and_255 enc_def filter_map o_def)
qed simp

lemma blocks: "filter (\<lambda>i. i mod 256 = 0) [0..<n] = map ((*) 256) [0..<(n + 255) div 256]" for n :: nat
proof (induction n)
  case (Suc n)
  have "n = 256 * (n div 256) + n mod 256" "n mod 256 < 256"
    by simp_all
  then obtain q r where n: "n = 256 * q + r" "r < 256" ..
  have div: "(256 * a + b) div 256 = a" if "b < 256" for a b :: nat
    using that by simp
  have r: "n mod 256 = r"
    using n by simp
  show ?case
  proof (cases "r = 0")
    case True
    have "Suc n + 255 = 256 * Suc q + 0" "n + 255 = 256 * q + 255"
      using n True by simp_all
    then have "(Suc n + 255) div 256 = Suc q" "(n + 255) div 256 = q"
      using div [of 0 "Suc q"] div [of 255 q] by simp_all
    moreover have "n = 256 * q"
      using n True by simp
    ultimately show ?thesis
      using Suc True r by simp
  next
    case False
    have "Suc n + 255 = 256 * Suc q + r" "n + 255 = 256 * Suc q + (r - 1)"
      using n False by simp_all
    then have "(Suc n + 255) div 256 = Suc q" "(n + 255) div 256 = Suc q"
      using div [of r "Suc q"] div [of "r - 1" "Suc q"] n(2) by simp_all
    with Suc False r show ?thesis
      by simp
  qed
qed simp

lemma emit_tokens_eq:
  "list_all2 (\<lambda>tok s. unwind_compound PY_RECURSION_LIMIT best tok = Inr s) toks strs \<Longrightarrow>
   emit_tokens best off toks = Inr (concat (map (\<lambda>s. map of_char s @ [0]) strs),
     map (\<lambda>i. int (off + length (concat (map (\<lambda>s. map of_char s @ [0 :: nat]) (take i strs))))) [0..<length strs])"
proof (induction toks strs arbitrary: off rule: list_all2_induct)
  case (Cons tok toks s strs)
  have "[0..<length (s # strs)] = 0 # map Suc [0..<length strs]"
    by (simp add: upt_conv_Cons map_Suc_upt del: upt_Suc)
  with Cons show ?case
    by (simp add: o_def algebra_simps)
qed simp

section \<open>The texts of the tokens\<close>

lemma token_text:
  assumes "good_best 0 best" "j < 256" "part_of_names names best j"
  shows "\<exists>s. unwind_compound PY_RECURSION_LIMIT best (best ! j) = Inr s \<and> (best ! j \<noteq> [] \<longrightarrow> expands best [j] s) \<and>
    (s = [] \<or> (\<exists>n \<in> set names. sublist s n))"
proof (cases "best ! j = []")
  case True
  then show ?thesis
    by simp
next
  case False
  with assms(3) obtain s n where s: "expands best [j] s" "n \<in> set names" "sublist s n"
    by (auto simp: part_of_names_def)
  have deep: "expands best ts r \<Longrightarrow> unwind_compound PY_RECURSION_LIMIT best ts = Inr r" for ts r
    using unwind_expands [OF assms(1), of ts r 899] by (simp add: PY_RECURSION_LIMIT_def eval_nat_numeral)
  from s(1) have "expands best (best ! j) s"
  proof (cases rule: expands.cases)
    case (compound a b s1 s')
    then show ?thesis
      by simp
  qed (use s(1) in auto)
  with deep s show ?thesis
    by blast
qed

text \<open>The list of the texts of all tokens spells every expansion.\<close>

definition texts_of :: "nat list list \<Rightarrow> char list list \<Rightarrow> bool" where
  "texts_of best strs \<longleftrightarrow> length strs = 256 \<and> (\<forall>j < 256. best ! j \<noteq> [] \<longrightarrow> expands best [j] (strs ! j))"

lemma expands_unique: "expands best ts s \<Longrightarrow> expands best ts r \<Longrightarrow> r = s"
proof (induction arbitrary: r rule: expands.induct)
  case (character t ts s)
  from character.prems character.hyps(2) obtain r' where "r = char_of t # r'" "expands best ts r'"
    by (auto elim: expands_ConsE)
  with character.IH show ?case
    by simp
next
  case (compound t a b s1 ts s)
  from compound.prems compound.hyps(2) obtain r1 r' where "r = r1 @ r'" "expands best [a, b] r1" "expands best ts r'"
    by (auto elim!: expands_ConsE [of best t ts r])
  with compound.IH show ?case
    by simp
qed simp

lemma expands_spelled:
  "expands best ts s \<Longrightarrow> texts_of best strs \<Longrightarrow> length best = 256 \<Longrightarrow> s = concat (map ((!) strs) ts)"
proof (induction ts arbitrary: s)
  case (Cons t ts)
  obtain s1 s2 where s: "s = s1 @ s2" "expands best [t] s1" "expands best ts s2"
    using expands_appendD [of best "[t]" ts s] Cons.prems(1) by auto
  have "t < 256" "best ! t \<noteq> []"
    using expands_used [OF Cons.prems(1), of t] Cons.prems(3) by auto
  with Cons.prems(2) have "expands best [t] (strs ! t)"
    by (simp add: texts_of_def)
  with expands_unique s Cons show ?case
    by auto
qed simp

definition string_bytes :: "char list \<Rightarrow> 8 word list" where "string_bytes = map of_char"

lemma byte_of_char: "(word_of_nat (of_char c) :: 8 word) = of_char c"
  by (simp add: of_char_def)

lemma string_bytes_simps [simp]: "length (string_bytes s) = length s" "string_bytes (concat ss) = concat (map string_bytes ss)"
  by (simp_all add: string_bytes_def map_concat)

lemma zero_in_bytes: "0 \<in> set (string_bytes s) \<longleftrightarrow> CHR 0x00 \<in> set s"
proof -
  have "(of_char c :: 8 word) = 0 \<longleftrightarrow> c = CHR 0x00" for c
  proof
    assume "(of_char c :: 8 word) = 0"
    then have "(of_char c :: nat) = 0"
      using unat_byte [OF of_char_less [of c]] by (simp flip: byte_of_char)
    then have "c = char_of (0 :: nat)"
      by (metis char_of_char)
    then show "c = CHR 0x00"
      by (simp add: char_of_def)
  qed simp
  then show ?thesis
    by (force simp: string_bytes_def)
qed

section \<open>The tables\<close>

text \<open>A context as \<open>make_context\<close> gives it, of a kernel that fits the tables.\<close>

definition fits_tables :: "sym_context \<Rightarrow> bool" where
  "fits_tables ctx \<longleftrightarrow> sorted_wrt not_after (ctx_symbols ctx) \<and>
     (\<forall>s \<in> set (ctx_symbols ctx). sym_name s \<noteq> [] \<and> length (sym_name s) \<le> 127 \<and> CHR 0x00 \<notin> set (sym_name s) \<and>
        sec_begin (ctx_text ctx) \<le> sym_address s \<and> sym_address s \<le> sec_end (ctx_text ctx)) \<and>
     0 \<le> sec_begin (ctx_text ctx) \<and> sec_end (ctx_text ctx) < 2 ^ 64 \<and> sec_end (ctx_text ctx) - sec_begin (ctx_text ctx) < 2 ^ 32 \<and>
     128 * length (ctx_symbols ctx) < 2 ^ 32"

definition first_address :: "sym_context \<Rightarrow> int" where
  "first_address ctx = (if ctx_symbols ctx \<noteq> [] then sym_address (hd (ctx_symbols ctx)) else 0)"

text \<open>A symbol in the tables: its address relative to the first, and its tokens.\<close>

definition entry_of :: "sym_context \<Rightarrow> py_symbol \<Rightarrow> nat list \<Rightarrow> symbol" where
  "entry_of ctx s tokens = (word_of_int (sym_address s - first_address ctx), map word_of_nat tokens)"

lemma enc_encode: "length tokens \<le> 127 \<Longrightarrow> map word_of_nat (enc tokens) = encode_symbol (map word_of_nat tokens)"
  by (simp add: enc_def encode_symbol_def encode_length_def)

lemma length_enc [simp]: "length (enc tokens) = Suc (length tokens)"
  by (simp add: enc_def)

lemma length_concat_enc: "\<forall>tokens \<in> set symbols. length tokens \<le> 127 \<Longrightarrow> length (concat (map enc symbols)) \<le> 128 * length symbols"
  by (induction symbols) auto

lemma length_concat_texts:
  "\<forall>s \<in> set strs. length s \<le> 127 \<Longrightarrow> length (concat (map (\<lambda>s. map of_char s @ [0 :: nat]) strs)) \<le> 128 * length strs"
  by (induction strs) auto

lemma word_of_int_mono:
  assumes "0 \<le> x" "x \<le> y" "y < 2 ^ 32"
  shows "(word_of_int x :: 32 word) \<le> word_of_int y"
  using assms by (simp add: word_le_def unsigned_of_int take_bit_int_eq_self)

text \<open>The generator succeeds on such a context: none of its assertions fails, nor does the recursion end.\<close>

lemma generate_parts:
  assumes "fits_tables ctx"
  defines "t \<equiv> make_token_table (ctx_symbols ctx)"
  shows "\<exists>strs. texts_of (best_tokens t) strs \<and> (\<forall>s \<in> set strs. CHR 0x00 \<notin> set s) \<and>
    list_all2 (\<lambda>tokens s. expands (best_tokens t) tokens (sym_name s) \<and> tokens \<noteq> [] \<and> length tokens \<le> 127)
      (tok_symbols t) (ctx_symbols ctx) \<and> length (best_tokens t) = 256 \<and>
    emit_names 0 0 (tok_symbols t) = Inr (concat (map enc (tok_symbols t)),
      map (\<lambda>k. int (length (concat (map enc (take (256 * k) (tok_symbols t)))))) [0..<(length (ctx_symbols ctx) + 255) div 256]) \<and>
    emit_tokens (best_tokens t) 0 (best_tokens t) = Inr (concat (map (\<lambda>s. map of_char s @ [0]) strs),
      map (\<lambda>i. int (length (concat (map (\<lambda>s. map of_char s @ [0 :: nat]) (take i strs))))) [0..<256]) \<and>
    (\<forall>s \<in> set strs. length s \<le> 127)"
proof -
  let ?best = "best_tokens t" and ?syms = "tok_symbols t" and ?names = "map sym_name (ctx_symbols ctx)"
  have inv: "table_inv 0 ?names t"
    unfolding t_def by (rule make_token_table_inv)
  then have good: "good_best 0 ?best" and len: "length ?best = 256" and parts: "\<And>j. j < 256 \<Longrightarrow> part_of_names ?names ?best j"
      and exp: "list_all2 (expands ?best) ?syms ?names"
    by (auto simp: table_inv_def good_best_def)
  have names: "n \<noteq> [] \<and> length n \<le> 127 \<and> CHR 0x00 \<notin> set n" if "n \<in> set ?names" for n
    using that assms(1) by (auto simp: fits_tables_def)
  define str where "str j = (SOME s. unwind_compound PY_RECURSION_LIMIT ?best (?best ! j) = Inr s \<and>
      (?best ! j \<noteq> [] \<longrightarrow> expands ?best [j] s) \<and> (s = [] \<or> (\<exists>n \<in> set ?names. sublist s n)))" for j
  have str: "unwind_compound PY_RECURSION_LIMIT ?best (?best ! j) = Inr (str j)" "?best ! j \<noteq> [] \<Longrightarrow> expands ?best [j] (str j)"
      "length (str j) \<le> 127" "CHR 0x00 \<notin> set (str j)" if j: "j < 256" for j
  proof -
    have *: "unwind_compound PY_RECURSION_LIMIT ?best (?best ! j) = Inr (str j) \<and>
      (?best ! j \<noteq> [] \<longrightarrow> expands ?best [j] (str j)) \<and> (str j = [] \<or> (\<exists>n \<in> set ?names. sublist (str j) n))"
      unfolding str_def by (rule someI_ex) (rule token_text [OF good j parts [OF j]])
    then show "unwind_compound PY_RECURSION_LIMIT ?best (?best ! j) = Inr (str j)" "?best ! j \<noteq> [] \<Longrightarrow> expands ?best [j] (str j)"
      by blast+
    from * show "length (str j) \<le> 127" "CHR 0x00 \<notin> set (str j)"
      using names sublist_length_le set_mono_sublist by (metis empty_iff le_trans list.set(1) list.size(3) zero_le, metis empty_iff list.set(1) subsetD)
  qed
  define strs where "strs = map str [0..<256]"
  have "list_all2 (\<lambda>tok s. unwind_compound PY_RECURSION_LIMIT ?best tok = Inr s) ?best strs"
    using str(1) len by (simp add: strs_def list_all2_conv_all_nth)
  note texts = emit_tokens_eq [OF this, of 0]
  have syms: "list_all2 (\<lambda>tokens s. expands ?best tokens (sym_name s) \<and> tokens \<noteq> [] \<and> length tokens \<le> 127) ?syms (ctx_symbols ctx)"
    unfolding list_all2_conv_all_nth
  proof (intro conjI allI impI)
    show eq: "length ?syms = length (ctx_symbols ctx)"
      using exp by (simp add: list_all2_conv_all_nth)
    fix i
    assume i: "i < length ?syms"
    then have *: "expands ?best (?syms ! i) (sym_name (ctx_symbols ctx ! i))" "sym_name (ctx_symbols ctx ! i) \<in> set ?names"
      using exp eq by (auto simp: list_all2_conv_all_nth)
    from * show "expands ?best (?syms ! i) (sym_name (ctx_symbols ctx ! i))"
      by blast
    show "?syms ! i \<noteq> []" "length (?syms ! i) \<le> 127"
      using * names [OF *(2)] expands_length [OF *(1)] by auto
  qed
  then have "\<forall>tokens \<in> set ?syms. tokens \<noteq> [] \<and> length tokens \<le> 127" "length ?syms = length (ctx_symbols ctx)"
    by (auto simp: list_all2_conv_all_nth in_set_conv_nth)
  with emit_names_eq [OF this(1), of 0 0] have "emit_names 0 0 ?syms = Inr (concat (map enc ?syms),
      map (\<lambda>k. int (length (concat (map enc (take (256 * k) ?syms))))) [0..<(length (ctx_symbols ctx) + 255) div 256])"
    by (simp add: blocks o_def)
  moreover have "texts_of ?best strs"
    using str(2) by (simp add: texts_of_def strs_def)
  moreover have "\<forall>s \<in> set strs. CHR 0x00 \<notin> set s \<and> length s \<le> 127"
    using str(3,4) by (auto simp: strs_def)
  ultimately show ?thesis
    using texts syms len by (intro exI [of _ strs] conjI) (auto simp: strs_def)
qed

lemma sorted_addresses: "sorted_wrt not_after symbols \<Longrightarrow> sorted (map sym_address symbols)"
  by (induction symbols) (auto simp: not_after_def)

lemma fits_address:
  assumes "fits_tables ctx" "s \<in> set (ctx_symbols ctx)"
  shows "first_address ctx \<le> sym_address s" "sym_address s - first_address ctx < 2 ^ 32"
    "0 \<le> first_address ctx" "first_address ctx - sec_begin (ctx_text ctx) < 2 ^ 32" "sym_address s < 2 ^ 64"
proof -
  obtain r rs where r: "ctx_symbols ctx = r # rs"
    using assms(2) by (cases "ctx_symbols ctx") auto
  with assms(1) have "sorted (map sym_address (r # rs))"
    by (metis fits_tables_def sorted_addresses)
  with assms(2) r show "first_address ctx \<le> sym_address s"
    by (auto simp: first_address_def)
  have "sec_begin (ctx_text ctx) \<le> sym_address r" "sym_address r \<le> sec_end (ctx_text ctx)" "sym_address s \<le> sec_end (ctx_text ctx)"
      "0 \<le> sec_begin (ctx_text ctx)" "sec_end (ctx_text ctx) < 2 ^ 64" "sec_end (ctx_text ctx) - sec_begin (ctx_text ctx) < 2 ^ 32"
    using assms r by (auto simp: fits_tables_def)
  then show "sym_address s - first_address ctx < 2 ^ 32" "0 \<le> first_address ctx" "first_address ctx - sec_begin (ctx_text ctx) < 2 ^ 32"
      "sym_address s < 2 ^ 64"
    by (simp_all add: first_address_def r)
qed

lemma sorted_entries:
  assumes "fits_tables ctx"
  shows "sorted (map (\<lambda>s. word_of_int (sym_address s - first_address ctx) :: 32 word) (ctx_symbols ctx))"
proof -
  have "sorted_wrt not_after (ctx_symbols ctx)"
    using assms by (simp add: fits_tables_def)
  then have "sorted_wrt (\<lambda>r s. sym_address r \<le> sym_address s) (ctx_symbols ctx)"
    by (rule sorted_wrt_mono_rel [rotated]) (auto simp: not_after_def)
  then have "sorted_wrt (\<lambda>r s. (word_of_int (sym_address r - first_address ctx) :: 32 word) \<le> word_of_int (sym_address s - first_address ctx))
      (ctx_symbols ctx)"
    by (rule sorted_wrt_mono_rel [rotated]) (intro word_of_int_mono, use fits_address [OF assms] in auto)
  then show ?thesis
    by (simp add: sorted_wrt_map)
qed

lemma unat_words: "map unat (map word_of_int (map int ns) :: 'a::len word list) = ns" if "\<forall>n \<in> set ns. n < 2 ^ LENGTH('a)"
  using that by (induction ns) (simp_all add: unsigned_of_nat take_bit_nat_eq_self)

lemma emit_all_ints:
  "\<forall>n \<in> set ns. n < 2 ^ 32 \<Longrightarrow> emit_all value_u32 (map int ns) = Inr (map int ns)"
  "\<forall>n \<in> set ns. n < 2 ^ 16 \<Longrightarrow> emit_all value_u16 (map int ns) = Inr (map int ns)"
  by (induction ns) (simp_all add: value_u32_def value_u16_def)

lemma take_concat_length: "length (concat (take i xss)) \<le> length (concat xss)"
  by (metis append_take_drop_id concat_append le_add1 length_append)

lemma generated_tables:
  assumes fits: "fits_tables ctx"
  shows "\<exists>w tokens syms. generate_tables ctx = Inr w \<and> tables_of tokens syms (compiled ctx w) \<and>
    list_all2 (\<lambda>s e. fst e = word_of_int (sym_address s - first_address ctx) \<and> symbol_name tokens (snd e) = string_bytes (sym_name s))
      (ctx_symbols ctx) syms \<and>
    g_symbol_base (compiled ctx w) = word_of_int (first_address ctx)"
proof -
  define t where "t = make_token_table (ctx_symbols ctx)"
  let ?best = "best_tokens t" and ?toks = "tok_symbols t" and ?n = "length (ctx_symbols ctx)"
  obtain strs where strs: "texts_of ?best strs" "\<forall>s \<in> set strs. CHR 0x00 \<notin> set s" "\<forall>s \<in> set strs. length s \<le> 127"
    and toks: "list_all2 (\<lambda>tokens s. expands ?best tokens (sym_name s) \<and> tokens \<noteq> [] \<and> length tokens \<le> 127) ?toks (ctx_symbols ctx)"
    and len: "length ?best = 256"
    and names: "emit_names 0 0 ?toks = Inr (concat (map enc ?toks),
      map int (map (\<lambda>k. length (concat (map enc (take (256 * k) ?toks)))) [0..<(?n + 255) div 256]))"
    and texts: "emit_tokens ?best 0 ?best = Inr (concat (map (\<lambda>s. map of_char s @ [0]) strs),
      map int (map (\<lambda>i. length (concat (map (\<lambda>s. map of_char s @ [0 :: nat]) (take i strs)))) [0..<256]))"
    using generate_parts [OF fits, folded t_def] by (auto simp: o_def)
  let ?markers = "map (\<lambda>k. length (concat (map enc (take (256 * k) ?toks)))) [0..<(?n + 255) div 256]"
  let ?offsets = "map (\<lambda>i. length (concat (map (\<lambda>s. map of_char s @ [0 :: nat]) (take i strs)))) [0..<256]"
  have ntoks: "length ?toks = ?n" "length strs = 256"
    using toks strs(1) by (simp_all add: list_all2_conv_all_nth texts_of_def)
  have short: "\<forall>tokens \<in> set ?toks. length tokens \<le> 127"
    using toks by (auto simp: list_all2_conv_all_nth in_set_conv_nth)
  have "length (concat (map enc ?toks)) \<le> 128 * ?n" "128 * ?n < 2 ^ 32"
    using length_concat_enc [OF short] ntoks fits by (simp_all add: fits_tables_def)
  then have marker: "length (concat (map enc (take i ?toks))) < 2 ^ 32" for i
    using take_concat_length [of i "map enc ?toks"] unfolding take_map by linarith
  have offset: "length (concat (map (\<lambda>s. map of_char s @ [0 :: nat]) (take i strs))) < 2 ^ 16" for i
    using length_concat_texts [OF strs(3)] take_concat_length [of i "map (\<lambda>s. map of_char s @ [0 :: nat]) strs"] ntoks
    unfolding take_map by (simp del: length_concat)
  define addrs where "addrs = map (\<lambda>s. sym_address s - first_address ctx) (ctx_symbols ctx)"
  have base: "first_address ctx - sec_begin (ctx_text ctx) < 2 ^ 32"
    using fits fits_address(4) [OF fits, of "hd (ctx_symbols ctx)"] by (cases "ctx_symbols ctx = []") (auto simp: first_address_def fits_tables_def)
  have u32: "emit_all value_u32 (map int ?markers) = Inr (map int ?markers)" "emit_all value_u16 (map int ?offsets) = Inr (map int ?offsets)"
      "emit_all value_u32 addrs = Inr addrs" "value_u32 (int ?n) = Inr (int ?n)"
      "value_u32 (first_address ctx - sec_begin (ctx_text ctx)) = Inr (first_address ctx - sec_begin (ctx_text ctx))"
  proof -
    show "emit_all value_u32 (map int ?markers) = Inr (map int ?markers)"
      using marker by (intro emit_all_ints) simp
    show "emit_all value_u16 (map int ?offsets) = Inr (map int ?offsets)"
      using offset by (intro emit_all_ints) simp
    show "emit_all value_u32 addrs = Inr addrs"
    proof (intro emit_all_same ballI)
      fix v
      assume "v \<in> set addrs"
      then have "v < 2 ^ 32"
        using fits_address(2) [OF fits] by (auto simp: addrs_def)
      then show "value_u32 v = Inr v"
        by (simp add: value_u32_def)
    qed
  qed (use fits base in \<open>auto simp: value_u32_def fits_tables_def\<close>)
  have "\<exists>w. generate_tables ctx = Inr w \<and> w_count w = int ?n \<and> w_names w = concat (map enc ?toks) \<and> w_markers w = map int ?markers \<and>
    w_token_table w = concat (map (\<lambda>s. map of_char s @ [0]) strs) \<and> w_token_offsets w = map int ?offsets \<and> w_addresses w = addrs \<and>
    w_base w = first_address ctx - sec_begin (ctx_text ctx)"
    using u32 names texts by (simp add: generate_tables_def Let_def t_def [symmetric] first_address_def [symmetric] addrs_def [symmetric] del: map_map)
  then obtain w where w: "generate_tables ctx = Inr w" "w_count w = int ?n" "w_names w = concat (map enc ?toks)" "w_markers w = map int ?markers"
    "w_token_table w = concat (map (\<lambda>s. map of_char s @ [0]) strs)" "w_token_offsets w = map int ?offsets" "w_addresses w = addrs"
    "w_base w = first_address ctx - sec_begin (ctx_text ctx)"
    by blast
  define syms where "syms = map2 (entry_of ctx) (ctx_symbols ctx) ?toks"
  let ?tokens = "map string_bytes strs"
  have codes: "map snd syms = map (map word_of_nat) ?toks" and fsts: "map fst syms = map word_of_int addrs" and nsyms: "length syms = ?n"
    using ntoks by (simp_all add: syms_def entry_of_def addrs_def list_eq_iff_nth_eq)
  have enc: "map (encode_symbol \<circ> snd) (take i syms) = map (map word_of_nat) (map enc (take i ?toks))" for i
  proof -
    have "map (encode_symbol \<circ> snd) (take i syms) = map encode_symbol (take i (map snd syms))"
      by (simp add: take_map)
    also have "\<dots> = map (\<lambda>tokens. encode_symbol (map word_of_nat tokens)) (take i ?toks)"
      unfolding codes by (simp add: take_map)
    also have "\<dots> = map (map word_of_nat) (map enc (take i ?toks))"
      using short by (auto simp: enc_encode dest: in_set_takeD)
    finally show ?thesis .
  qed
  have position: "name_position syms i = length (concat (map enc (take i ?toks)))" for i
    unfolding name_position_def enc by (simp add: length_concat o_def)
  have token_position: "token_position ?tokens i = length (concat (map (\<lambda>s. map of_char s @ [0 :: nat]) (take i strs)))" for i
    by (simp add: token_position_def take_map length_concat o_def)
  have spelled: "symbol_name ?tokens (map word_of_nat tokens) = string_bytes s" if "expands ?best tokens s" for tokens s
  proof -
    have "?tokens ! unat (word_of_nat c :: 8 word) = string_bytes (strs ! c)" if "c \<in> set tokens" for c
      using expands_used [OF \<open>expands ?best tokens s\<close> that] len ntoks by (simp add: unat_byte)
    then have "symbol_name ?tokens (map word_of_nat tokens) = concat (map (string_bytes \<circ> (!) strs) tokens)"
      by (simp add: symbol_name_def o_def cong: map_cong)
    then show ?thesis
      using expands_spelled [OF that strs(1) len] by simp
  qed
  have entries: "list_all2 (\<lambda>s e. fst e = word_of_int (sym_address s - first_address ctx) \<and> symbol_name ?tokens (snd e) = string_bytes (sym_name s))
      (ctx_symbols ctx) syms"
    using toks spelled ntoks by (auto simp: list_all2_conv_all_nth syms_def entry_of_def)
  have "tables_of ?tokens syms (compiled ctx w)"
    unfolding tables_of_def
  proof (intro conjI)
    show "unat (g_symbol_count (compiled ctx w)) = length syms"
      using \<open>128 * ?n < 2 ^ 32\<close> by (simp add: compiled_def w nsyms unsigned_of_nat take_bit_nat_eq_self)
    show "sorted (map fst syms)"
      using sorted_entries [OF fits] by (simp add: fsts addrs_def o_def)
    show "g_symbol_relative_addresses (compiled ctx w) = map fst syms"
      by (simp add: compiled_def w fsts)
    show "g_symbol_compressed_names (compiled ctx w) = concat (map (encode_symbol \<circ> snd) syms)"
      using enc [of ?n] nsyms ntoks by (simp add: compiled_def w map_concat)
    show "list_all (\<lambda>s. length (snd s) < 2 ^ 14 \<and> length (symbol_name ?tokens (snd s)) < MAX_SYMBOL_LENGTH) syms"
    proof (unfold list_all_length, intro allI impI)
      fix i
      assume i: "i < length syms"
      then have "length (sym_name (ctx_symbols ctx ! i)) \<le> 127" "length (?toks ! i) \<le> 127"
        using fits short ntoks nsyms by (auto simp: fits_tables_def)
      with entries i nsyms ntoks show "length (snd (syms ! i)) < 2 ^ 14 \<and> length (symbol_name ?tokens (snd (syms ! i))) < MAX_SYMBOL_LENGTH"
        by (auto simp: list_all2_conv_all_nth MAX_SYMBOL_LENGTH_def) (simp add: syms_def entry_of_def)
    qed
    show "map unat (g_symbol_name_offsets (compiled ctx w)) = map (\<lambda>k. name_position syms (256 * k)) [0..<(length syms + 255) div 256]"
      unfolding compiled_def symbol_tables.simps w nsyms position using marker by (intro unat_words) simp
    show "map unat (g_symbol_token_offsets (compiled ctx w)) = map (token_position ?tokens) [0..<256]"
      unfolding compiled_def symbol_tables.simps w token_position using offset by (intro unat_words) simp
    show "length ?tokens = 256" "list_all (\<lambda>tok. 0 \<notin> set tok) ?tokens"
      using strs(2) ntoks by (simp_all add: list_all_iff zero_in_bytes)
    show "g_symbol_token_table (compiled ctx w) = concat (map (\<lambda>tok. tok @ [0]) ?tokens)"
      by (simp add: compiled_def w map_concat o_def string_bytes_def byte_of_char)
  qed
  moreover have "g_symbol_base (compiled ctx w) = word_of_int (first_address ctx)"
    by (simp add: compiled_def w)
  ultimately show ?thesis
    using w(1) entries by blast
qed

end
