(* ===== verification/SymbolGenLookup.thy ===== *)
theory SymbolGenLookup
  imports SymbolGenTables "HOL-Library.Multiset"
begin

text \<open>
  The generator and the kernel together: from the lines of \<^verbatim>\<open>nm\<close> to the name that a lookup of an address returns.
\<close>

section \<open>The context\<close>

text \<open>The lines that become symbols, and the section that the symbols of the linker mark.\<close>

definition listed :: "nm_line \<Rightarrow> bool" where
  "listed line = (case line of (address, type, name) \<Rightarrow>
     type \<notin> set ''UaAN'' \<and> \<not> (\<exists>p \<in> set [''$a.'', ''$t.'', ''$d.'', ''$x.'']. prefix p name))"

definition note_bound :: "nm_line \<Rightarrow> sym_section \<Rightarrow> sym_section" where
  "note_bound line sec = (case line of (address, type, name) \<Rightarrow>
     if name = text_begin_symbol then sec\<lparr>sec_begin := address\<rparr>
     else if name = text_end_symbol then sec\<lparr>sec_end := address\<rparr> else sec)"

definition text_section :: "nm_line list \<Rightarrow> sym_section" where
  "text_section lines = fold note_bound (filter listed lines) \<lparr>sec_begin = 0, sec_end = 0\<rparr>"

definition in_tables :: "nm_line list \<Rightarrow> nm_line \<Rightarrow> bool" where
  "in_tables lines line = (case line of (address, type, name) \<Rightarrow>
     listed line \<and> \<not> prefix LINKER_SYMBOL_PREFIX name \<and> sec_contains (text_section lines) address)"

definition line_of :: "py_symbol \<Rightarrow> nm_line" where "line_of s = (sym_address s, sym_type s, sym_name s)"

lemma add_symbols_eq:
  "if \<exists>(address, type, name) \<in> set (filter listed lines). 127 < length name then add_symbols lines ctx = Inl Runtime_Error
   else \<exists>ctx'. add_symbols lines ctx = Inr ctx' \<and> map line_of (ctx_symbols ctx') = map line_of (ctx_symbols ctx) @ filter listed lines \<and>
     ctx_text ctx' = fold note_bound (filter listed lines) (ctx_text ctx)"
proof (induction lines arbitrary: ctx)
  case (Cons line lines)
  obtain address type name where line: "line = (address, type, name)"
    by (cases line)
  show ?case
  proof (cases "listed line")
    case False
    then have "context_add_symbol line ctx = Inr ctx"
      by (auto simp: context_add_symbol_def listed_def line)
    with False Cons show ?thesis
      by simp
  next
    case listed: True
    show ?thesis
    proof (cases "127 < length name")
      case True
      with listed show ?thesis
        by (auto simp: context_add_symbol_def listed_def line PY_MAX_SYMBOL_LENGTH_def)
    next
      case False
      define s where "s = \<lparr>sym_name = name, sym_type = type, sym_index = length (ctx_symbols ctx), sym_address = address\<rparr>"
      define ctx1 where "ctx1 = on_symbol_added s (ctx\<lparr>ctx_symbols := ctx_symbols ctx @ [s]\<rparr>)"
      have add: "context_add_symbol line ctx = Inr ctx1"
        using listed False by (auto simp: context_add_symbol_def listed_def line PY_MAX_SYMBOL_LENGTH_def s_def ctx1_def Let_def)
      have ctx1: "map line_of (ctx_symbols ctx1) = map line_of (ctx_symbols ctx) @ [line]" "ctx_text ctx1 = note_bound line (ctx_text ctx)"
        by (simp_all add: ctx1_def on_symbol_added_def note_bound_def line line_of_def s_def)
      show ?thesis
        using Cons.IH [of ctx1] listed False add ctx1 by (force simp: line split: if_splits)
    qed
  qed
qed simp

lemma mset_insert_by [simp]: "mset (insert_by cmp x ys) = add_mset x (mset ys)"
  by (induction ys) auto

lemma mset_sort_by_cmp [simp]: "mset (sort_by_cmp cmp xs) = mset xs"
  by (induction xs) (simp_all add: sort_by_cmp_def)

lemma make_context_eq:
  "if \<exists>(address, type, name) \<in> set (filter listed lines). 127 < length name then make_context lines = Inl Runtime_Error
   else \<exists>ctx. make_context lines = Inr ctx \<and> ctx_text ctx = text_section lines \<and> sorted_wrt not_after (ctx_symbols ctx) \<and>
     mset (map line_of (ctx_symbols ctx)) = mset (filter (in_tables lines) lines)"
proof (cases "\<exists>(address, type, name) \<in> set (filter listed lines). 127 < length name")
  case True
  with add_symbols_eq [of lines "\<lparr>ctx_text = \<lparr>sec_begin = 0, sec_end = 0\<rparr>, ctx_symbols = []\<rparr>"] show ?thesis
    unfolding if_P [OF True] by (simp add: make_context_def)
next
  case False
  obtain ctx where ctx: "add_symbols lines \<lparr>ctx_text = \<lparr>sec_begin = 0, sec_end = 0\<rparr>, ctx_symbols = []\<rparr> = Inr ctx"
      "map line_of (ctx_symbols ctx) = filter listed lines" "ctx_text ctx = text_section lines"
    using add_symbols_eq [of lines "\<lparr>ctx_text = \<lparr>sec_begin = 0, sec_end = 0\<rparr>, ctx_symbols = []\<rparr>", unfolded if_not_P [OF False]]
    by (auto simp: text_section_def)
  let ?kept = "filter (\<lambda>sym. \<not> should_drop ctx sym) (ctx_symbols ctx)"
  have kept: "\<not> should_drop ctx s \<longleftrightarrow> in_tables lines (line_of s)" if "listed (line_of s)" for s
    using that by (auto simp: should_drop_def is_linker_def in_tables_def line_of_def ctx(3))
  have "map line_of ?kept = filter (in_tables lines) (map line_of (ctx_symbols ctx))"
  proof -
    have "listed (line_of s)" if "s \<in> set (ctx_symbols ctx)" for s
    proof -
      have "line_of s \<in> set (map line_of (ctx_symbols ctx))"
        using that by simp
      then show ?thesis
        unfolding ctx(2) by simp
    qed
    then have "?kept = filter (\<lambda>s. in_tables lines (line_of s)) (ctx_symbols ctx)"
      by (intro filter_cong) (simp_all add: kept)
    then show ?thesis
      by (simp add: filter_map o_def)
  qed
  also have "\<dots> = filter (in_tables lines) lines"
    unfolding ctx(2) by (auto simp: in_tables_def intro: filter_cong)
  finally have "mset (map line_of (sort_by_cmp sort_by_address_comparator ?kept)) = mset (filter (in_tables lines) lines)"
    by (metis mset_map mset_sort_by_cmp)
  with ctx sort_by_cmp_sorted [OF address_comparator, of ?kept] show ?thesis
    unfolding if_not_P [OF False] by (simp add: make_context_def)
qed

section \<open>Looking up what was generated\<close>

lemma word_of_int_le_iff:
  assumes "0 \<le> x" "x < 2 ^ LENGTH('a)" "0 \<le> y" "y < 2 ^ LENGTH('a)"
  shows "(word_of_int x :: 'a::len word) \<le> word_of_int y \<longleftrightarrow> x \<le> y"
  using assms by (simp add: word_le_def unsigned_of_int take_bit_int_eq_self)

lemma ucast_of_int: "(ucast (word_of_int x :: 64 word) :: 32 word) = word_of_int x"
  by (rule bit_word_eqI) (simp add: bit_simps)

lemma ucast_of_small: "0 \<le> x \<Longrightarrow> x < 2 ^ 32 \<Longrightarrow> (ucast (word_of_int x :: 32 word) :: 64 word) = word_of_int x"
  by (simp add: word_uint_eq_iff unsigned_ucast_eq unsigned_of_int take_bit_int_eq_self)

text \<open>The symbol that a lookup is to find: of those that start at the address or before it the last by address, and a weak
  one if there is a weak one at that address.\<close>

definition symbol_at :: "sym_context \<Rightarrow> int \<Rightarrow> py_symbol \<Rightarrow> bool" where
  "symbol_at ctx a s \<longleftrightarrow> s \<in> set (ctx_symbols ctx) \<and> sym_address s \<le> a \<and> (\<forall>r \<in> set (ctx_symbols ctx). sym_address r \<le> a \<longrightarrow> not_after r s)"

lemma generated_lookup:
  assumes fits: "fits_tables ctx" and a: "sec_begin (ctx_text ctx) \<le> a" "a \<le> sec_end (ctx_text ctx)"
    and below: "s0 \<in> set (ctx_symbols ctx)" "sym_address s0 \<le> a" and buf: "length buf = MAX_SYMBOL_LENGTH"
  shows "\<exists>w s. generate_tables ctx = Inr w \<and> symbol_at ctx a s \<and>
    symbol_lookup_by_address True (compiled ctx w) (word_of_int a) buf =
      Inr (Inr (word_of_int (a - sym_address s), string_bytes (sym_name s) @ [0] @ drop (Suc (length (sym_name s))) buf))"
proof -
  obtain w tokens syms where w: "generate_tables ctx = Inr w" and tables: "tables_of tokens syms (compiled ctx w)"
    and entries: "list_all2 (\<lambda>s e. fst e = word_of_int (sym_address s - first_address ctx) \<and> symbol_name tokens (snd e) = string_bytes (sym_name s))
      (ctx_symbols ctx) syms"
    and base: "g_symbol_base (compiled ctx w) = word_of_int (first_address ctx)"
    using generated_tables [OF fits] by blast
  let ?first = "first_address ctx" and ?ss = "ctx_symbols ctx"
  from entries have len: "length syms = length ?ss"
    by (simp add: list_all2_conv_all_nth)
  have entry: "fst (syms ! i) = word_of_int (sym_address (?ss ! i) - ?first)" "symbol_name tokens (snd (syms ! i)) = string_bytes (sym_name (?ss ! i))"
    if "i < length ?ss" for i
    using entries that by (simp_all add: list_all2_conv_all_nth)
  have sec: "0 \<le> sec_begin (ctx_text ctx)" "sec_end (ctx_text ctx) < 2 ^ 64" "sec_end (ctx_text ctx) - sec_begin (ctx_text ctx) < 2 ^ 32"
    using fits by (auto simp: fits_tables_def)
  note addr = fits_address [OF fits]
  have "sec_begin (ctx_text ctx) \<le> ?first"
    using fits below(1) by (auto simp: fits_tables_def first_address_def)
  then have rel: "0 \<le> a - ?first" "a - ?first < 2 ^ 32"
    using addr [OF below(1)] below(2) a sec by linarith+
  have code: "address_is_kernel_code (compiled ctx w) (word_of_int a)"
    using a sec by (simp add: address_is_kernel_code_def compiled_def word_of_int_le_iff)
  have rel_eq: "word_of_int (a - ?first) = (ucast (word_of_int a - g_symbol_base (compiled ctx w) :: 64 word) :: 32 word)"
    unfolding base by (metis ucast_of_int wi_hom_sub)
  have "syms \<noteq> []"
    using below(1) len by auto
  from symbol_lookup_exact [OF tables this code buf rel_eq] obtain i where
    i: "i < length syms" "fst (syms ! i) \<le> word_of_int (a - ?first) \<or> i = 0" "\<forall>j < length syms. i < j \<longrightarrow> word_of_int (a - ?first) < fst (syms ! j)"
    and found: "symbol_lookup_by_address True (compiled ctx w) (word_of_int a) buf =
      Inr (Inr (ucast (word_of_int (a - ?first) - fst (syms ! i)),
        symbol_name tokens (snd (syms ! i)) @ [0] @ drop (Suc (length (symbol_name tokens (snd (syms ! i))))) buf))"
    by blast
  let ?s = "?ss ! i"
  have le_iff: "fst (syms ! j) \<le> word_of_int (a - ?first) \<longleftrightarrow> sym_address (?ss ! j) \<le> a" if "j < length ?ss" for j
    using addr [of "?ss ! j"] that rel by (simp add: entry word_of_int_le_iff del: of_int_diff)
  have s: "?s \<in> set ?ss" "sym_address ?s \<le> a"
  proof -
    show "?s \<in> set ?ss"
      using i(1) len by simp
    show "sym_address ?s \<le> a"
    proof (cases "i = 0")
      case True
      then show ?thesis
        using i(1) len rel by (auto simp: first_address_def hd_conv_nth)
    qed (use i len le_iff in auto)
  qed
  have last: "not_after r ?s" if r: "r \<in> set ?ss" "sym_address r \<le> a" for r
  proof -
    obtain j where j: "j < length ?ss" "r = ?ss ! j"
      using r(1) by (auto simp: in_set_conv_nth)
    with r(2) i(3) le_iff len have "j \<le> i"
      by (metis not_le)
    then consider "j = i" | "j < i"
      by linarith
    then show ?thesis
    proof cases
      case 2
      then show ?thesis
        using fits i(1) len by (simp add: fits_tables_def sorted_wrt_iff_nth_less j(2))
    qed (simp add: not_after_def j(2))
  qed
  have "word_of_int (a - ?first) - fst (syms ! i) = (word_of_int (a - sym_address ?s) :: 32 word)"
    using i(1) len by (simp add: entry)
  moreover have "(ucast (word_of_int (a - sym_address ?s) :: 32 word) :: 64 word) = word_of_int (a - sym_address ?s)"
    using s(2) addr(1) [OF s(1)] rel by (intro ucast_of_small) simp_all
  ultimately have "symbol_lookup_by_address True (compiled ctx w) (word_of_int a) buf =
      Inr (Inr (word_of_int (a - sym_address ?s), string_bytes (sym_name ?s) @ [0] @ drop (Suc (length (sym_name ?s))) buf))"
    using found i(1) len by (simp add: entry)
  moreover have "symbol_at ctx a ?s"
    using s last by (simp add: symbol_at_def)
  ultimately show ?thesis
    using w by blast
qed

text \<open>A kernel whose text fits in 4 GiB, with less than 33 million lines.\<close>

definition kernel_lines :: "nm_line list \<Rightarrow> bool" where
  "kernel_lines lines \<longleftrightarrow> (\<forall>(address, type, name) \<in> set lines. name \<noteq> [] \<and> length name \<le> 127 \<and> CHR 0x00 \<notin> set name) \<and>
     length lines < 2 ^ 25 \<and> 0 \<le> sec_begin (text_section lines) \<and> sec_end (text_section lines) < 2 ^ 64 \<and>
     sec_end (text_section lines) - sec_begin (text_section lines) < 2 ^ 32"

lemma kernel_context:
  assumes "kernel_lines lines"
  shows "\<exists>ctx. make_context lines = Inr ctx \<and> fits_tables ctx \<and> ctx_text ctx = text_section lines \<and>
    mset (map line_of (ctx_symbols ctx)) = mset (filter (in_tables lines) lines)"
proof -
  have "\<not> (\<exists>(address, type, name) \<in> set (filter listed lines). 127 < length name)"
    using assms by (fastforce simp: kernel_lines_def)
  from make_context_eq [of lines, unfolded if_not_P [OF this]] obtain ctx where
    ctx: "make_context lines = Inr ctx" "ctx_text ctx = text_section lines" "sorted_wrt not_after (ctx_symbols ctx)"
      "mset (map line_of (ctx_symbols ctx)) = mset (filter (in_tables lines) lines)"
    by blast
  have "line_of s \<in> set lines \<and> in_tables lines (line_of s)" if "s \<in> set (ctx_symbols ctx)" for s
  proof -
    have "line_of s \<in> set (map line_of (ctx_symbols ctx))"
      using that by simp
    then show ?thesis
      using mset_eq_setD [OF ctx(4)] by auto
  qed
  moreover have "length (ctx_symbols ctx) \<le> length lines"
    using arg_cong [OF ctx(4), of size] by (metis length_filter_le length_map size_mset)
  ultimately have "fits_tables ctx"
    using assms ctx(2,3) by (fastforce simp: fits_tables_def kernel_lines_def line_of_def in_tables_def sec_contains_def)
  with ctx show ?thesis
    by blast
qed

text \<open>
  C16: The generator and the kernel agree. For the lines of any kernel that fits, the generator ends without a failed assertion, and
  in the tables it writes the kernel's lookup of an address in the text finds, for every address that a symbol starts at or
  before, the last such symbol, with its name, uncompressed, and the distance from it. Of several symbols at one
  address it finds a weak one if there is one: they are sorted last.
\<close>

theorem generated_tables_find_symbols:
  assumes "kernel_lines lines" "in_tables lines (b, type, name)" "(b, type, name) \<in> set lines" "b \<le> a"
    and "sec_contains (text_section lines) a" "length buf = MAX_SYMBOL_LENGTH"
  shows "\<exists>ctx w s. make_context lines = Inr ctx \<and> generate_tables ctx = Inr w \<and> symbol_at ctx a s \<and>
    mset (map line_of (ctx_symbols ctx)) = mset (filter (in_tables lines) lines) \<and>
    symbol_lookup_by_address True (compiled ctx w) (word_of_int a) buf =
      Inr (Inr (word_of_int (a - sym_address s), string_bytes (sym_name s) @ [0] @ drop (Suc (length (sym_name s))) buf))"
proof -
  obtain ctx where ctx: "make_context lines = Inr ctx" "fits_tables ctx" "ctx_text ctx = text_section lines"
      "mset (map line_of (ctx_symbols ctx)) = mset (filter (in_tables lines) lines)"
    using kernel_context [OF assms(1)] by blast
  have "(b, type, name) \<in> set (map line_of (ctx_symbols ctx))"
    using mset_eq_setD [OF ctx(4)] assms(2,3) by simp
  then obtain s0 where "s0 \<in> set (ctx_symbols ctx)" "sym_address s0 = b"
    by (auto simp: line_of_def)
  with generated_lookup [OF ctx(2) _ _ this(1) _ assms(6), of a] assms(4,5) ctx show ?thesis
    unfolding sec_contains_def by auto
qed

text \<open>A function with a weak alias: the lookup gives the alias.\<close>

definition example_lines :: "nm_line list" where
  "example_lines =
     [(0x1000, CHR ''T'', ''g_linker_symbol_text_begin''), (0x1000, CHR ''T'', ''start''), (0x1010, CHR ''W'', ''alias''),
      (0x1010, CHR ''T'', ''func''), (0x2000, CHR ''T'', ''g_linker_symbol_text_end''), (0x3000, CHR ''D'', ''data'')]"

lemma example_section: "text_section example_lines = \<lparr>sec_begin = 0x1000, sec_end = 0x2000\<rparr>"
  by code_simp

lemma example_kept:
  "filter (in_tables example_lines) example_lines =
     [(0x1000, CHR ''T'', ''start''), (0x1010, CHR ''W'', ''alias''), (0x1010, CHR ''T'', ''func'')]"
  by code_simp

lemma example_found:
  assumes "symbol_at ctx 0x1012 s" "mset (map line_of (ctx_symbols ctx)) = mset (filter (in_tables example_lines) example_lines)"
  shows "sym_address s = 0x1010" "sym_name s = ''alias''"
proof -
  have lines: "line_of ` set (ctx_symbols ctx) = {(0x1000, CHR ''T'', ''start''), (0x1010, CHR ''W'', ''alias''), (0x1010, CHR ''T'', ''func'')}"
    using mset_eq_setD [OF assms(2)] unfolding example_kept by simp
  then have "(0x1010, CHR ''W'', ''alias'') \<in> line_of ` set (ctx_symbols ctx)"
    by simp
  then obtain r where r: "r \<in> set (ctx_symbols ctx)" "sym_address r = 0x1010" "sym_type r = CHR ''W''"
    by (auto simp: line_of_def)
  with assms(1) have after: "not_after r s" and "line_of s \<in> line_of ` set (ctx_symbols ctx)"
    by (simp_all add: symbol_at_def)
  from this(2) have "line_of s = (0x1000, CHR ''T'', ''start'') \<or> line_of s = (0x1010, CHR ''W'', ''alias'') \<or> line_of s = (0x1010, CHR ''T'', ''func'')"
    unfolding lines by simp
  with after r(2,3) show "sym_address s = 0x1010" "sym_name s = ''alias''"
    by (auto simp: not_after_def line_of_def is_weak_def)
qed

theorem generated_tables_find_symbols_witness:
  "\<exists>ctx w. make_context example_lines = Inr ctx \<and> generate_tables ctx = Inr w \<and>
    symbol_lookup_by_address True (compiled ctx w) (word_of_int 0x1012) (replicate 128 0) =
      Inr (Inr (word_of_int 2, string_bytes ''alias'' @ [0] @ drop 6 (replicate 128 0)))"
proof -
  have kernel: "kernel_lines example_lines"
    unfolding kernel_lines_def example_section by (simp add: example_lines_def)
  have start: "in_tables example_lines (0x1000, CHR ''T'', ''start'')" "(0x1000, CHR ''T'', ''start'') \<in> set example_lines"
    using arg_cong [OF example_kept, of set] by auto
  have here: "(0x1000 :: int) \<le> 0x1012" "sec_contains (text_section example_lines) 0x1012" "length (replicate 128 (0 :: 8 word)) = MAX_SYMBOL_LENGTH"
    by (simp_all add: example_section sec_contains_def MAX_SYMBOL_LENGTH_def)
  obtain ctx w s where run: "make_context example_lines = Inr ctx" "generate_tables ctx = Inr w" "symbol_at ctx 0x1012 s"
      "mset (map line_of (ctx_symbols ctx)) = mset (filter (in_tables example_lines) example_lines)"
      "symbol_lookup_by_address True (compiled ctx w) (word_of_int 0x1012) (replicate 128 0) =
        Inr (Inr (word_of_int (0x1012 - sym_address s), string_bytes (sym_name s) @ [0] @ drop (Suc (length (sym_name s))) (replicate 128 0)))"
    using generated_tables_find_symbols [OF kernel start here] by (elim exE conjE)
  have "(0x1012 :: int) - 0x1010 = 2" "Suc (length ''alias'') = 6"
    by simp_all
  with run(1,2) run(5) [unfolded example_found [OF run(3,4)]] show ?thesis
    by (intro exI [of _ ctx] exI [of _ w] conjI) (simp_all only:)
qed


end
