(* ===== verification/Tests.thy ===== *)
theory Tests
  imports ParamTheorems BootAlloc
begin

text \<open>
  The repository's own tests, \<^verbatim>\<open>tests/test-cases/test_parameter.c\<close> and \<^verbatim>\<open>test_boot_alloc.c\<close>, as runs of the model: each test
  case is a truth value, false when an assertion of it fails. All of them hold, so the model does on these inputs what the
  authors expect of the code.
\<close>

section \<open>The command line\<close>

record test_param =
  tp_kind :: kind
  tp_name :: "char list"
  tp_init :: param_value
  tp_expect :: param_value

definition DEFINE_PARAM :: "kind \<Rightarrow> char list \<Rightarrow> param_value \<Rightarrow> param_value \<Rightarrow> test_param" where
  "DEFINE_PARAM type name init expected = \<lparr>tp_kind = type, tp_name = name, tp_init = init, tp_expect = expected\<rparr>"

definition ensure_param_matches :: "test_param \<Rightarrow> param \<Rightarrow> bool" where
  "ensure_param_matches t p \<longleftrightarrow> plain_of (p_value p) = plain_of (tp_expect t)"

definition CMDLINE_PARSE_EXPECT :: "char list \<Rightarrow> test_param list \<Rightarrow> char list \<Rightarrow> bool" where
  "CMDLINE_PARSE_EXPECT cmdline params str =
     (case cmdline_parse (STR_CONSTEXPR cmdline)
             (map (\<lambda>t. \<lparr>p_name = STR_CONSTEXPR (tp_name t), p_ops = ops_of_kind (tp_kind t), p_value = tp_init t\<rparr>) params) False of
        Inl _ \<Rightarrow> False
      | Inr (rest, params', _) \<Rightarrow> str_equals rest (STR_CONSTEXPR str) = Inr True \<and> list_all2 ensure_param_matches params params')"

abbreviation tp_bool where "tp_bool name init expected \<equiv> DEFINE_PARAM K_bool name (Val_bool init) (Val_bool expected)"
abbreviation tp_string where
  "tp_string name init expected \<equiv> DEFINE_PARAM K_string name (Val_string (STR_CONSTEXPR init)) (Val_string (STR_CONSTEXPR expected))"

definition parse_singular :: bool where
  "parse_singular = CMDLINE_PARSE_EXPECT ''foo baz''
     [tp_bool ''foo'' False True, tp_bool ''bar'' True True, tp_bool ''baz'' False True] []"

definition parse_spaces :: bool where
  "parse_spaces = (let t = CHR 0x09; v = CHR 0x0B in CMDLINE_PARSE_EXPECT
     (''      foo=1          bar'' @ [t, t, t, t, t, v] @ ''baz=off'' @ [t, t, t, t, v] @ ''       x'' @ [t, t, t])
     [DEFINE_PARAM K_u8 ''foo'' (Val_u8 0) (Val_u8 1), tp_bool ''bar'' False True, tp_bool ''baz'' True False, tp_bool ''x'' False True] [])"

definition parse_empty_assignment :: bool where
  "parse_empty_assignment = CMDLINE_PARSE_EXPECT ''x= y z=''
     [tp_bool ''x'' False True, tp_bool ''y'' False True, tp_bool ''z'' False True] []"

definition parse_mixed :: bool where
  "parse_mixed = CMDLINE_PARSE_EXPECT ''foo bar=123 baz=on beef=dead cafe=\"123 321\" x=-3 y=0xDEADBEF''
     [tp_bool ''foo'' False True, DEFINE_PARAM K_u32 ''bar'' (Val_u32 0) (Val_u32 123), tp_bool ''baz'' False True,
      tp_string ''beef'' ''alive'' ''dead'', tp_string ''cafe'' [] ''123 321'', DEFINE_PARAM K_i8 ''x'' (Val_i8 0) (Val_i8 (- 3)),
      DEFINE_PARAM K_u64 ''y'' (Val_u64 0) (Val_u64 0xDEADBEF)] []"

definition parse_end :: bool where
  "parse_end = CMDLINE_PARSE_EXPECT ''foo bar hello=\"  ==world==\"     ----x=y--test 123''
     [tp_string ''hello'' [] ''  ==world==''] ''--x=y--test 123''"

definition bad_values :: bool where
  "bad_values = CMDLINE_PARSE_EXPECT ''x=128 y=256 z=0xFFFF a=0xFFFF b=2147483647 c=\"-2147483648\" d=2147483648''
     [DEFINE_PARAM K_i8 ''x'' (Val_i8 3) (Val_i8 3), DEFINE_PARAM K_u8 ''y'' (Val_u8 32) (Val_u8 32),
      DEFINE_PARAM K_u16 ''z'' (Val_u16 235) (Val_u16 0xFFFF), DEFINE_PARAM K_i16 ''a'' (Val_i16 321) (Val_i16 321),
      DEFINE_PARAM K_i32 ''b'' (Val_i32 123) (Val_i32 2147483647), DEFINE_PARAM K_i32 ''c'' (Val_i32 123) (Val_i32 (- 2147483648)),
      DEFINE_PARAM K_i32 ''d'' (Val_i32 123) (Val_i32 123)] []"

definition dashes_are_underscores :: bool where
  "dashes_are_underscores = CMDLINE_PARSE_EXPECT ''foo_bar=123 cafe-babe=321''
     [DEFINE_PARAM K_u64 ''foo_bar'' (Val_u64 0) (Val_u64 123), DEFINE_PARAM K_i64 ''cafe_babe'' (Val_i64 0) (Val_i64 321)] []"

definition bools :: bool where
  "bools = CMDLINE_PARSE_EXPECT
     ''x=0 y=1 z=t a=f b=\"0\" c=1 d=on e=off f=\"Y\" \"g=Y\" g=N h=ON i=Off -- e=1 a=T''
     [tp_bool ''x'' True False, tp_bool ''y'' False True, tp_bool ''z'' False True, tp_bool ''a'' True False, tp_bool ''b'' True False,
      tp_bool ''c'' False True, tp_bool ''d'' False True, tp_bool ''e'' True False, tp_bool ''f'' False True, tp_bool ''g'' True False,
      tp_bool ''h'' False True, tp_bool ''i'' True False] ''e=1 a=T''"

lemma parse_singular_passes: parse_singular
  by code_simp

lemma parse_spaces_passes: parse_spaces
  by code_simp

lemma parse_empty_assignment_passes: parse_empty_assignment
  by code_simp

lemma parse_mixed_passes: parse_mixed
  by code_simp

lemma parse_end_passes: parse_end
  by code_simp

lemma bad_values_passes: bad_values
  by code_simp

lemma dashes_are_underscores_passes: dashes_are_underscores
  by code_simp

lemma bools_passes: bools
  by code_simp

section \<open>The boot allocator\<close>

text \<open>The capacity as a number: evaluating it from \<^verbatim>\<open>PAGE_SIZE\<close> each time is slow.\<close>

lemma initial_capacity_code [code]: "BOOT_ALLOC_INITIAL_CAPACITY = 256"
  by (simp add: BOOT_ALLOC_INITIAL_CAPACITY_def PAGE_SIZE_def sizeof_memory_range_def)

definition RANGE :: "64 word \<Rightarrow> 64 word \<Rightarrow> 64 word \<Rightarrow> memory_range" where
  "RANGE start len type = \<lparr>physical_address = start, size_and_type = MR_ENCODE len type\<rparr>"

definition allocator_setup :: "memory_range list \<Rightarrow> boot_alloc_state \<Rightarrow> boot_alloc_state" where
  "allocator_setup ranges s = s\<lparr>g_buffer := ranges @ drop (length ranges) (g_buffer s), g_buffer_ptr := Initial_Buffer,
     g_capacity := BOOT_ALLOC_INITIAL_CAPACITY, g_entry_count := length ranges\<rparr>"

definition verify_state :: "memory_range list \<Rightarrow> boot_alloc_state \<Rightarrow> bool" where
  "verify_state ranges s \<longleftrightarrow> g_entry_count s = length ranges \<and>
     list_all2 (\<lambda>expected actual. physical_address expected = physical_address actual \<and> MR_SIZE expected = MR_SIZE actual \<and>
       MR_TYPE expected = MR_TYPE actual) ranges (take (length ranges) (g_buffer s))"

datatype boot_test_step =
    ALLOC_PAGES_AT_ASSERT_EQ "64 word" "64 word" "64 word"
  | ALLOC_EXPECT "64 word" "64 word"
  | CHECK_STATE "memory_range list"
  | CHECK_BUFFER buffer_ptr

definition ALLOC_PAGE_AT_ASSERT :: "64 word \<Rightarrow> boot_test_step" where
  "ALLOC_PAGE_AT_ASSERT v = ALLOC_PAGES_AT_ASSERT_EQ v 1 v"

definition ALLOC_PAGES_AT_ASSERT_OOM :: "64 word \<Rightarrow> 64 word \<Rightarrow> boot_test_step" where
  "ALLOC_PAGES_AT_ASSERT_OOM v num_pages = ALLOC_PAGES_AT_ASSERT_EQ v num_pages (encode_error_phys_addr ENOMEM)"

fun run_boot_test :: "boot_test_step list \<Rightarrow> boot_alloc_state \<Rightarrow> bool" where
  "run_boot_test [] s = True"
| "run_boot_test (ALLOC_PAGES_AT_ASSERT_EQ v num_pages expect # cmds) s =
     (case boot_alloc_at 1 s v num_pages of Inl _ \<Rightarrow> False | Inr (s', ret) \<Rightarrow> ret = expect \<and> run_boot_test cmds s')"
| "run_boot_test (ALLOC_EXPECT num_pages expect # cmds) s =
     (case boot_alloc 1 s num_pages of Inl _ \<Rightarrow> False | Inr (s', ret) \<Rightarrow> ret = expect \<and> run_boot_test cmds s')"
| "run_boot_test (CHECK_STATE ranges # cmds) s = (verify_state ranges s \<and> run_boot_test cmds s)"
| "run_boot_test (CHECK_BUFFER b # cmds) s = (g_buffer_ptr s = b \<and> run_boot_test cmds s)"

text \<open>\<open>BASE_STATE\<close> fills the initial buffer. The host translates physical addresses on its own; here the direct map begins at 0.\<close>

definition boot_test :: "memory_range list \<Rightarrow> boot_test_step list \<Rightarrow> bool" where
  "boot_test base_ranges body = run_boot_test body (allocator_setup base_ranges (initial_state 0))"

definition middle_split :: bool where
  "middle_split = boot_test [RANGE 0x1000 0x3000 MEMORY_FREE]
     [ALLOC_PAGE_AT_ASSERT 0x2000,
      CHECK_STATE [RANGE 0x1000 0x1000 MEMORY_FREE, RANGE 0x2000 0x1000 MEMORY_ALLOCATED, RANGE 0x3000 0x1000 MEMORY_FREE]]"

definition left_mergeable :: bool where
  "left_mergeable = boot_test [RANGE 0x1000 0x1000 MEMORY_ALLOCATED, RANGE 0x2000 0x2000 MEMORY_FREE]
     [ALLOC_PAGE_AT_ASSERT 0x2000,
      CHECK_STATE [RANGE 0x1000 0x2000 MEMORY_ALLOCATED, RANGE 0x3000 0x1000 MEMORY_FREE]]"

definition left_non_mergeable :: bool where
  "left_non_mergeable = boot_test [RANGE 0x0000 0x1000 MEMORY_ALLOCATED, RANGE 0x2000 0x2000 MEMORY_FREE]
     [ALLOC_PAGE_AT_ASSERT 0x2000,
      CHECK_STATE [RANGE 0x0000 0x1000 MEMORY_ALLOCATED, RANGE 0x2000 0x1000 MEMORY_ALLOCATED, RANGE 0x3000 0x1000 MEMORY_FREE]]"

definition right_mergeable :: bool where
  "right_mergeable = boot_test [RANGE 0x1000 0x2000 MEMORY_FREE, RANGE 0x3000 0x1000 MEMORY_ALLOCATED]
     [ALLOC_PAGE_AT_ASSERT 0x2000,
      CHECK_STATE [RANGE 0x1000 0x1000 MEMORY_FREE, RANGE 0x2000 0x2000 MEMORY_ALLOCATED]]"

definition right_non_mergeable :: bool where
  "right_non_mergeable = boot_test [RANGE 0x1000 0x2000 MEMORY_FREE, RANGE 0x4000 0x1000 MEMORY_ALLOCATED]
     [ALLOC_PAGE_AT_ASSERT 0x2000,
      CHECK_STATE [RANGE 0x1000 0x1000 MEMORY_FREE, RANGE 0x2000 0x1000 MEMORY_ALLOCATED, RANGE 0x4000 0x1000 MEMORY_ALLOCATED]]"

definition entire_non_mergable :: bool where
  "entire_non_mergable = boot_test [RANGE 0x0000 0x1000 MEMORY_ALLOCATED, RANGE 0x2000 0x1000 MEMORY_FREE, RANGE 0x4000 0x1000 MEMORY_ALLOCATED]
     [ALLOC_PAGE_AT_ASSERT 0x2000,
      CHECK_STATE [RANGE 0x0000 0x1000 MEMORY_ALLOCATED, RANGE 0x2000 0x1000 MEMORY_ALLOCATED, RANGE 0x4000 0x1000 MEMORY_ALLOCATED]]"

definition entire_mergable :: bool where
  "entire_mergable = boot_test [RANGE 0x0000 0x1000 MEMORY_ALLOCATED, RANGE 0x1000 0x1000 MEMORY_FREE, RANGE 0x2000 0x1000 MEMORY_ALLOCATED]
     [ALLOC_PAGE_AT_ASSERT 0x1000,
      CHECK_STATE [RANGE 0x0000 0x3000 MEMORY_ALLOCATED]]"

definition entire_left_mergable :: bool where
  "entire_left_mergable = boot_test [RANGE 0x0000 0x1000 MEMORY_ALLOCATED, RANGE 0x1000 0x1000 MEMORY_FREE, RANGE 0x3000 0x1000 MEMORY_ALLOCATED]
     [ALLOC_PAGE_AT_ASSERT 0x1000,
      CHECK_STATE [RANGE 0x0000 0x2000 MEMORY_ALLOCATED, RANGE 0x3000 0x1000 MEMORY_ALLOCATED]]"

definition entire_right_mergable :: bool where
  "entire_right_mergable = boot_test [RANGE 0x0000 0x1000 MEMORY_ALLOCATED, RANGE 0x2000 0x1000 MEMORY_FREE, RANGE 0x3000 0x1000 MEMORY_ALLOCATED, RANGE 0x5000 0x1000 MEMORY_ALLOCATED]
     [ALLOC_PAGE_AT_ASSERT 0x2000,
      CHECK_STATE [RANGE 0x0000 0x1000 MEMORY_ALLOCATED, RANGE 0x2000 0x2000 MEMORY_ALLOCATED, RANGE 0x5000 0x1000 MEMORY_ALLOCATED]]"

definition alloc_at_oom :: bool where
  "alloc_at_oom = boot_test [RANGE 0x2000 0x1000 MEMORY_FREE, RANGE 0x4000 0x1000 MEMORY_ALLOCATED, RANGE 0x6000 0x1000 MEMORY_FREE, RANGE 0x8000 0x2000 MEMORY_FREE]
     [ALLOC_PAGES_AT_ASSERT_OOM 0x4000 1,
      ALLOC_PAGES_AT_ASSERT_OOM 0x2000 2,
      ALLOC_PAGES_AT_ASSERT_OOM 0x6000 2,
      ALLOC_PAGES_AT_ASSERT_OOM 0x0000 1,
      ALLOC_PAGES_AT_ASSERT_OOM 0x10000 1,
      ALLOC_PAGES_AT_ASSERT_OOM 0x7000 2,
      ALLOC_PAGES_AT_ASSERT_OOM 0x8000 3,
      ALLOC_PAGES_AT_ASSERT_OOM 0x3000 1,
      CHECK_STATE [RANGE 0x2000 0x1000 MEMORY_FREE, RANGE 0x4000 0x1000 MEMORY_ALLOCATED, RANGE 0x6000 0x1000 MEMORY_FREE, RANGE 0x8000 0x2000 MEMORY_FREE]]"

definition alloc_top_down :: bool where
  "alloc_top_down = boot_test [RANGE 0x2000 0x2000 MEMORY_FREE, RANGE 0x4000 0x1000 MEMORY_ALLOCATED, RANGE 0x6000 0x1000 MEMORY_FREE, RANGE 0x8000 0x3000 MEMORY_FREE]
     [ALLOC_EXPECT 1 0xA000,
      CHECK_STATE [RANGE 0x2000 0x2000 MEMORY_FREE, RANGE 0x4000 0x1000 MEMORY_ALLOCATED, RANGE 0x6000 0x1000 MEMORY_FREE, RANGE 0x8000 0x2000 MEMORY_FREE, RANGE 0xA000 0x1000 MEMORY_ALLOCATED],
      ALLOC_EXPECT 2 0x8000,
      CHECK_STATE [RANGE 0x2000 0x2000 MEMORY_FREE, RANGE 0x4000 0x1000 MEMORY_ALLOCATED, RANGE 0x6000 0x1000 MEMORY_FREE, RANGE 0x8000 0x3000 MEMORY_ALLOCATED],
      ALLOC_EXPECT 2 0x2000,
      CHECK_STATE [RANGE 0x2000 0x3000 MEMORY_ALLOCATED, RANGE 0x6000 0x1000 MEMORY_FREE, RANGE 0x8000 0x3000 MEMORY_ALLOCATED],
      ALLOC_EXPECT 2 (encode_error_phys_addr ENOMEM),
      ALLOC_EXPECT 1 0x6000,
      CHECK_STATE [RANGE 0x2000 0x3000 MEMORY_ALLOCATED, RANGE 0x6000 0x1000 MEMORY_ALLOCATED, RANGE 0x8000 0x3000 MEMORY_ALLOCATED],
      ALLOC_EXPECT 1 (encode_error_phys_addr ENOMEM)]"

text \<open>The array is full at two entries and moves to \<^verbatim>\<open>0x3000\<close>.\<close>

definition buffer_growth :: bool where
  "buffer_growth = run_boot_test
     [ALLOC_EXPECT 1 0x2000, CHECK_BUFFER (Direct_Map 0x3000),
      CHECK_STATE [RANGE 0x1000 0x1000 MEMORY_FREE, RANGE 0x2000 0x2000 MEMORY_ALLOCATED]]
     ((allocator_setup [RANGE 0x1000 0x3000 MEMORY_FREE] (initial_state 0))\<lparr>g_capacity := 2\<rparr>)"

lemma middle_split_passes: middle_split
  by code_simp

lemma left_mergeable_passes: left_mergeable
  by code_simp

lemma left_non_mergeable_passes: left_non_mergeable
  by code_simp

lemma right_mergeable_passes: right_mergeable
  by code_simp

lemma right_non_mergeable_passes: right_non_mergeable
  by code_simp

lemma entire_non_mergable_passes: entire_non_mergable
  by code_simp

lemma entire_mergable_passes: entire_mergable
  by code_simp

lemma entire_left_mergable_passes: entire_left_mergable
  by code_simp

lemma entire_right_mergable_passes: entire_right_mergable
  by code_simp

lemma alloc_at_oom_passes: alloc_at_oom
  by code_simp

lemma alloc_top_down_passes: alloc_top_down
  by code_simp

lemma buffer_growth_passes: buffer_growth
  by code_simp

end
