(* ===== verification/Spec2Isabelle.thy ===== *)
theory Spec2Isabelle
  imports Conversions BootAllocTheorems FormatTheorems ParamTypes UnwindWalk Earlycon PageTable Division Entry Interrupts Arm Panic SymbolGenLookup Tests
begin

text \<open>
  A verification development for the Ultra kernel (\<^verbatim>\<open>kernel/\<close>). File names below are relative to that
  directory, except \<^verbatim>\<open>scripts/\<close> and \<^verbatim>\<open>tests/\<close>. The kernel is an early one: \<^verbatim>\<open>entry\<close> brings up the descriptor tables, the boot context, the
  command line, the unwinder and the boot allocator and ends in a loop; the rest of the code is the
  libraries these use, consoles and the log, I/O windows, page tables and the interrupt handlers.

  \<^bold>\<open>Common ground.\<close> \<open>Prelude\<close> has the ways a function can fail to return (\<open>fault\<close>: a failed
  \<^verbatim>\<open>BUG_ON\<close>, an access outside every object, a loop that does not end), results with such a failure
  (\<open>res\<close>), and the error codes of \<^verbatim>\<open>include/common/error.h\<close>. An error code that a function returns is a
  value and no fault: its result is a sum inside the \<open>res\<close>. Machine integers are words of their width
  and wrap; sizes that cannot wrap are naturals. C state is passed along: the static variables of a file are a
  record (\<open>boot_alloc_state\<close>, \<open>console_state\<close>, \<open>early_state\<close>, \<open>kernel\<close>), a buffer is the list of its
  characters, other memory is a partial map from addresses to bytes (\<open>Memory\<close>).

  \<^bold>\<open>Theories and code.\<close>
  \<^item> \<open>CType\<close>, \<open>StringContainer\<close>, \<open>Conversions\<close>: \<^verbatim>\<open>common/ctype.c\<close>, \<^verbatim>\<open>common/string_container.c\<close> and
    \<^verbatim>\<open>common/conversions.c\<close>. A string is a pointer with a size (\<open>cstring\<close>, \<open>bytes\<close> its characters); every
    operation is proved equal to a list function. Number parsing accepts exactly the digit strings that
    denote a number of the type.
  \<^item> \<open>Memory\<close>: the loops of \<^verbatim>\<open>common/string.c\<close>; \<^verbatim>\<open>memmove\<close> is right for regions that overlap.
  \<^item> \<open>Format\<close> (the code of \<^verbatim>\<open>common/format.c\<close>), \<open>FormatWrites\<close> (what each write leaves in the buffer),
    \<open>FormatUniform\<close> (a calculus of runs that do not look at the buffer), \<open>FormatTheorems\<close> (one text per
    format and arguments, the text of integers, printing then parsing).
  \<^item> \<open>Param\<close> and \<open>ParamTheorems\<close>: \<^verbatim>\<open>param.c\<close>. The parser of the command line refines a tokeniser on lists.
    \<open>ParamTypes\<close>: what the \<^verbatim>\<open>set\<close> and \<^verbatim>\<open>get\<close> of each of the ten types owe the parser, as the locale
    \<open>param_type\<close>, interpreted for each type.
  \<^item> \<open>BootAlloc\<close> (the code of \<^verbatim>\<open>memory/boot_alloc.c\<close>), \<open>BootAllocRanges\<close> (ranges as sets of addresses),
    \<open>BootAllocCarve\<close>, \<open>BootAllocCases\<close> (the split of \<^verbatim>\<open>allocate_out_of\<close> case by case), \<open>BootAllocSpec\<close>,
    \<open>BootAllocOps\<close> (exact specifications of the operations), \<open>BootAllocGrow\<close> and \<open>BootAllocRunaway\<close>
    (capacity), \<open>BootAllocator\<close>
    (the contract \<open>page_allocator\<close> of clients, interpreted on the code, and sessions), \<open>BootAllocTheorems\<close>.
  \<^item> \<open>Search\<close>: the binary search of the next two as the locale \<open>bisection\<close>, interpreted for each.
  \<^item> \<open>Symbols\<close>: \<^verbatim>\<open>symbols.c\<close>, names compressed by tokens, looked up by address.
    \<open>SymbolGen\<close> (\<^verbatim>\<open>scripts/generate_symbol_tables.py\<close>, from the lines of \<^verbatim>\<open>nm\<close> to the tables),
    \<open>SymbolGenTokens\<close> (pair replacement keeps the names), \<open>SymbolGenTables\<close> (what the tables hold),
    \<open>SymbolGenLookup\<close> (the generated tables satisfy the lookup of \<open>Symbols\<close>).
  \<^item> \<open>Unwind\<close> (the code of \<^verbatim>\<open>unwind.c\<close>), \<open>UnwindDecode\<close> (LEB128 and pointer encodings), \<open>UnwindTable\<close>
    (the table of \<^verbatim>\<open>.eh_frame_hdr\<close>), \<open>UnwindRun\<close> (call frame instructions against their meaning),
    \<open>UnwindFrame\<close> (one step), \<open>UnwindWalk\<close> (whole walks, and what a step keeps on any bytes).
  \<^item> \<open>Console\<close>, \<open>Log\<close>: \<^verbatim>\<open>console.c\<close>, \<^verbatim>\<open>log.c\<close>, \<^verbatim>\<open>panic.c\<close> with the levels of \<^verbatim>\<open>include/log.h\<close>; \<open>dump_stack\<close>
    composes the unwinder, the symbols and the formatter. \<open>Atomic\<close>: \<^verbatim>\<open>include/common/atomic.h\<close>, each
    operation one step on the cell. \<open>Panic\<close>: \<^verbatim>\<open>panic\<close> on several processors, whose steps interleave; the
    locale \<open>entered_once\<close> says what the exchange buys, interpreted on \<open>panic_step\<close>.
  \<^item> \<open>IoWindow\<close>: \<^verbatim>\<open>io.c\<close> and \<^verbatim>\<open>arch/x86/io.c\<close>, with and without \<^verbatim>\<open>ULTRA_HARDENED_IO\<close>. \<open>Earlycon\<close>:
    \<^verbatim>\<open>arch/x86/earlycon.c\<close> and \<^verbatim>\<open>hypervisor.c\<close> on top of consoles, windows and parameters.
  \<^item> \<open>Division\<close>, \<open>PageTable\<close>, \<open>Descriptors\<close>, \<open>Interrupts\<close>: \<^verbatim>\<open>builtins.c\<close>, \<^verbatim>\<open>memory.c\<close> with the page table
    headers, \<^verbatim>\<open>idt.c\<close> with \<^verbatim>\<open>descriptors.h\<close>, and \<^verbatim>\<open>interrupts.S\<close>, \<^verbatim>\<open>exceptions.c\<close>, \<^verbatim>\<open>irq.c\<close> of \<^verbatim>\<open>arch/x86\<close>.
    The register frame of an interrupt is the record \<open>registers\<close> of \<open>Unwind\<close>.
  \<^item> \<open>BootContext\<close>, \<open>Entry\<close>: the loader's attributes (\<^verbatim>\<open>include/boot/ultra_protocol.h\<close>) as bytes,
    \<^verbatim>\<open>boot_context_init\<close>, and \<^verbatim>\<open>entry\<close> and \<^verbatim>\<open>x86_entry\<close> composed of all the above.
  \<^item> \<open>Arm\<close>: what the Arm port has of its own.
  \<^item> \<open>Tests\<close>: the cases of \<^verbatim>\<open>tests/test-cases\<close> as runs of the model, every one of which passes.

  \<^bold>\<open>What is shown.\<close> For the allocator, that the array stays sorted, disjoint and within its capacity and that
  the blocks of clients never overlap, over any sequence of calls; exact results of each operation;
  the growth of the array, which works once and then runs away. For the formatter and the command line, a
  refinement of a specification on texts. For the unwinder, that it recovers the frames
  which the tables describe and is safe on any bytes. For the symbol tables, that the lookup finds in the tables made from
  a listing of \<^verbatim>\<open>nm\<close> the function an address belongs to. For parameters, that a value keeps its type and that what
  is printed is read back, with the buffers that cut it. For panics, that one processor prints and
  every other halts, in any interleaving. For descriptors, page tables and interrupts, that what the
  processor reads is what was meant, and that an interrupted state is restored. For \<^verbatim>\<open>entry\<close>, that from
  a well-formed context the final loop is reached. Some properties state defects: they
  prove what the code does where it differs from its intent.

  \<^bold>\<open>Bounds and fuel.\<close> A loop over a list, a count or a string is structural or has a measure.
  Fuel stands where the code may not end: the recursion of \<open>boot_free\<close> through \<open>maybe_grow_buffer\<close> (the
  properties hold for any number from one on, as the array grows at most once in them; \<open>dynamic_growth_runs_away\<close>
  shows that the next growth recurses as deep as there is free memory), the walk of the unwinder (\<open>walk_visits_frames\<close>:
  the number of frames is enough) and its loop over its own frames, and \<open>vsnprintf_loop\<close>, where the size of the
  format and one more is enough, as each pass takes a character of the format. Running out is the fault \<open>Hang\<close>,
  and the properties of these functions give their result. The other loops have a measure (the bytes left, for those of
  the unwinder). The recursion that expands a token has the depth of Python's stack as fuel,
  \<open>PY_RECURSION_LIMIT\<close>; a token is made of older ones, so that 257 is enough. The console list may be cyclic, and a loop of
  \<^verbatim>\<open>%pS\<close> does not change its test: these are partial functions, \<open>None\<close> for not returning.

  \<^bold>\<open>Parameters of the model.\<close> What devices do on \<^verbatim>\<open>in\<close>, \<^verbatim>\<open>out\<close> and \<^verbatim>\<open>cpuid\<close>; what a console writes to;
  the addresses of the linker and the contents of the image (symbol tables, unwind tables, parameters);
  the bytes of the loader; the registers a call clobbers; the lines that \<^verbatim>\<open>nm\<close> prints. The frame the processor pushes for an interrupt, the
  vectors with an error code, and the walk of the page tables are its documented behaviour, written out in
  \<open>interrupt_frame\<close>, \<open>cpu_pushes_error_code\<close> and the lemmas of \<open>PageTable\<close>.

  \<^bold>\<open>Not modelled.\<close> Linker scripts, sections and initial calls (nothing calls them); \<^verbatim>\<open>load_gdt\<close> and the
  unwind hints in assembly; the memory orders of \<^verbatim>\<open>include/common/atomic.h\<close> (each operation is one step on
  one cell, and its barriers change no value); the fields of attributes that the kernel never reads;
  \<^verbatim>\<open>struct address_space\<close>, which has no operations; of the generator of the symbol tables the Linux format and
  the printing of the tables as C text; the build scripts and the program that runs the host tests. The unwinder is modelled
  with the registers of x86-64, 64-bit builds only, except for \<open>Division\<close>, which is the 32-bit build's.
\<close>

end
